(* ===== verification/Glob.thy ===== *)
theory Glob
  imports Prelude
begin

text \<open>
  \<open>crates/tf-types/src/glob.rs\<close>: the pattern language of capability targets, negative
  capabilities and policy \<open>target_patterns\<close>. \<open>glob_match\<close> tokenises the pattern and runs a
  dynamic program over the value, as the source does: \<open>dp ! j\<close> says that the tokens consumed so
  far match the first \<open>j\<close> characters. The specification is the language a token list denotes
  (\<open>glob_lang\<close>); the main lemma is that the program decides membership in it.
\<close>

subsection \<open>The matcher\<close>

datatype tok = Any | AnySegment | Lit nat

abbreviation star :: nat where "star \<equiv> 42"
abbreviation slash :: nat where "slash \<equiv> 47"

fun glob_toks :: "nat list \<Rightarrow> tok list" where
  "glob_toks [] = []"
| "glob_toks (c # cs) =
     (if c = star then
        (case cs of
           d # ds \<Rightarrow> if d = star then Any # glob_toks ds else AnySegment # glob_toks cs
         | [] \<Rightarrow> [AnySegment])
      else Lit c # glob_toks cs)"

text \<open>The inner loops: \<open>reachable\<close> is the loop-carried flag.\<close>

fun scan_lit :: "nat \<Rightarrow> bool list \<Rightarrow> nat list \<Rightarrow> bool list" where
  "scan_lit l (d # ds) (v # vs) = (d \<and> v = l) # scan_lit l ds vs"
| "scan_lit l ds vs = []"

fun scan_any :: "bool \<Rightarrow> bool list \<Rightarrow> bool list" where
  "scan_any reachable [] = []"
| "scan_any reachable (d # ds) = (reachable \<or> d) # scan_any (reachable \<or> d) ds"

fun scan_segment :: "bool \<Rightarrow> bool list \<Rightarrow> nat list \<Rightarrow> bool list" where
  "scan_segment reachable [] vs = []"
| "scan_segment reachable (d # ds) [] = (reachable \<or> d) # scan_segment (reachable \<or> d) ds []"
| "scan_segment reachable (d # ds) (v # vs) =
     (reachable \<or> d) # scan_segment (if v = slash then False else reachable \<or> d) ds vs"

fun dp_step :: "nat list \<Rightarrow> tok \<Rightarrow> bool list \<Rightarrow> bool list" where
  "dp_step vals (Lit l) dp = False # scan_lit l dp vals"
| "dp_step vals Any dp = scan_any False dp"
| "dp_step vals AnySegment dp = scan_segment False dp vals"

definition dp_init :: "nat list \<Rightarrow> bool list" where
  "dp_init vals = True # replicate (length vals) False"

definition dp_run :: "nat list \<Rightarrow> tok list \<Rightarrow> bool list" where
  "dp_run vals toks = fold (dp_step vals) toks (dp_init vals)"

definition glob_match :: "string \<Rightarrow> string \<Rightarrow> bool" where
  "glob_match pattern value =
     (let vals = str_chars value in dp_run vals (glob_toks (str_chars pattern)) ! length vals)"

subsection \<open>What a pattern denotes\<close>

fun tok_accepts :: "tok \<Rightarrow> nat list \<Rightarrow> bool" where
  "tok_accepts Any w = True"
| "tok_accepts AnySegment w = (slash \<notin> set w)"
| "tok_accepts (Lit c) w = (w = [c])"

fun glob_lang :: "tok list \<Rightarrow> nat list \<Rightarrow> bool" where
  "glob_lang [] w = (w = [])"
| "glob_lang (t # ts) w = (\<exists>u v. w = u @ v \<and> tok_accepts t u \<and> glob_lang ts v)"

lemma glob_lang_append:
  "glob_lang (ts @ us) w \<longleftrightarrow> (\<exists>u v. w = u @ v \<and> glob_lang ts u \<and> glob_lang us v)"
proof (induction ts arbitrary: w)
  case Nil
  then show ?case by simp
next
  case (Cons t ts)
  then show ?case by (auto simp: Cons.IH) (metis append.assoc)+
qed

lemma glob_lang_snoc:
  "glob_lang (ts @ [t]) w \<longleftrightarrow> (\<exists>i \<le> length w. glob_lang ts (take i w) \<and> tok_accepts t (drop i w))"
  unfolding glob_lang_append
proof (intro iffI)
  assume "\<exists>u v. w = u @ v \<and> glob_lang ts u \<and> glob_lang [t] v"
  then obtain u v where "w = u @ v" "glob_lang ts u" "tok_accepts t v" by auto
  then show "\<exists>i \<le> length w. glob_lang ts (take i w) \<and> tok_accepts t (drop i w)"
    by (intro exI [of _ "length u"]) simp
next
  assume "\<exists>i \<le> length w. glob_lang ts (take i w) \<and> tok_accepts t (drop i w)"
  then obtain i where "glob_lang ts (take i w)" "tok_accepts t (drop i w)" by blast
  then show "\<exists>u v. w = u @ v \<and> glob_lang ts u \<and> glob_lang [t] v"
    by (intro exI [of _ "take i w"] exI [of _ "drop i w"]) auto
qed

subsection \<open>The dynamic program computes the language\<close>

lemma length_scan_lit [simp]:
  "length ds = Suc (length vs) \<Longrightarrow> length (scan_lit l ds vs) = length vs"
  by (induction l ds vs rule: scan_lit.induct) auto

lemma length_scan_any [simp]: "length (scan_any r ds) = length ds"
  by (induction r ds rule: scan_any.induct) auto

lemma length_scan_segment [simp]: "length (scan_segment r ds vs) = length ds"
  by (induction r ds vs rule: scan_segment.induct) auto

lemma length_dp_step:
  "length dp = Suc (length vals) \<Longrightarrow> length (dp_step vals t dp) = Suc (length vals)"
  by (cases t) auto

lemma scan_lit_nth:
  "length ds = Suc (length vs) \<Longrightarrow> j < length vs \<Longrightarrow> scan_lit l ds vs ! j \<longleftrightarrow> ds ! j \<and> vs ! j = l"
  by (induction l ds vs arbitrary: j rule: scan_lit.induct) (auto simp: nth_Cons split: nat.splits)

lemma scan_any_nth:
  "j < length ds \<Longrightarrow> scan_any r ds ! j \<longleftrightarrow> r \<or> (\<exists>i \<le> j. ds ! i)"
proof (induction r ds arbitrary: j rule: scan_any.induct)
  case (2 r d ds)
  show ?case
  proof (cases j)
    case (Suc k)
    with 2 show ?thesis by (simp add: ex_le_Suc)
  qed simp
qed simp

lemma scan_segment_nth:
  "length ds = Suc (length vs) \<Longrightarrow> j < length ds \<Longrightarrow>
   scan_segment r ds vs ! j \<longleftrightarrow>
     (r \<and> slash \<notin> set (take j vs)) \<or>
     (\<exists>i \<le> j. ds ! i \<and> slash \<notin> set (drop i (take j vs)))"
proof (induction r ds vs arbitrary: j rule: scan_segment.induct)
  case (3 r d ds v vs)
  show ?case
  proof (cases j)
    case (Suc k)
    with 3 show ?thesis by (simp add: ex_le_Suc) blast
  qed simp
qed simp_all

lemma dp_step_nth:
  assumes len: "length dp = Suc (length vals)"
    and inv: "\<forall>j \<le> length vals. dp ! j \<longleftrightarrow> glob_lang ts (take j vals)"
    and j: "j \<le> length vals"
  shows "dp_step vals t dp ! j \<longleftrightarrow> glob_lang (ts @ [t]) (take j vals)"
proof -
  have spec: "glob_lang (ts @ [t]) (take j vals) \<longleftrightarrow>
      (\<exists>i \<le> j. dp ! i \<and> tok_accepts t (drop i (take j vals)))"
  proof -
    have "glob_lang ts (take i (take j vals)) \<longleftrightarrow> dp ! i" if "i \<le> j" for i
      using that j inv by (simp add: min_absorb1)
    then show ?thesis using j by (auto simp: glob_lang_snoc min_absorb2)
  qed
  show ?thesis
  proof (cases t)
    case Any
    with spec scan_any_nth [of j dp False] len j show ?thesis by simp
  next
    case AnySegment
    with spec scan_segment_nth [OF len, of j False] len j show ?thesis by simp
  next
    case (Lit l)
    have one: "(drop i (take j vals) = [l]) \<longleftrightarrow> Suc i = j \<and> vals ! i = l" if "i \<le> j" for i
    proof
      assume eq: "drop i (take j vals) = [l]"
      then have "length (drop i (take j vals)) = 1" by simp
      with j that have s: "Suc i = j" by simp
      have "drop i (take j vals) ! 0 = vals ! i" using s j by simp
      with eq s show "Suc i = j \<and> vals ! i = l" by simp
    next
      assume h: "Suc i = j \<and> vals ! i = l"
      with j have "take j vals = take i vals @ [l]" by (auto simp: take_Suc_conv_app_nth)
      with h j show "drop i (take j vals) = [l]" by simp
    qed
    from spec Lit one have "glob_lang (ts @ [t]) (take j vals) \<longleftrightarrow>
      (\<exists>i \<le> j. dp ! i \<and> Suc i = j \<and> vals ! i = l)" by auto
    moreover have "dp_step vals t dp ! j \<longleftrightarrow> (\<exists>i \<le> j. dp ! i \<and> Suc i = j \<and> vals ! i = l)"
      using Lit len j by (cases j) (auto simp: scan_lit_nth)
    ultimately show ?thesis by blast
  qed
qed

lemma dp_run_snoc: "dp_run vals (ts @ [t]) = dp_step vals t (dp_run vals ts)"
  by (simp add: dp_run_def)

lemma dp_run_correct:
  "length (dp_run vals ts) = Suc (length vals) \<and>
   (\<forall>j \<le> length vals. dp_run vals ts ! j \<longleftrightarrow> glob_lang ts (take j vals))"
proof (induction ts rule: rev_induct)
  case Nil
  show ?case by (auto simp: dp_run_def dp_init_def nth_Cons split: nat.splits)
next
  case (snoc t ts)
  then show ?case by (simp add: dp_run_snoc length_dp_step dp_step_nth)
qed

lemma glob_match_lang:
  "glob_match p v \<longleftrightarrow> glob_lang (glob_toks (str_chars p)) (str_chars v)"
  using dp_run_correct [of "str_chars v" "glob_toks (str_chars p)"]
  by (simp add: glob_match_def Let_def)

subsection \<open>Properties\<close>

text \<open>C20. \<open>glob_match\<close> accepts exactly the values in the language of the pattern: the value splits
  into consecutive pieces, one per token, where a \<open>*\<close> token takes a piece without \<open>/\<close>, a
  \<open>**\<close> token takes any piece and every other character takes itself.\<close>

theorem glob_match_correct:
  "glob_match pattern value \<longleftrightarrow>
     (\<exists>pieces. concat pieces = str_chars value \<and>
        list_all2 tok_accepts (glob_toks (str_chars pattern)) pieces)"
proof -
  have "glob_lang ts w \<longleftrightarrow> (\<exists>pieces. concat pieces = w \<and> list_all2 tok_accepts ts pieces)" for ts w
  proof (induction ts arbitrary: w)
    case Nil
    then show ?case by auto
  next
    case (Cons t ts)
    then show ?case by (auto simp: list_all2_Cons1) (metis concat.simps(2), blast)
  qed
  then show ?thesis by (simp add: glob_match_lang)
qed

lemma glob_toks_literal: "star \<notin> set cs \<Longrightarrow> glob_toks cs = map Lit cs"
  by (induction cs) auto

lemma glob_lang_literal: "glob_lang (map Lit cs) w \<longleftrightarrow> w = cs"
  by (induction cs arbitrary: w) auto

text \<open>A pattern without \<open>*\<close> matches its own text and nothing else: \<open>?\<close> and the regular
  expression metacharacters are ordinary characters.\<close>

lemma glob_match_literal:
  assumes "star \<notin> set (str_chars pattern)"
  shows "glob_match pattern value \<longleftrightarrow> str_chars value = str_chars pattern"
  using assms by (simp add: glob_match_lang glob_toks_literal glob_lang_literal)

lemma glob_match_double_star [simp]: "glob_match ''**'' v"
proof -
  have "glob_toks (str_chars ''**'') = [Any]" by code_simp
  then show ?thesis by (simp add: glob_match_lang)
qed

end
