(* ===== verification/Identifiers.thy ===== *)
theory Identifiers
  imports Prelude
begin

text \<open>
  The identifier parsers of \<open>tf-types\<close>: \<open>actor_id.rs\<close> (\<open>tf:actor:<type>:<path>\<close>),
  \<open>instance_id.rs\<close> (\<open>tf:instance:<type>:<path>/<instance>\<close>) and \<open>trust_domain.rs\<close>.
  SHA-256 is a parameter of \<open>derive_peer_actor\<close>.
\<close>

subsection \<open>Actor URIs\<close>

datatype actor_type =
    Human | Agent | Device | Service | Site | Organization | Relay | Plugin | Process | Tool
  | ModelProvider | PolicyEngine | ProofAnchor | EmergencyAuthority

datatype actor_id_parse_error =
    MalformedScheme string
  | WrongKind string
  | UnknownType string
  | EmptyPath

record parsed_actor_id =
  pa_actor_type :: actor_type
  pa_path :: string
  pa_raw :: string

record scheme_parts =
  sp_kind :: string
  sp_type_segment :: string
  sp_path :: string

fun actor_type_to_str :: "actor_type \<Rightarrow> string" where
  "actor_type_to_str Human = ''human''"
| "actor_type_to_str Agent = ''agent''"
| "actor_type_to_str Device = ''device''"
| "actor_type_to_str Service = ''service''"
| "actor_type_to_str Site = ''site''"
| "actor_type_to_str Organization = ''organization''"
| "actor_type_to_str Relay = ''relay''"
| "actor_type_to_str Plugin = ''plugin''"
| "actor_type_to_str Process = ''process''"
| "actor_type_to_str Tool = ''tool''"
| "actor_type_to_str ModelProvider = ''model-provider''"
| "actor_type_to_str PolicyEngine = ''policy-engine''"
| "actor_type_to_str ProofAnchor = ''proof-anchor''"
| "actor_type_to_str EmergencyAuthority = ''emergency-authority''"

definition parse_actor_type :: "string \<Rightarrow> actor_type option" where
  "parse_actor_type s =
     (if s = ''human'' then Some Human
      else if s = ''agent'' then Some Agent
      else if s = ''device'' then Some Device
      else if s = ''service'' then Some Service
      else if s = ''site'' then Some Site
      else if s = ''organization'' then Some Organization
      else if s = ''relay'' then Some Relay
      else if s = ''plugin'' then Some Plugin
      else if s = ''process'' then Some Process
      else if s = ''tool'' then Some Tool
      else if s = ''model-provider'' then Some ModelProvider
      else if s = ''policy-engine'' then Some PolicyEngine
      else if s = ''proof-anchor'' then Some ProofAnchor
      else if s = ''emergency-authority'' then Some EmergencyAuthority
      else None)"

definition split_scheme :: "string \<Rightarrow> scheme_parts option" where
  "split_scheme s =
     Option.bind (strip_prefix ''tf:'' s) (\<lambda>rest.
     Option.bind (str_find (CHR '':'') rest) (\<lambda>first.
     let kind = take first rest; remainder = drop (first + 1) rest in
     Option.bind (str_find (CHR '':'') remainder) (\<lambda>second.
     Some \<lparr>sp_kind = kind, sp_type_segment = take second remainder,
           sp_path = drop (second + 1) remainder\<rparr>)))"

definition parse_actor_id :: "string \<Rightarrow> actor_id_parse_error + parsed_actor_id" where
  "parse_actor_id s =
     rbind (ok_or (MalformedScheme s) (split_scheme s)) (\<lambda>parts.
     if sp_kind parts \<noteq> ''actor'' then Inl (WrongKind (sp_kind parts))
     else rbind (ok_or (UnknownType (sp_type_segment parts)) (parse_actor_type (sp_type_segment parts)))
       (\<lambda>t. if sp_path parts = [] then Inl EmptyPath
            else Inr \<lparr>pa_actor_type = t, pa_path = sp_path parts, pa_raw = s\<rparr>))"

definition format_actor_id :: "actor_type \<Rightarrow> string \<Rightarrow> actor_id_parse_error + string" where
  "format_actor_id t path =
     (if path = [] then Inl EmptyPath
      else Inr (''tf:actor:'' @ actor_type_to_str t @ '':'' @ path))"

definition actor_id_equals :: "string \<Rightarrow> string \<Rightarrow> bool" where
  "actor_id_equals a b =
     (case (parse_actor_id a, parse_actor_id b) of
        (Inr x, Inr y) \<Rightarrow> pa_actor_type x = pa_actor_type y \<and> pa_path x = pa_path y
      | _ \<Rightarrow> False)"

definition derive_peer_actor :: "(bytes \<Rightarrow> bytes) \<Rightarrow> bytes \<Rightarrow> actor_id_parse_error + string" where
  "derive_peer_actor sha256 ident_pub =
     (if length ident_pub \<noteq> 32 then Inl EmptyPath
      else Inr (''tf:actor:process:key/'' @ hex_lower (take 8 (sha256 ident_pub))))"

subsection \<open>Instance URIs\<close>

record parsed_instance_id =
  pi_actor_type :: actor_type
  pi_actor_path :: string
  pi_instance_path :: string
  pi_raw :: string

definition parse_instance_id :: "string \<Rightarrow> actor_id_parse_error + parsed_instance_id" where
  "parse_instance_id s =
     rbind (ok_or (MalformedScheme s) (split_scheme s)) (\<lambda>parts.
     if sp_kind parts \<noteq> ''instance'' then Inl (WrongKind (sp_kind parts))
     else rbind (ok_or (UnknownType (sp_type_segment parts)) (parse_actor_type (sp_type_segment parts)))
       (\<lambda>t. rbind (ok_or EmptyPath (str_rfind (CHR ''/'') (sp_path parts))) (\<lambda>split.
       if split = 0 then Inl EmptyPath
       else let actor_path = take split (sp_path parts);
                instance_path = drop (split + 1) (sp_path parts)
            in if actor_path = [] \<or> instance_path = [] then Inl EmptyPath
               else Inr \<lparr>pi_actor_type = t, pi_actor_path = actor_path,
                         pi_instance_path = instance_path, pi_raw = s\<rparr>)))"

definition format_instance_id ::
    "actor_type \<Rightarrow> string \<Rightarrow> string \<Rightarrow> actor_id_parse_error + string" where
  "format_instance_id t actor_path instance_path =
     (if actor_path = [] \<or> instance_path = [] then Inl EmptyPath
      else Inr (''tf:instance:'' @ actor_type_to_str t @ '':'' @ actor_path @ ''/'' @ instance_path))"

definition to_actor_id :: "string \<Rightarrow> actor_id_parse_error + string" where
  "to_actor_id instance_id =
     rbind (parse_instance_id instance_id) (\<lambda>p. format_actor_id (pi_actor_type p) (pi_actor_path p))"

subsection \<open>Trust domains\<close>

datatype trust_domain_parse_error = TdEmpty | BadDns string

datatype trust_domain_kind = Dns | Local

record parsed_trust_domain =
  td_kind :: trust_domain_kind
  td_value :: string
  td_raw :: string

definition is_alnum :: "char \<Rightarrow> bool" where
  "is_alnum c =
     ((CHR ''A'' \<le> c \<and> c \<le> CHR ''Z'') \<or> (CHR ''a'' \<le> c \<and> c \<le> CHR ''z'') \<or>
      (CHR ''0'' \<le> c \<and> c \<le> CHR ''9''))"

definition is_dns_like :: "string \<Rightarrow> bool" where
  "is_dns_like s =
     (s \<noteq> [] \<and> is_alnum (hd s) \<and> is_alnum (last s) \<and>
      list_all (\<lambda>b. is_alnum b \<or> b = CHR ''.'' \<or> b = CHR ''-'') s)"

definition ascii_lower :: "char \<Rightarrow> char" where
  "ascii_lower c =
     (if CHR ''A'' \<le> c \<and> c \<le> CHR ''Z'' then char_of (of_char c + 32 :: nat) else c)"

definition parse_trust_domain :: "string \<Rightarrow> trust_domain_parse_error + parsed_trust_domain" where
  "parse_trust_domain s =
     (if s = [] then Inl TdEmpty
      else case strip_prefix ''local/'' s of
        Some rest \<Rightarrow>
          if rest = [] then Inl TdEmpty
          else Inr \<lparr>td_kind = Local, td_value = rest, td_raw = s\<rparr>
      | None \<Rightarrow>
          if \<not> is_dns_like s then Inl (BadDns s)
          else Inr \<lparr>td_kind = Dns, td_value = map ascii_lower s, td_raw = s\<rparr>)"

definition trust_domain_equals :: "string \<Rightarrow> string \<Rightarrow> bool" where
  "trust_domain_equals a b =
     (case (parse_trust_domain a, parse_trust_domain b) of
        (Inr x, Inr y) \<Rightarrow> td_kind x = td_kind y \<and> td_value x = td_value y
      | _ \<Rightarrow> False)"

subsection \<open>Lemmas\<close>

lemma actor_type_roundtrip [simp]: "parse_actor_type (actor_type_to_str t) = Some t"
  by (cases t) (simp_all add: parse_actor_type_def)

lemma parse_actor_type_Some: "parse_actor_type s = Some t \<Longrightarrow> s = actor_type_to_str t"
  by (auto simp: parse_actor_type_def split: if_splits)

lemma parse_actor_type_iff: "parse_actor_type s = Some t \<longleftrightarrow> s = actor_type_to_str t"
  using parse_actor_type_Some by auto

lemma no_colon_actor_type [simp]: "CHR '':'' \<notin> set (actor_type_to_str t)"
  by (cases t) simp_all

lemma split_scheme_build:
  assumes "CHR '':'' \<notin> set k" "CHR '':'' \<notin> set t"
  shows "split_scheme (''tf:'' @ k @ '':'' @ t @ '':'' @ p) =
    Some \<lparr>sp_kind = k, sp_type_segment = t, sp_path = p\<rparr>"
  using assms str_find_append [of "CHR '':''" k "t @ '':'' @ p"]
    str_find_append [of "CHR '':''" t p]
  by (simp add: split_scheme_def)

lemma split_scheme_Some:
  assumes "split_scheme s = Some p"
  shows "s = ''tf:'' @ sp_kind p @ '':'' @ sp_type_segment p @ '':'' @ sp_path p \<and>
    CHR '':'' \<notin> set (sp_kind p) \<and> CHR '':'' \<notin> set (sp_type_segment p)"
proof -
  from assms obtain rest i j where
    s: "s = ''tf:'' @ rest" and
    i: "str_find (CHR '':'') rest = Some i" and
    j: "str_find (CHR '':'') (drop (i + 1) rest) = Some j" and
    p: "p = \<lparr>sp_kind = take i rest, sp_type_segment = take j (drop (i + 1) rest),
             sp_path = drop (j + 1) (drop (i + 1) rest)\<rparr>"
    by (auto simp: split_scheme_def strip_prefix_Some_iff Let_def bind_eq_Some_conv
        simp del: strip_prefix.simps)
  from str_find_Some [OF i] str_find_Some [OF j] show ?thesis
    unfolding s p by (simp add: add.commute)
qed

lemma parse_actor_id_Inr_iff:
  "parse_actor_id s = Inr a \<longleftrightarrow>
     s = ''tf:actor:'' @ actor_type_to_str (pa_actor_type a) @ '':'' @ pa_path a \<and>
     pa_path a \<noteq> [] \<and> pa_raw a = s"
proof
  assume "parse_actor_id s = Inr a"
  then obtain p where p: "split_scheme s = Some p" "sp_kind p = ''actor''"
    "parse_actor_type (sp_type_segment p) = Some (pa_actor_type a)"
    "sp_path p = pa_path a" "pa_path a \<noteq> []" "pa_raw a = s"
    by (auto simp: parse_actor_id_def result_iffs split: if_splits)
  with split_scheme_Some [OF p(1)] show "s = ''tf:actor:'' @ actor_type_to_str (pa_actor_type a) @
      '':'' @ pa_path a \<and> pa_path a \<noteq> [] \<and> pa_raw a = s"
    by (auto simp: parse_actor_type_iff)
next
  assume h: "s = ''tf:actor:'' @ actor_type_to_str (pa_actor_type a) @ '':'' @ pa_path a \<and>
     pa_path a \<noteq> [] \<and> pa_raw a = s"
  have "split_scheme s = Some \<lparr>sp_kind = ''actor'',
      sp_type_segment = actor_type_to_str (pa_actor_type a), sp_path = pa_path a\<rparr>"
    using split_scheme_build [of "''actor''" "actor_type_to_str (pa_actor_type a)" "pa_path a"] h
    by simp
  with h show "parse_actor_id s = Inr a" by (simp add: parse_actor_id_def)
qed

lemma parse_instance_id_Inr_iff:
  "parse_instance_id s = Inr a \<longleftrightarrow>
     s = ''tf:instance:'' @ actor_type_to_str (pi_actor_type a) @ '':'' @ pi_actor_path a @ ''/'' @
       pi_instance_path a \<and>
     pi_actor_path a \<noteq> [] \<and> pi_instance_path a \<noteq> [] \<and> CHR ''/'' \<notin> set (pi_instance_path a) \<and>
     pi_raw a = s"
proof
  assume "parse_instance_id s = Inr a"
  then obtain p i where p: "split_scheme s = Some p" "sp_kind p = ''instance''"
    "parse_actor_type (sp_type_segment p) = Some (pi_actor_type a)"
    "str_rfind (CHR ''/'') (sp_path p) = Some i"
    "take i (sp_path p) = pi_actor_path a" "drop (i + 1) (sp_path p) = pi_instance_path a"
    "pi_actor_path a \<noteq> []" "pi_instance_path a \<noteq> []" "pi_raw a = s"
    by (auto simp: parse_instance_id_def result_iffs Let_def split: if_splits)
  with split_scheme_Some [OF p(1)] str_rfind_Some [OF p(4)]
  show "s = ''tf:instance:'' @ actor_type_to_str (pi_actor_type a) @ '':'' @ pi_actor_path a @ ''/'' @
       pi_instance_path a \<and>
     pi_actor_path a \<noteq> [] \<and> pi_instance_path a \<noteq> [] \<and> CHR ''/'' \<notin> set (pi_instance_path a) \<and>
     pi_raw a = s"
    by (auto simp: parse_actor_type_iff)
next
  assume h: "s = ''tf:instance:'' @ actor_type_to_str (pi_actor_type a) @ '':'' @ pi_actor_path a @
       ''/'' @ pi_instance_path a \<and>
     pi_actor_path a \<noteq> [] \<and> pi_instance_path a \<noteq> [] \<and> CHR ''/'' \<notin> set (pi_instance_path a) \<and>
     pi_raw a = s"
  let ?path = "pi_actor_path a @ ''/'' @ pi_instance_path a"
  have "split_scheme s = Some \<lparr>sp_kind = ''instance'',
      sp_type_segment = actor_type_to_str (pi_actor_type a), sp_path = ?path\<rparr>"
    using split_scheme_build [of "''instance''" "actor_type_to_str (pi_actor_type a)" ?path] h
    by simp
  moreover have "str_rfind (CHR ''/'') ?path = Some (length (pi_actor_path a))"
    using h str_rfind_append [of "CHR ''/''" "pi_instance_path a"] by simp
  ultimately show "parse_instance_id s = Inr a" using h
    by (cases a) (simp add: parse_instance_id_def Let_def)
qed

subsection \<open>Properties\<close>

text \<open>C30. An actor URI parses exactly when it has the form \<open>tf:actor:<type>:<path>\<close> with one of the
  fourteen actor types and a non-empty path, and the parsed fields then rebuild the URI: formatting
  is the inverse of parsing on both sides.\<close>

theorem actor_id_roundtrip:
  "(format_actor_id t path = Inr s \<longleftrightarrow>
      (\<exists>a. parse_actor_id s = Inr a \<and> pa_actor_type a = t \<and> pa_path a = path))"
proof
  assume "format_actor_id t path = Inr s"
  then show "\<exists>a. parse_actor_id s = Inr a \<and> pa_actor_type a = t \<and> pa_path a = path"
    by (intro exI [of _ "\<lparr>pa_actor_type = t, pa_path = path, pa_raw = s\<rparr>"])
      (auto simp: format_actor_id_def parse_actor_id_Inr_iff split: if_splits)
next
  assume "\<exists>a. parse_actor_id s = Inr a \<and> pa_actor_type a = t \<and> pa_path a = path"
  then show "format_actor_id t path = Inr s"
    by (auto simp: format_actor_id_def parse_actor_id_Inr_iff)
qed

text \<open>The actor behind an instance: \<open>to_actor_id\<close> of a formatted instance URI is the formatted
  actor URI, whenever the instance segment is a single path segment (the parser splits at the last
  \<open>/\<close>).\<close>

lemma instance_to_actor:
  assumes "format_instance_id t ap ip = Inr s" and "CHR ''/'' \<notin> set ip"
  shows "to_actor_id s = format_actor_id t ap"
proof -
  from assms have "parse_instance_id s =
      Inr \<lparr>pi_actor_type = t, pi_actor_path = ap, pi_instance_path = ip, pi_raw = s\<rparr>"
    by (auto simp: parse_instance_id_Inr_iff format_instance_id_def split: if_splits)
  then show ?thesis by (simp add: to_actor_id_def)
qed

end
