(* ===== verification/Envelope.thy ===== *)
theory Envelope
  imports Prelude
begin

text \<open>
  \<open>crates/tf-types/src/envelope.rs\<close>: the shape check of a signature envelope
  (\<open>generated/common.rs\<close>, \<open>SignatureEnvelope\<close>). No cryptography happens here. Issues about
  unknown algorithms are warnings: they are reported and never change the verdict.
\<close>

record signature_envelope =
  se_algorithm :: string
  se_signer :: string
  se_signature :: string
  se_hash_alg :: "string option"
  se_alt_algorithm :: "string option"
  se_alt_signature :: "string option"

datatype envelope_issue =
    MissingAlgorithm
  | MissingSigner
  | MissingSignature
  | InvalidBase64 string
  | AltWithoutAlgorithm
  | UnknownAlgorithm string
  | UnknownAltAlgorithm string

fun is_warning :: "envelope_issue \<Rightarrow> bool" where
  "is_warning (UnknownAlgorithm a) = True"
| "is_warning (UnknownAltAlgorithm a) = True"
| "is_warning i = False"

record envelope_validation =
  ev_ok :: bool
  ev_issues :: "envelope_issue list"

definition KNOWN_ALGORITHMS :: "string list" where
  "KNOWN_ALGORITHMS =
     [''ed25519'', ''ed448'', ''p256'', ''p384'', ''p521'', ''rsa-pss-sha256'', ''ml-dsa-44'',
      ''ml-dsa-65'', ''ml-dsa-87'', ''slh-dsa-sha2-128s'', ''slh-dsa-sha2-192s'']"

text \<open>The loop of \<open>is_base64\<close>: \<open>eq_seen\<close> counts the \<open>=\<close> characters so far.\<close>

definition base64_letter :: "nat \<Rightarrow> bool" where
  "base64_letter c =
     ((65 \<le> c \<and> c \<le> 90) \<or> (97 \<le> c \<and> c \<le> 122) \<or> (48 \<le> c \<and> c \<le> 57) \<or> c = 43 \<or> c = 47)"

fun is_base64_loop :: "nat \<Rightarrow> nat list \<Rightarrow> bool" where
  "is_base64_loop eq_seen [] = True"
| "is_base64_loop eq_seen (c # cs) =
     (if base64_letter c then (if eq_seen > 0 then False else is_base64_loop eq_seen cs)
      else if c = 61 then (if eq_seen + 1 > 2 then False else is_base64_loop (eq_seen + 1) cs)
      else False)"

definition is_base64 :: "string \<Rightarrow> bool" where
  "is_base64 s = (if s = [] then False else is_base64_loop 0 (str_chars s))"

definition validate_envelope_shape :: "signature_envelope \<Rightarrow> envelope_validation" where
  "validate_envelope_shape e =
     (let issues =
            (if se_algorithm e = [] then [MissingAlgorithm] else []) @
            (if se_signer e = [] then [MissingSigner] else []) @
            (if se_signature e = [] then [MissingSignature] else []) @
            (if se_signature e \<noteq> [] \<and> \<not> is_base64 (se_signature e)
             then [InvalidBase64 ''signature''] else []) @
            (case se_alt_signature e of
               Some alt \<Rightarrow>
                 (if \<not> is_base64 alt then [InvalidBase64 ''alt_signature''] else []) @
                 (if se_alt_algorithm e = None then [AltWithoutAlgorithm] else [])
             | None \<Rightarrow> []);
          fatal_count = length (filter (\<lambda>i. \<not> is_warning i) issues);
          warnings =
            (if se_algorithm e \<noteq> [] \<and> se_algorithm e \<notin> set KNOWN_ALGORITHMS
             then [UnknownAlgorithm (se_algorithm e)] else []) @
            (case se_alt_algorithm e of
               Some alt \<Rightarrow> if alt \<notin> set KNOWN_ALGORITHMS then [UnknownAltAlgorithm alt] else []
             | None \<Rightarrow> [])
      in \<lparr>ev_ok = (fatal_count = 0), ev_issues = issues @ warnings\<rparr>)"

subsection \<open>What the base64 shape check accepts\<close>

lemma is_base64_loop_pads:
  "is_base64_loop (Suc n) cs \<longleftrightarrow> (\<exists>k. cs = replicate k 61 \<and> Suc n + k \<le> 2 \<or> cs = [] \<and> k = 0)"
proof (induction cs arbitrary: n)
  case Nil
  then show ?case by auto
next
  case (Cons c cs)
  show ?case
  proof (cases "c = 61")
    case True
    have "\<not> base64_letter 61" by (simp add: base64_letter_def)
    with True Cons.IH [of "Suc n"] show ?thesis
      by (auto simp: Cons_replicate_eq)
  next
    case False
    then show ?thesis by (auto simp: Cons_replicate_eq)
  qed
qed

lemma is_base64_loop_iff:
  "is_base64_loop 0 cs \<longleftrightarrow>
     (\<exists>body k. cs = body @ replicate k 61 \<and> k \<le> 2 \<and> list_all base64_letter body)"
  (is "_ \<longleftrightarrow> ?R cs")
proof (induction cs)
  case Nil
  show ?case by simp
next
  case (Cons c cs)
  have pad: "\<not> base64_letter 61" by (simp add: base64_letter_def)
  consider (letter) "base64_letter c" | (pad) "c = 61" | (other) "\<not> base64_letter c" "c \<noteq> 61" by blast
  then show ?case
  proof cases
    case letter
    have "?R (c # cs) \<longleftrightarrow> ?R cs"
    proof
      assume "?R (c # cs)"
      then obtain body k where b: "c # cs = body @ replicate k 61" "k \<le> 2" "list_all base64_letter body"
        by blast
      with letter pad have "body \<noteq> []" by (cases k) auto
      with b show "?R cs" by (cases body) auto
    next
      assume "?R cs"
      then obtain body k where "cs = body @ replicate k 61" "k \<le> 2" "list_all base64_letter body" by blast
      with letter show "?R (c # cs)" by (intro exI [of _ "c # body"] exI [of _ k]) auto
    qed
    with letter Cons.IH show ?thesis by simp
  next
    case pad: pad
    have "?R (c # cs) \<longleftrightarrow> (\<exists>k. cs = replicate k 61 \<and> Suc k \<le> 2)"
    proof
      assume "?R (c # cs)"
      then obtain body k where b: "c # cs = body @ replicate k 61" "k \<le> 2" "list_all base64_letter body"
        by blast
      with pad \<open>\<not> base64_letter 61\<close> have "body = []" by (cases body) auto
      with b show "\<exists>k. cs = replicate k 61 \<and> Suc k \<le> 2" by (cases k) auto
    next
      assume "\<exists>k. cs = replicate k 61 \<and> Suc k \<le> 2"
      then obtain k where "cs = replicate k 61" "Suc k \<le> 2" by blast
      with pad show "?R (c # cs)" by (intro exI [of _ "[]"] exI [of _ "Suc k"]) simp
    qed
    with pad \<open>\<not> base64_letter 61\<close> show ?thesis by (auto simp: is_base64_loop_pads)
  next
    case other
    then show ?thesis by (auto simp: Cons_eq_append_conv Cons_replicate_eq)
  qed
qed

text \<open>The verdict of \<open>validate_envelope_shape\<close>: an envelope is accepted exactly when algorithm,
  signer and signature are present, the signature (and the alternative one, which then needs an
  algorithm) is a run of base64 letters with at most two trailing \<open>=\<close>. An unknown algorithm is
  never a reason to refuse.\<close>

lemma validate_envelope_shape_ok:
  "ev_ok (validate_envelope_shape e) \<longleftrightarrow>
     se_algorithm e \<noteq> [] \<and> se_signer e \<noteq> [] \<and> is_base64 (se_signature e) \<and>
     (se_alt_signature e = None \<or>
      (\<exists>alt. se_alt_signature e = Some alt \<and> is_base64 alt \<and> se_alt_algorithm e \<noteq> None))"
proof -
  have "is_base64 s \<Longrightarrow> s \<noteq> []" for s by (auto simp: is_base64_def)
  then show ?thesis
    by (auto simp: validate_envelope_shape_def Let_def split: option.splits)
qed

end
