(* ===== verification/Validity.thy ===== *)
theory Validity
  imports Envelope
begin

text \<open>
  \<open>expiration.rs\<close> (validity windows over RFC 3339 timestamps compared as strings) and
  \<open>revocation.rs\<close> (the revocation index: per target kind and id, the revocation that takes effect
  first). The record of a revocation is the generated type of \<open>generated/revocation.rs\<close>.
\<close>

subsection \<open>Validity windows\<close>

record window =
  w_valid_from :: "string option"
  w_valid_until :: "string option"
  w_expires_at :: "string option"
  w_not_before :: "string option"
  w_not_after :: "string option"

definition default_window :: window where
  "default_window = \<lparr>w_valid_from = None, w_valid_until = None, w_expires_at = None,
     w_not_before = None, w_not_after = None\<rparr>"

datatype expiration_verdict = Ok | NotYetValid string | Expired string

definition check_window :: "window \<Rightarrow> string \<Rightarrow> expiration_verdict" where
  "check_window w now =
     (let start = opt_or (w_valid_from w) (w_not_before w);
          stop = opt_or (opt_or (w_valid_until w) (w_expires_at w)) (w_not_after w);
          late = (case stop of Some e \<Rightarrow> if now > e then Expired e else Ok | None \<Rightarrow> Ok)
      in case start of
           Some s \<Rightarrow> if now < s then NotYetValid s else late
         | None \<Rightarrow> late)"

definition is_within_window :: "window \<Rightarrow> string \<Rightarrow> bool" where
  "is_within_window w now = (case check_window w now of Ok \<Rightarrow> True | _ \<Rightarrow> False)"

definition is_expired :: "window \<Rightarrow> string \<Rightarrow> bool" where
  "is_expired w now = (case check_window w now of Expired e \<Rightarrow> True | _ \<Rightarrow> False)"

lemma is_within_window_iff:
  "is_within_window w now \<longleftrightarrow>
     (\<forall>s. opt_or (w_valid_from w) (w_not_before w) = Some s \<longrightarrow> s \<le> now) \<and>
     (\<forall>e. opt_or (opt_or (w_valid_until w) (w_expires_at w)) (w_not_after w) = Some e \<longrightarrow> now \<le> e)"
  by (auto simp: is_within_window_def check_window_def Let_def not_less
      split: option.splits expiration_verdict.splits if_splits)

lemma is_expired_iff:
  "is_expired w now \<longleftrightarrow>
     (\<forall>s. opt_or (w_valid_from w) (w_not_before w) = Some s \<longrightarrow> s \<le> now) \<and>
     (\<exists>e. opt_or (opt_or (w_valid_until w) (w_expires_at w)) (w_not_after w) = Some e \<and> e < now)"
  by (auto simp: is_expired_def check_window_def Let_def not_less
      split: option.splits expiration_verdict.splits if_splits)

subsection \<open>The revocation index\<close>

datatype target_kind = TkCapability | TkActor | TkDelegation | TkInstance

record revocation =
  rv_id :: string
  rv_target_id :: string
  rv_target_kind :: target_kind
  rv_effective_at :: string
  rv_reason :: "string option"
  rv_reinstatement_possible :: "bool option"
  rv_issuer :: string
  rv_signature :: signature_envelope

type_synonym revocation_index = "target_kind \<Rightarrow> (string \<Rightarrow> revocation option) option"

definition index_insert :: "revocation \<Rightarrow> revocation_index \<Rightarrow> revocation_index" where
  "index_insert r by_kind =
     (let bucket = unwrap_or (by_kind (rv_target_kind r)) Map.empty;
          bucket' =
            (case bucket (rv_target_id r) of
               Some existing \<Rightarrow>
                 if rv_effective_at existing \<le> rv_effective_at r then bucket
                 else bucket(rv_target_id r \<mapsto> r)
             | None \<Rightarrow> bucket(rv_target_id r \<mapsto> r))
      in by_kind(rv_target_kind r \<mapsto> bucket'))"

definition from_slice :: "revocation list \<Rightarrow> revocation_index" where
  "from_slice revocations = fold index_insert revocations Map.empty"

definition is_revoked :: "revocation_index \<Rightarrow> string \<Rightarrow> target_kind \<Rightarrow> string \<Rightarrow> bool" where
  "is_revoked by_kind tid kind at =
     (case by_kind kind of
        None \<Rightarrow> False
      | Some bucket \<Rightarrow>
          (case bucket tid of None \<Rightarrow> False | Some r \<Rightarrow> rv_effective_at r \<le> at))"

lemma is_revoked_insert:
  "is_revoked (index_insert r ix) tid kind at \<longleftrightarrow>
     is_revoked ix tid kind at \<or>
     (rv_target_kind r = kind \<and> rv_target_id r = tid \<and> rv_effective_at r \<le> at)"
  by (auto simp: is_revoked_def index_insert_def Let_def split: option.splits if_splits)

lemma is_revoked_fold:
  "is_revoked (fold index_insert rs ix) tid kind at \<longleftrightarrow>
     is_revoked ix tid kind at \<or>
     (\<exists>r \<in> set rs. rv_target_kind r = kind \<and> rv_target_id r = tid \<and> rv_effective_at r \<le> at)"
  by (induction rs arbitrary: ix) (auto simp: is_revoked_insert)

lemma is_revoked_empty [simp]: "\<not> is_revoked Map.empty tid kind at"
  by (simp add: is_revoked_def)

text \<open>The index answers exactly what a scan of the whole revocation list would: a target is
  revoked at a time iff the list has a revocation of that kind and id that is effective by then,
  although only one revocation per target is stored.\<close>

lemma revocation_index_complete:
  "is_revoked (from_slice rs) tid kind at \<longleftrightarrow>
     (\<exists>r \<in> set rs. rv_target_kind r = kind \<and> rv_target_id r = tid \<and> rv_effective_at r \<le> at)"
  by (simp add: from_slice_def is_revoked_fold)

text \<open>Once revoked, always revoked: later times and longer lists keep the verdict.\<close>

lemma is_revoked_mono:
  "is_revoked (from_slice rs) tid kind at \<Longrightarrow> at \<le> at' \<Longrightarrow> set rs \<subseteq> set rs' \<Longrightarrow>
   is_revoked (from_slice rs') tid kind at'"
  by (auto simp: from_slice_def is_revoked_fold)

end
