(* ===== verification/Capability.thy ===== *)
theory Capability
  imports Glob Validity
begin

text \<open>
  \<open>capability.rs\<close> (evaluation and intersection of capability constraints) and \<open>delegation.rs\<close>
  (the delegation chain walker). The types are those of \<open>generated/common.rs\<close>. An \<open>i64\<close> is an
  \<open>int\<close>: the code only compares the values, takes minima and maxima, and decrements a counter that
  it has just checked to be positive.
\<close>

subsection \<open>Constraints\<close>

datatype approval_requirement = ApNone | ApConditional | ApRequired | ApQuorum

datatype cap_constraint =
    TimeWindow "string option" string
  | Target "string list"
  | Quantity int "string option"
  | Rate int int
  | Session string
  | Approval approval_requirement
  | Quorum int "string list"
  | DeviceBinding string

record eval_context =
  ec_now :: string
  ec_session_id :: "string option"
  ec_target :: "string option"
  ec_approver_count :: "32 word option"
  ec_device_actor :: "string option"

fun satisfies :: "cap_constraint \<Rightarrow> eval_context \<Rightarrow> bool" where
  "satisfies (TimeWindow from_ts until) ctx =
     (case from_ts of
        Some f \<Rightarrow> if ec_now ctx < f then False else ec_now ctx \<le> until
      | None \<Rightarrow> ec_now ctx \<le> until)"
| "satisfies (Target patterns) ctx =
     (case ec_target ctx of
        Some t \<Rightarrow> list_ex (\<lambda>p. glob_match p t) patterns
      | None \<Rightarrow> False)"
| "satisfies (Quantity m u) ctx = True"
| "satisfies (Rate m w) ctx = True"
| "satisfies (Session sid) ctx = (ec_session_id ctx = Some sid)"
| "satisfies (Approval a) ctx = (a = ApNone \<or> a = ApConditional)"
| "satisfies (Quorum q actors) ctx = (q \<le> uint (unwrap_or (ec_approver_count ctx) 0))"
| "satisfies (DeviceBinding d) ctx = (ec_device_actor ctx = Some d)"

definition constraints_satisfied :: "cap_constraint list \<Rightarrow> eval_context \<Rightarrow> bool" where
  "constraints_satisfied cs ctx = list_all (\<lambda>c. satisfies c ctx) cs"

definition same_kind :: "cap_constraint \<Rightarrow> cap_constraint \<Rightarrow> bool" where
  "same_kind a b =
     (case (a, b) of
        (TimeWindow _ _, TimeWindow _ _) \<Rightarrow> True
      | (Target _, Target _) \<Rightarrow> True
      | (Quantity _ _, Quantity _ _) \<Rightarrow> True
      | (Rate _ _, Rate _ _) \<Rightarrow> True
      | (Session _, Session _) \<Rightarrow> True
      | (Approval _, Approval _) \<Rightarrow> True
      | (Quorum _ _, Quorum _ _) \<Rightarrow> True
      | (DeviceBinding _, DeviceBinding _) \<Rightarrow> True
      | _ \<Rightarrow> False)"

definition pick_later :: "string option \<Rightarrow> string option \<Rightarrow> string option" where
  "pick_later a b =
     (case (a, b) of
        (Some x, Some y) \<Rightarrow> Some (if x > y then x else y)
      | (Some x, None) \<Rightarrow> Some x
      | (None, Some y) \<Rightarrow> Some y
      | (None, None) \<Rightarrow> None)"

definition pick_earlier :: "string \<Rightarrow> string \<Rightarrow> string" where
  "pick_earlier a b = (if a < b then a else b)"

definition intersect_same :: "cap_constraint \<Rightarrow> cap_constraint \<Rightarrow> cap_constraint" where
  "intersect_same a b =
     (case (a, b) of
        (TimeWindow af au, TimeWindow bf bu) \<Rightarrow> TimeWindow (pick_later af bf) (pick_earlier au bu)
      | (Target ap, Target bp) \<Rightarrow>
          (let shared = filter (\<lambda>p. p \<in> set bp) ap
           in if shared = [] then Target (ap @ bp) else Target shared)
      | (Quantity am au, Quantity bm bu) \<Rightarrow> Quantity (min am bm) (opt_or au bu)
      | (Rate am aw, Rate bm bw) \<Rightarrow> Rate (min am bm) (min aw bw)
      | (Quorum aq ao, Quorum bq bo) \<Rightarrow> Quorum (max aq bq) ao
      | _ \<Rightarrow> a)"

text \<open>One round of the loop of \<open>intersect_constraints\<close>: the first constraint of the same kind is
  replaced by the intersection, or the new one is pushed.\<close>

fun intersect_one :: "cap_constraint list \<Rightarrow> cap_constraint \<Rightarrow> cap_constraint list" where
  "intersect_one [] nc = [nc]"
| "intersect_one (c # out) nc =
     (if same_kind c nc then intersect_same c nc # out else c # intersect_one out nc)"

definition intersect_constraints :: "cap_constraint list \<Rightarrow> cap_constraint list \<Rightarrow> cap_constraint list" where
  "intersect_constraints a b = foldl intersect_one a b"

subsection \<open>Delegation chains\<close>

datatype risk_class = R0 | R1 | R2 | R3 | R4 | R5

datatype proof_level = L0 | L1 | L2 | L3 | L4 | L5

fun proof_level_str :: "proof_level \<Rightarrow> string" where
  "proof_level_str L0 = ''L0''"
| "proof_level_str L1 = ''L1''"
| "proof_level_str L2 = ''L2''"
| "proof_level_str L3 = ''L3''"
| "proof_level_str L4 = ''L4''"
| "proof_level_str L5 = ''L5''"

record capability =
  cap_name :: string
  cap_risk :: risk_class
  cap_proof_required :: "proof_level option"
  cap_approval :: "approval_requirement option"
  cap_constraints :: "cap_constraint list option"
  cap_single_use :: "bool option"
  cap_delegable :: "bool option"
  cap_revocable :: "bool option"
  cap_offline_valid :: "bool option"
  cap_expires_at :: "string option"

record redelegation =
  rd_allowed :: bool
  rd_max_depth :: "int option"

record delegation_link =
  dl_delegator :: string
  dl_delegate :: string
  dl_capabilities :: "capability list"
  dl_constraints :: "cap_constraint list option"
  dl_expires_at :: "string option"
  dl_redelegation :: "redelegation option"
  dl_proof_ref :: "string option"

record walk_result =
  wr_valid :: bool
  wr_effective :: "cap_constraint list"
  wr_expired_at :: "string option"
  wr_broken_step :: "nat option"
  wr_reason :: "string option"

definition I64_MAX :: int where
  "I64_MAX = 2 ^ 63 - 1"

definition broken :: "cap_constraint list \<Rightarrow> nat \<Rightarrow> string \<Rightarrow> walk_result" where
  "broken effective i reason = \<lparr>wr_valid = False, wr_effective = effective, wr_expired_at = None,
     wr_broken_step = Some i, wr_reason = Some reason\<rparr>"

definition link_expired :: "delegation_link \<Rightarrow> string \<Rightarrow> string option" where
  "link_expired step now =
     (case dl_expires_at step of
        Some expires_at \<Rightarrow> if expires_at < now then Some expires_at else None
      | None \<Rightarrow> None)"

definition link_effective :: "cap_constraint list \<Rightarrow> delegation_link \<Rightarrow> cap_constraint list" where
  "link_effective effective step =
     (case dl_constraints step of
        Some cs \<Rightarrow> if cs \<noteq> [] then intersect_constraints effective cs else effective
      | None \<Rightarrow> effective)"

definition link_allow :: "delegation_link \<Rightarrow> bool" where
  "link_allow step = (case dl_redelegation step of Some r \<Rightarrow> rd_allowed r | None \<Rightarrow> True)"

definition link_depth :: "delegation_link \<Rightarrow> int \<Rightarrow> int" where
  "link_depth step remaining =
     (case dl_redelegation step of
        Some r \<Rightarrow> (case rd_max_depth r of Some d \<Rightarrow> min remaining d | None \<Rightarrow> remaining)
      | None \<Rightarrow> remaining)"

text \<open>The loop of \<open>walk_chain\<close>; its state is the index, the effective constraints and the two
  redelegation variables.\<close>

fun walk_loop ::
    "delegation_link list \<Rightarrow> string \<Rightarrow> nat \<Rightarrow> cap_constraint list \<Rightarrow> bool \<Rightarrow> int \<Rightarrow> walk_result" where
  "walk_loop [] now i effective allow_redelegation max_depth_remaining =
     \<lparr>wr_valid = True, wr_effective = effective, wr_expired_at = None, wr_broken_step = None,
      wr_reason = None\<rparr>"
| "walk_loop (step # rest) now i effective allow_redelegation max_depth_remaining =
     (if i > 0 \<and> \<not> allow_redelegation then
        broken effective i (''step '' @ show_nat (i - 1) @ '' disallows redelegation'')
      else if i > 0 \<and> max_depth_remaining \<le> 0 then
        broken effective i (''max_depth exceeded at step '' @ show_nat i)
      else
        let remaining = (if i > 0 then max_depth_remaining - 1 else max_depth_remaining) in
        case link_expired step now of
          Some expires_at \<Rightarrow>
            (broken effective i (''step '' @ show_nat i @ '' expired at '' @ expires_at))
              \<lparr>wr_expired_at := Some expires_at\<rparr>
        | None \<Rightarrow>
            walk_loop rest now (i + 1) (link_effective effective step) (link_allow step)
              (link_depth step remaining))"

definition walk_chain :: "delegation_link list \<Rightarrow> string \<Rightarrow> walk_result" where
  "walk_chain chain now = walk_loop chain now 0 [] True I64_MAX"

subsection \<open>What a constraint demands\<close>

text \<open>\<open>satisfies\<close> leaves quantities and rates to external counters and reads the number of approvers from the
  context. \<open>usage\<close> is what those counters hold: the amount spent per unit, the times of the uses, and the actors
  that approved. \<open>within\<close> is what the counted kinds demand of it: no more than \<open>max\<close> spent, at most
  \<open>max_per_window\<close> uses in any window (it is enough to look at the windows that begin with a use), and a quorum
  of the named actors.\<close>

record usage =
  us_spent :: "string option \<Rightarrow> int"
  us_times :: "int list"
  us_approvers :: "string list"

fun within :: "cap_constraint \<Rightarrow> usage \<Rightarrow> bool" where
  "within (Quantity m u) us = (us_spent us u \<le> m)"
| "within (Rate m w) us =
     list_all (\<lambda>t. int (length (filter (\<lambda>s. t \<le> s \<and> s < t + w) (us_times us))) \<le> m) (us_times us)"
| "within (Quorum q actors) us = (q \<le> int (card (set (us_approvers us) \<inter> set actors)))"
| "within c us = True"

definition enforced :: "eval_context \<Rightarrow> usage \<Rightarrow> cap_constraint \<Rightarrow> bool" where
  "enforced ctx us c = (satisfies c ctx \<and> within c us)"

text \<open>Two constraints that \<open>intersect_same\<close> can combine: it keeps one unit, one list of actors, one session,
  one approval requirement and one device, and takes the smaller of two windows.\<close>

fun agree :: "cap_constraint \<Rightarrow> cap_constraint \<Rightarrow> bool" where
  "agree (Quantity m u) (Quantity m' u') = (u = u')"
| "agree (Rate m w) (Rate m' w') = (w = w')"
| "agree (Quorum q ac) (Quorum q' ac') = (ac = ac')"
| "agree (Session s) (Session s') = (s = s')"
| "agree (Approval a) (Approval a') = (a = a')"
| "agree (DeviceBinding d) (DeviceBinding d') = (d = d')"
| "agree c d = True"

fun is_target :: "cap_constraint \<Rightarrow> bool" where
  "is_target (Target ps) = True"
| "is_target c = False"

fun has_pattern :: "string \<Rightarrow> cap_constraint \<Rightarrow> bool" where
  "has_pattern p (Target ps) = (p \<in> set ps)"
| "has_pattern p c = True"

definition coherent :: "cap_constraint list \<Rightarrow> bool" where
  "coherent cs = ((\<forall>c \<in> set cs. \<forall>d \<in> set cs. agree c d) \<and> (\<exists>p. \<forall>c \<in> set cs. has_pattern p c))"

subsection \<open>Intersection\<close>

lemma pick_later_le:
  "(\<forall>z. pick_later a b = Some z \<longrightarrow> z \<le> x) \<longleftrightarrow>
     (\<forall>z. a = Some z \<longrightarrow> z \<le> x) \<and> (\<forall>z. b = Some z \<longrightarrow> z \<le> x)"
  by (auto simp: pick_later_def split: option.splits)

lemma pick_earlier_le: "x \<le> pick_earlier a b \<longleftrightarrow> x \<le> a \<and> x \<le> b"
  by (auto simp: pick_earlier_def)

lemma satisfies_TimeWindow:
  "satisfies (TimeWindow f u) ctx \<longleftrightarrow> (\<forall>z. f = Some z \<longrightarrow> z \<le> ec_now ctx) \<and> ec_now ctx \<le> u"
  by (auto split: option.splits)

lemma opt_or_same [simp]: "opt_or u u = u"
  by (cases u) simp_all

lemma intersect_same_exact:
  assumes "same_kind c d" "agree c d" "\<not> is_target c"
  shows "enforced ctx us (intersect_same c d) \<longleftrightarrow> enforced ctx us c \<and> enforced ctx us d"
  using assms
  by (cases c; cases d) (auto simp: same_kind_def intersect_same_def enforced_def satisfies_TimeWindow
      pick_later_le pick_earlier_le list_all_iff simp del: satisfies.simps(1))

lemma intersect_same_targets:
  assumes "has_pattern p (Target ap)" "has_pattern p (Target bp)"
  shows "intersect_same (Target ap) (Target bp) = Target (filter (\<lambda>q. q \<in> set bp) ap)"
  using assms by (auto simp: intersect_same_def Let_def filter_empty_conv)

lemma intersect_same_tight:
  assumes "same_kind c d" "agree c d" "has_pattern p c" "has_pattern p d"
    and "enforced ctx us (intersect_same c d)"
  shows "enforced ctx us c \<and> enforced ctx us d"
proof (cases "is_target c")
  case True
  then obtain ap bp where "c = Target ap" "d = Target bp"
    using assms(1) by (cases c; cases d) (auto simp: same_kind_def)
  with assms show ?thesis
    by (auto simp: enforced_def intersect_same_targets list_ex_iff split: option.splits)
next
  case False
  with assms show ?thesis using intersect_same_exact by blast
qed

lemma agree_kinds:
  "agree (TimeWindow f u) e" "agree (Target ps) e"
  "agree (Quantity m v) e = agree (Quantity m' v) e" "agree (Rate n w) e = agree (Rate n' w) e"
  "agree (Quorum q ac) e = agree (Quorum q' ac) e"
  by (cases e; simp)+

lemma intersect_same_keeps:
  assumes "same_kind c d" "agree c d" "has_pattern p c" "has_pattern p d"
  shows "agree (intersect_same c d) e \<longleftrightarrow> agree c e" "has_pattern p (intersect_same c d)"
    "is_target (intersect_same c d) \<longleftrightarrow> is_target c"
proof -
  show "agree (intersect_same c d) e \<longleftrightarrow> agree c e"
    using assms by (cases c; cases d) (simp_all add: same_kind_def intersect_same_def Let_def agree_kinds(1,2), (rule agree_kinds)+)
  show "has_pattern p (intersect_same c d)" "is_target (intersect_same c d) \<longleftrightarrow> is_target c"
    using assms by (cases c; cases d; auto simp: same_kind_def intersect_same_def Let_def)+
qed

text \<open>The constraints collected so far fit the set \<open>S\<close> of all constraints of the chain.\<close>

definition fits :: "string \<Rightarrow> cap_constraint set \<Rightarrow> cap_constraint list \<Rightarrow> bool" where
  "fits p S cs = (\<forall>c \<in> set cs. has_pattern p c \<and> (\<forall>d \<in> S. agree c d))"

lemma fits_simps [simp]:
  "fits p S []" "fits p S (c # cs) \<longleftrightarrow> has_pattern p c \<and> (\<forall>d \<in> S. agree c d) \<and> fits p S cs"
  by (auto simp: fits_def)

lemma intersect_one_fits: "fits p S cs \<Longrightarrow> nc \<in> S \<Longrightarrow> fits p S [nc] \<Longrightarrow> fits p S (intersect_one cs nc)"
  by (induction cs nc rule: intersect_one.induct) (auto simp: intersect_same_keeps)

lemma intersect_one_tight:
  "fits p S cs \<Longrightarrow> nc \<in> S \<Longrightarrow> fits p S [nc] \<Longrightarrow> list_all (enforced ctx us) (intersect_one cs nc) \<Longrightarrow>
     list_all (enforced ctx us) cs \<and> enforced ctx us nc"
  by (induction cs nc rule: intersect_one.induct) (auto dest: intersect_same_tight split: if_splits)

lemma intersect_one_exact:
  "fits p S cs \<Longrightarrow> nc \<in> S \<Longrightarrow> fits p S [nc] \<Longrightarrow>
     list_all (\<lambda>c. is_target c \<or> enforced ctx us c) cs \<Longrightarrow> is_target nc \<or> enforced ctx us nc \<Longrightarrow>
     list_all (\<lambda>c. is_target c \<or> enforced ctx us c) (intersect_one cs nc)"
proof (induction cs nc rule: intersect_one.induct)
  case (2 c out nc)
  have "is_target nc \<longleftrightarrow> is_target c" if "same_kind c nc"
    using that by (cases c; cases nc) (simp_all add: same_kind_def)
  with 2 show ?case by (auto simp: intersect_same_keeps intersect_same_exact)
qed simp

lemma intersect_constraints_Nil [simp]: "intersect_constraints a [] = a"
  by (simp add: intersect_constraints_def)

lemma intersect_constraints_Cons [simp]:
  "intersect_constraints a (c # b) = intersect_constraints (intersect_one a c) b"
  by (simp add: intersect_constraints_def)

lemma intersect_constraints_append:
  "intersect_constraints a (b @ c) = intersect_constraints (intersect_constraints a b) c"
  by (simp add: intersect_constraints_def)

lemma intersect_constraints_tight:
  "fits p S a \<Longrightarrow> set b \<subseteq> S \<Longrightarrow> fits p S b \<Longrightarrow> list_all (enforced ctx us) (intersect_constraints a b) \<Longrightarrow>
     list_all (enforced ctx us) a \<and> list_all (enforced ctx us) b"
proof (induction b arbitrary: a)
  case (Cons c b)
  then have "fits p S (intersect_one a c)" by (simp add: intersect_one_fits)
  with Cons have "list_all (enforced ctx us) (intersect_one a c) \<and> list_all (enforced ctx us) b" by simp
  with Cons.prems intersect_one_tight[of p S a c ctx us] show ?case by simp
qed simp

lemma intersect_constraints_exact:
  "fits p S a \<Longrightarrow> set b \<subseteq> S \<Longrightarrow> fits p S b \<Longrightarrow> list_all (\<lambda>c. is_target c \<or> enforced ctx us c) a \<Longrightarrow>
     list_all (enforced ctx us) b \<Longrightarrow> list_all (\<lambda>c. is_target c \<or> enforced ctx us c) (intersect_constraints a b)"
proof (induction b arbitrary: a)
  case (Cons c b)
  then have "fits p S (intersect_one a c)" by (simp add: intersect_one_fits)
  moreover have "list_all (\<lambda>c. is_target c \<or> enforced ctx us c) (intersect_one a c)"
    using Cons.prems by (intro intersect_one_exact) auto
  ultimately show ?case using Cons by simp
qed simp

subsection \<open>Delegation\<close>

definition link_max_depth :: "delegation_link \<Rightarrow> int option" where
  "link_max_depth step = Option.bind (dl_redelegation step) rd_max_depth"

text \<open>What a link demands of the links after it.\<close>

fun chain_ok :: "string \<Rightarrow> delegation_link list \<Rightarrow> bool" where
  "chain_ok now [] = True"
| "chain_ok now (l # ls) =
     (link_expired l now = None \<and> (ls \<noteq> [] \<longrightarrow> link_allow l) \<and>
      (\<forall>d. link_max_depth l = Some d \<longrightarrow> ls \<noteq> [] \<longrightarrow> int (length ls) \<le> d) \<and> chain_ok now ls)"

lemma le_link_depth:
  "x \<le> link_depth l r \<longleftrightarrow> x \<le> r \<and> (\<forall>d. link_max_depth l = Some d \<longrightarrow> x \<le> d)"
  by (auto simp: link_depth_def link_max_depth_def split: option.splits)

lemma broken_invalid [simp]: "\<not> wr_valid (broken e i r)"
  by (simp add: broken_def)

lemma walk_loop_valid:
  "wr_valid (walk_loop ch now i eff allow rem) \<longleftrightarrow>
     (i > 0 \<and> ch \<noteq> [] \<longrightarrow> allow \<and> int (length ch) \<le> rem) \<and>
     (i = 0 \<and> length ch > 1 \<longrightarrow> int (length ch) \<le> rem + 1) \<and> chain_ok now ch"
proof (induction ch arbitrary: i eff allow rem)
  case Nil
  then show ?case by simp
next
  case (Cons l ls)
  show ?case
    unfolding walk_loop.simps chain_ok.simps
    by (auto simp: Let_def Cons.IH le_link_depth Suc_le_eq split: option.splits)
qed

lemma chain_ok_nth:
  "chain_ok now ch \<longleftrightarrow>
     (\<forall>i < length ch. link_expired (ch ! i) now = None \<and>
       (i + 1 < length ch \<longrightarrow> link_allow (ch ! i) \<and>
          (\<forall>d. link_max_depth (ch ! i) = Some d \<longrightarrow> int (length ch - 1 - i) \<le> d)))"
proof (induction ch)
  case Nil
  then show ?case by simp
next
  case (Cons l ls)
  show ?case
    unfolding chain_ok.simps Cons.IH by (auto simp: All_less_Suc2)
qed

text \<open>C23. When a delegation chain is accepted: no link is expired at \<open>now\<close>, every link that has a
  successor allows redelegation, and a link with \<open>max_depth = d\<close> is followed by at most \<open>d\<close>
  further links. (The counter starts at \<open>i64::MAX\<close>, so the chain has fewer than \<open>2^63\<close> links.)\<close>

theorem walk_chain_valid_iff:
  assumes "int (length chain) \<le> I64_MAX"
  shows "wr_valid (walk_chain chain now) \<longleftrightarrow>
    (\<forall>i < length chain. link_expired (chain ! i) now = None \<and>
      (i + 1 < length chain \<longrightarrow> link_allow (chain ! i) \<and>
         (\<forall>d. link_max_depth (chain ! i) = Some d \<longrightarrow> int (length chain - 1 - i) \<le> d)))"
  using assms unfolding walk_chain_def walk_loop_valid chain_ok_nth by auto

abbreviation plain_link :: "cap_constraint list \<Rightarrow> redelegation option \<Rightarrow> delegation_link" where
  "plain_link cs rd \<equiv> \<lparr>dl_delegator = ''tf:actor:human:a'', dl_delegate = ''tf:actor:agent:b'',
     dl_capabilities = [], dl_constraints = Some cs, dl_expires_at = None, dl_redelegation = rd,
     dl_proof_ref = None\<rparr>"

theorem walk_chain_valid_iff_witness:
  "wr_valid (walk_chain [plain_link [] (Some \<lparr>rd_allowed = True, rd_max_depth = Some 1\<rparr>),
      plain_link [] None] ''2026'')"
proof -
  let ?c = "[plain_link [] (Some \<lparr>rd_allowed = True, rd_max_depth = Some 1\<rparr>), plain_link [] None]"
  have "int (length ?c) \<le> I64_MAX" by (simp add: I64_MAX_def)
  from walk_chain_valid_iff [OF this] show ?thesis
    by (simp add: All_less_Suc2 link_expired_def link_allow_def link_max_depth_def)
qed

text \<open>All constraints of a chain, in the order in which the walker meets them.\<close>

definition chain_constraints :: "delegation_link list \<Rightarrow> cap_constraint list" where
  "chain_constraints ch = concat (map (\<lambda>l. unwrap_or (dl_constraints l) []) ch)"

lemma walk_loop_effective:
  "wr_valid (walk_loop ch now i eff allow rem) \<Longrightarrow>
     wr_effective (walk_loop ch now i eff allow rem) = intersect_constraints eff (chain_constraints ch)"
proof (induction ch arbitrary: i eff allow rem)
  case Nil
  then show ?case by (simp add: chain_constraints_def)
next
  case (Cons l ls)
  have "link_effective eff l = intersect_constraints eff (unwrap_or (dl_constraints l) [])"
    by (simp add: link_effective_def split: option.splits)
  with Cons show ?case
    by (auto simp: Let_def chain_constraints_def intersect_constraints_append split: if_splits option.splits)
qed

lemma walk_chain_effective:
  "wr_valid (walk_chain ch now) \<Longrightarrow>
     wr_effective (walk_chain ch now) = intersect_constraints [] (chain_constraints ch)"
  by (simp add: walk_chain_def walk_loop_effective)

lemma list_all_chain_constraints:
  "list_all P (chain_constraints ch) \<longleftrightarrow> (\<forall>l \<in> set ch. \<forall>cs. dl_constraints l = Some cs \<longrightarrow> list_all P cs)"
proof (induction ch)
  case (Cons l ch)
  then show ?case by (cases "dl_constraints l") (simp_all add: chain_constraints_def)
qed (simp add: chain_constraints_def)

text \<open>C2. Attenuation along an accepted chain. When the constraints of the chain can be combined (same unit,
  window, actors, session, approval and device in constraints of one kind, and a target pattern that all target
  lists share), whatever the effective constraints admit, every link admits: in every context and for every
  usage of the counted kinds, no link gains what another link withheld. The effective constraints are not
  tighter than needed either: what all links admit, every effective constraint admits, target lists apart (they
  keep only the shared patterns).\<close>

theorem walk_chain_attenuates:
  assumes "coherent (chain_constraints chain)" "wr_valid (walk_chain chain now)"
  shows "(list_all (enforced ctx us) (wr_effective (walk_chain chain now)) \<longrightarrow>
      (\<forall>l \<in> set chain. \<forall>cs. dl_constraints l = Some cs \<longrightarrow> list_all (enforced ctx us) cs)) \<and>
    ((\<forall>l \<in> set chain. \<forall>cs. dl_constraints l = Some cs \<longrightarrow> list_all (enforced ctx us) cs) \<longrightarrow>
      list_all (\<lambda>c. is_target c \<or> enforced ctx us c) (wr_effective (walk_chain chain now)))"
proof -
  let ?cs = "chain_constraints chain"
  from assms(1) obtain p where "fits p (set ?cs) ?cs" by (auto simp: coherent_def fits_def)
  then show ?thesis
    unfolding walk_chain_effective[OF assms(2)] list_all_chain_constraints[symmetric]
    using intersect_constraints_tight[of p "set ?cs" "[]" ?cs ctx us]
      intersect_constraints_exact[of p "set ?cs" "[]" ?cs ctx us] by simp
qed

text \<open>A quantity of 5 spent under a delegation of 10, redelegated with 3, is not within the chain.\<close>

theorem walk_chain_attenuates_witness:
  "\<not> list_all (enforced \<lparr>ec_now = ''2026'', ec_session_id = None, ec_target = None, ec_approver_count = None,
        ec_device_actor = None\<rparr> \<lparr>us_spent = (\<lambda>_. 5), us_times = [], us_approvers = []\<rparr>)
     (wr_effective (walk_chain [plain_link [Quantity 10 None] None, plain_link [Quantity 3 None] None] ''2026''))"
proof
  let ?c = "[plain_link [Quantity 10 None] None, plain_link [Quantity 3 None] None]"
  let ?ctx = "\<lparr>ec_now = ''2026'', ec_session_id = None, ec_target = None, ec_approver_count = None,
        ec_device_actor = None\<rparr>" and ?us = "\<lparr>us_spent = (\<lambda>_. 5), us_times = [], us_approvers = []\<rparr>"
  assume eff: "list_all (enforced ?ctx ?us) (wr_effective (walk_chain ?c ''2026''))"
  have "coherent (chain_constraints ?c)" by (simp add: coherent_def chain_constraints_def)
  moreover have "wr_valid (walk_chain ?c ''2026'')"
    by (simp add: walk_chain_def link_expired_def link_allow_def link_depth_def I64_MAX_def)
  ultimately have "\<forall>l \<in> set ?c. \<forall>cs. dl_constraints l = Some cs \<longrightarrow> list_all (enforced ?ctx ?us) cs"
    using walk_chain_attenuates eff by blast
  then show False by (simp add: enforced_def)
qed

subsection \<open>Where attenuation fails\<close>

text \<open>C31. Target lists without a common pattern are united: in every accepted chain of two links whose only
  constraints are two such lists, the effective constraint admits exactly the contexts that one of the two links
  admits, so the second link reaches every target of its own list, also those the first link withholds.\<close>

theorem delegation_target_widening:
  assumes "dl_constraints l1 = Some [Target ap]" "dl_constraints l2 = Some [Target bp]"
    and "set ap \<inter> set bp = {}" "wr_valid (walk_chain [l1, l2] now)"
  shows "constraints_satisfied (wr_effective (walk_chain [l1, l2] now)) ctx \<longleftrightarrow>
    constraints_satisfied [Target ap] ctx \<or> constraints_satisfied [Target bp] ctx"
proof -
  have "filter (\<lambda>p. p \<in> set bp) ap = []" using assms(3) by (auto simp: filter_empty_conv)
  then have "wr_effective (walk_chain [l1, l2] now) = [Target (ap @ bp)]"
    unfolding walk_chain_effective[OF assms(4)]
    by (simp add: chain_constraints_def assms(1,2) same_kind_def intersect_same_def)
  then show ?thesis by (simp add: constraints_satisfied_def split: option.splits)
qed

theorem delegation_target_widening_witness:
  "constraints_satisfied (wr_effective (walk_chain [plain_link [Target [''repo/a'']] None,
      plain_link [Target [''repo/b'']] None] ''2026''))
     \<lparr>ec_now = ''2026'', ec_session_id = None, ec_target = Some ''repo/b'', ec_approver_count = None,
      ec_device_actor = None\<rparr> \<and>
   \<not> constraints_satisfied [Target [''repo/a'']]
     \<lparr>ec_now = ''2026'', ec_session_id = None, ec_target = Some ''repo/b'', ec_approver_count = None,
      ec_device_actor = None\<rparr>"
proof -
  have g: "\<not> glob_match ''repo/a'' ''repo/b''" "glob_match ''repo/b'' ''repo/b''" by code_simp+
  have v: "wr_valid (walk_chain [plain_link [Target [''repo/a'']] None, plain_link [Target [''repo/b'']] None] ''2026'')"
    by (simp add: walk_chain_def link_expired_def link_allow_def link_depth_def I64_MAX_def)
  show ?thesis
    using delegation_target_widening[where ap = "[''repo/a'']" and bp = "[''repo/b'']", OF _ _ _ v]
    by (simp add: constraints_satisfied_def g)
qed

text \<open>Rates with different windows are combined into a wider one as well: of 100 uses per minute and 50 uses per
  two minutes the walker makes 50 per minute, which admits 50 uses in each of two consecutive minutes.\<close>

lemma delegation_rate_widening:
  "intersect_constraints [Rate 100 60] [Rate 50 120] = [Rate 50 60]"
  "within (Rate 50 60) (us\<lparr>us_times := replicate 50 0 @ replicate 50 60\<rparr>)"
  "\<not> within (Rate 50 120) (us\<lparr>us_times := replicate 50 0 @ replicate 50 60\<rparr>)"
  by (simp_all add: same_kind_def intersect_same_def list_all_iff)

end
