(* ===== verification/Json.thy ===== *)
theory Json
  imports Prelude
begin

text \<open>
  The part of \<open>serde_json::Value\<close> that the sources use. An object is the list of its entries in
  iteration order; keys are distinct in a value the library builds (\<open>json_wf\<close>). A number is one of
  the three representations of \<open>serde_json::Number\<close>: a non-negative integer (\<open>u64\<close>), a negative
  integer (\<open>i64\<close>), or a float, kept as the bits of the \<open>f64\<close>.
\<close>

datatype json_number = PosInt "64 word" | NegInt "64 word" | Float "64 word"

datatype json =
    JNull
  | JBool bool
  | JNumber json_number
  | JString string
  | JArray "json list"
  | JObject "(string \<times> json) list"

fun json_get :: "json \<Rightarrow> string \<Rightarrow> json option" where
  "json_get (JObject entries) key = map_of entries key"
| "json_get v key = None"

fun as_array :: "json \<Rightarrow> json list option" where
  "as_array (JArray xs) = Some xs"
| "as_array v = None"

fun as_str :: "json \<Rightarrow> string option" where
  "as_str (JString s) = Some s"
| "as_str v = None"

text \<open>\<open>arr.iter().filter_map(|t| t.as_str())\<close> on an optional array field.\<close>

definition get_str :: "json \<Rightarrow> string \<Rightarrow> string option" where
  "get_str v key = Option.bind (json_get v key) as_str"

definition get_strings :: "json \<Rightarrow> string \<Rightarrow> string list" where
  "get_strings v key =
     (case Option.bind (json_get v key) as_array of
        Some arr \<Rightarrow> List.map_filter as_str arr
      | None \<Rightarrow> [])"

definition get_array :: "json \<Rightarrow> string \<Rightarrow> json list" where
  "get_array v key = unwrap_or (Option.bind (json_get v key) as_array) []"

text \<open>The pieces of derived serialisers: an option as \<open>null\<close>, a list of strings, and a field that is
  skipped when absent.\<close>

definition opt_json :: "('a \<Rightarrow> json) \<Rightarrow> 'a option \<Rightarrow> json" where
  "opt_json f x = (case x of None \<Rightarrow> JNull | Some v \<Rightarrow> f v)"

definition strings_json :: "string list \<Rightarrow> json" where
  "strings_json xs = JArray (map JString xs)"

definition skip_none :: "string \<Rightarrow> ('a \<Rightarrow> json) \<Rightarrow> 'a option \<Rightarrow> (string \<times> json) list" where
  "skip_none key f x = (case x of None \<Rightarrow> [] | Some v \<Rightarrow> [(key, f v)])"

text \<open>\<open>map.remove("signature")\<close> on the serialised value.\<close>

fun without_key :: "string \<Rightarrow> json \<Rightarrow> json" where
  "without_key k (JObject es) = JObject (filter (\<lambda>e. fst e \<noteq> k) es)"
| "without_key k v = v"

text \<open>The entries of a serialised struct: the table of its fields, without those that are skipped.\<close>

definition present :: "(string \<times> json option) list \<Rightarrow> (string \<times> json) list" where
  "present table = List.map_filter (\<lambda>(k, v). map_option (Pair k) v) table"

lemma present_simps [simp]:
  "present [] = []"
  "present ((k, None) # t) = present t"
  "present ((k, Some v) # t) = (k, v) # present t"
  "present (s @ t) = present s @ present t"
  by (simp_all add: present_def List.map_filter_def)

lemma set_present: "set (present t) = {(k, v). (k, Some v) \<in> set t}"
  by (induction t) (auto simp: present_def List.map_filter_def image_iff split: option.splits)

lemma fst_present: "fst ` set (present t) \<subseteq> fst ` set t"
  by (force simp: set_present)

lemma distinct_present: "distinct (map fst t) \<Longrightarrow> distinct (map fst (present t))"
proof (induction t)
  case (Cons e t)
  obtain k v where "e = (k, v)" by (cases e)
  then show ?case using Cons fst_present[of t] by (cases v) auto
qed simp

lemma map_of_present: "distinct (map fst t) \<Longrightarrow> map_of (present t) k = Option.bind (map_of t k) (\<lambda>v. v)"
proof (induction t)
  case (Cons e t)
  obtain k' v where e: "e = (k', v)" by (cases e)
  have "map_of (present t) k' = None" if "k' \<notin> fst ` set t"
    using that fst_present[of t] by (auto simp: map_of_eq_None_iff)
  moreover have "map_of t k' = None" if "k' \<notin> fst ` set t"
    using that by (auto simp: map_of_eq_None_iff)
  ultimately show ?case using Cons e by (cases v) auto
qed simp

end
