(* ===== verification/Guard.thy ===== *)
theory Guard
  imports Glob Json
begin

text \<open>
  \<open>crates/tf-types/src/guard.rs\<close>: \<open>AgentGuard\<close>, the decision procedure over an agent contract.
  \<open>from_contract\<close> indexes the contract, \<open>check_raw\<close> runs the rules (negative capabilities,
  forbidden actions, undeclared actions, actor scope, target scope, escalation tags, approval), and
  \<open>check\<close> filters the outcome through the enforcement level and emits an event when a listener is
  installed. A \<open>HashMap\<close> is a partial function; the listener is the flag \<open>ag_listening\<close>, and the
  event it receives is part of the result.
\<close>

subsection \<open>Data\<close>

datatype guard_decision =
    Allow "string list"
  | ApprovalRequired string string "string list"
  | Escalate string "string list"
  | Deny string "string list"
  | LogOnly string "string list"

datatype enforcement_level = E0 | E1 | E2 | E3 | E4 | E5

definition el_parse :: "string \<Rightarrow> enforcement_level option" where
  "el_parse s =
     (if s = ''E0'' then Some E0 else if s = ''E1'' then Some E1 else if s = ''E2'' then Some E2
      else if s = ''E3'' then Some E3 else if s = ''E4'' then Some E4
      else if s = ''E5'' then Some E5 else None)"

fun el_as_str :: "enforcement_level \<Rightarrow> string" where
  "el_as_str E0 = ''E0''"
| "el_as_str E1 = ''E1''"
| "el_as_str E2 = ''E2''"
| "el_as_str E3 = ''E3''"
| "el_as_str E4 = ''E4''"
| "el_as_str E5 = ''E5''"

record negative_capability =
  nc_name :: string
  nc_target :: "string option"
  nc_reason :: "string option"
  nc_overrides :: "string list option"

fun gd_kind :: "guard_decision \<Rightarrow> string" where
  "gd_kind (Allow tags) = ''allow''"
| "gd_kind (ApprovalRequired a r tags) = ''approval-required''"
| "gd_kind (Escalate r tags) = ''escalate''"
| "gd_kind (Deny r tags) = ''deny''"
| "gd_kind (LogOnly r tags) = ''log-only''"

fun gd_danger_tags :: "guard_decision \<Rightarrow> string list" where
  "gd_danger_tags (Allow tags) = tags"
| "gd_danger_tags (ApprovalRequired a r tags) = tags"
| "gd_danger_tags (Escalate r tags) = tags"
| "gd_danger_tags (Deny r tags) = tags"
| "gd_danger_tags (LogOnly r tags) = tags"

fun gd_reason :: "guard_decision \<Rightarrow> string option" where
  "gd_reason (Allow tags) = None"
| "gd_reason (ApprovalRequired a r tags) = Some r"
| "gd_reason (Escalate r tags) = Some r"
| "gd_reason (Deny r tags) = Some r"
| "gd_reason (LogOnly r tags) = Some r"

record guard_query =
  gq_actor :: "string option"
  gq_actor_claim :: "string option"
  gq_action :: string
  gq_target :: "string option"

record guard_event_stub =
  ge_kind :: string
  ge_actor :: string
  ge_action :: string
  ge_target :: "string option"
  ge_decision :: string
  ge_danger_tags :: "string list"
  ge_enforcement_level :: "string option"

record indexed_action =
  ia_name :: string
  ia_approval :: "string option"
  ia_danger_tags :: "string list"
  ia_allow_targets :: "string list"
  ia_deny_targets :: "string list"
  ia_allow_actors :: "string list"
  ia_deny_actors :: "string list"

definition ESCALATE_TAGS :: "string list" where
  "ESCALATE_TAGS =
     [''destructive'', ''irreversible'', ''financial'', ''security-sensitive'', ''legal-exposure'']"

record agent_guard =
  ag_action_by_name :: "string \<Rightarrow> indexed_action option"
  ag_forbidden_by_name :: "string \<Rightarrow> string option"
  ag_target_sets :: "string \<Rightarrow> string list option"
  ag_listening :: bool
  ag_enforcement_level :: enforcement_level
  ag_negative_capabilities :: "negative_capability list"

subsection \<open>Loading a contract\<close>

definition index_action :: "json \<Rightarrow> indexed_action" where
  "index_action a = \<lparr>
     ia_name = unwrap_or (get_str a ''name'') [],
     ia_approval = get_str a ''approval'',
     ia_danger_tags = get_strings a ''danger_tags'',
     ia_allow_targets = get_strings a ''allow_targets'',
     ia_deny_targets = get_strings a ''deny_targets'',
     ia_allow_actors = get_strings a ''allow_actors'',
     ia_deny_actors = get_strings a ''deny_actors''\<rparr>"

definition from_contract :: "json \<Rightarrow> agent_guard" where
  "from_contract contract =
     (let actions = fold (\<lambda>a m. let ia = index_action a in m(ia_name ia \<mapsto> ia))
            (get_array contract ''actions'') Map.empty;
          forbidden = fold (\<lambda>f m. m(unwrap_or (get_str f ''action'') [] \<mapsto>
              unwrap_or (get_str f ''reason'') []))
            (get_array contract ''forbidden'') Map.empty;
          target_sets =
            (case json_get contract ''target_sets'' of
               Some (JObject entries) \<Rightarrow>
                 fold (\<lambda>(k, v) m. case as_array v of
                     Some arr \<Rightarrow> m(k \<mapsto> List.map_filter as_str arr) | None \<Rightarrow> m)
                   entries Map.empty
             | _ \<Rightarrow> Map.empty)
      in \<lparr>ag_action_by_name = actions, ag_forbidden_by_name = forbidden,
          ag_target_sets = target_sets, ag_listening = False, ag_enforcement_level = E4,
          ag_negative_capabilities = []\<rparr>)"

definition set_negative_capabilities :: "negative_capability list \<Rightarrow> agent_guard \<Rightarrow> agent_guard" where
  "set_negative_capabilities caps g = g\<lparr>ag_negative_capabilities := caps\<rparr>"

definition set_enforcement_level :: "enforcement_level \<Rightarrow> agent_guard \<Rightarrow> agent_guard" where
  "set_enforcement_level level g = g\<lparr>ag_enforcement_level := level\<rparr>"

definition set_event_listener :: "agent_guard \<Rightarrow> agent_guard" where
  "set_event_listener g = g\<lparr>ag_listening := True\<rparr>"

subsection \<open>The rules\<close>

definition match_target :: "agent_guard \<Rightarrow> string \<Rightarrow> string \<Rightarrow> bool" where
  "match_target g pattern value =
     (case strip_prefix ''@'' pattern of
        Some rest \<Rightarrow>
          (case ag_target_sets g rest of
             None \<Rightarrow> False
           | Some patterns \<Rightarrow> list_ex (\<lambda>p. glob_match p value) patterns)
      | None \<Rightarrow> glob_match pattern value)"

definition negative_matches :: "negative_capability \<Rightarrow> guard_query \<Rightarrow> bool" where
  "negative_matches neg q =
     (if \<not> glob_match (nc_name neg) (gq_action q) then False
      else case nc_target neg of
        None \<Rightarrow> True
      | Some target_pattern \<Rightarrow>
          (case gq_target q of None \<Rightarrow> False | Some t \<Rightarrow> glob_match target_pattern t))"

text \<open>A pattern against the authenticated actor or its self-claimed URI.\<close>

definition actor_hit :: "guard_query \<Rightarrow> string \<Rightarrow> string \<Rightarrow> bool" where
  "actor_hit q actor pattern =
     (glob_match pattern actor \<or>
      (case gq_actor_claim q of Some c \<Rightarrow> glob_match pattern c | None \<Rightarrow> False))"

text \<open>The actor-scope block: \<open>None\<close> when it falls through.\<close>

definition actor_scope :: "indexed_action \<Rightarrow> guard_query \<Rightarrow> guard_decision option" where
  "actor_scope action q =
     (let tags = ia_danger_tags action in
      case gq_actor q of
        Some actor \<Rightarrow>
          (case find (actor_hit q actor) (ia_deny_actors action) of
             Some pattern \<Rightarrow>
               Some (Deny (''actor '' @ actor @ '' matches deny_actors ('' @ pattern @ '')'') tags)
           | None \<Rightarrow>
               if ia_allow_actors action \<noteq> [] \<and>
                  \<not> list_ex (actor_hit q actor) (ia_allow_actors action)
               then Some (Deny (''actor '' @ actor @ '' not in allow_actors'') tags)
               else None)
      | None \<Rightarrow>
          if ia_allow_actors action \<noteq> []
          then Some (Deny (''action '' @ ia_name action @ '' requires an authenticated actor'') tags)
          else None)"

definition target_scope ::
    "agent_guard \<Rightarrow> indexed_action \<Rightarrow> guard_query \<Rightarrow> guard_decision option" where
  "target_scope g action q =
     (let tags = ia_danger_tags action in
      case gq_target q of
        Some target \<Rightarrow>
          (case find (\<lambda>p. match_target g p target) (ia_deny_targets action) of
             Some pattern \<Rightarrow>
               Some (Deny (''target '' @ target @ '' is in deny_targets ('' @ pattern @ '')'') tags)
           | None \<Rightarrow>
               if ia_allow_targets action \<noteq> [] \<and>
                  \<not> list_ex (\<lambda>p. match_target g p target) (ia_allow_targets action)
               then Some (Deny (''target '' @ target @ '' is not in allow_targets'') tags)
               else None)
      | None \<Rightarrow> None)"

definition final_decision :: "indexed_action \<Rightarrow> guard_query \<Rightarrow> guard_decision" where
  "final_decision action q =
     (let tags = ia_danger_tags action;
          escalating = filter (\<lambda>t. t \<in> set ESCALATE_TAGS) tags
      in if list_ex (\<lambda>t. t \<in> set ESCALATE_TAGS) tags
         then Escalate (''danger_tags require escalation: '' @ str_join '', '' escalating) tags
         else if ia_approval action = Some ''required'' \<or> ia_approval action = Some ''quorum''
         then ApprovalRequired (unwrap_or (ia_approval action) [])
                (''action '' @ [CHR 0x22] @ gq_action q @ [CHR 0x22] @ '' requires approval'') tags
         else Allow tags)"

definition check_raw :: "agent_guard \<Rightarrow> guard_query \<Rightarrow> guard_decision" where
  "check_raw g q =
     (case find (\<lambda>neg. negative_matches neg q) (ag_negative_capabilities g) of
        Some neg \<Rightarrow>
          Deny (unwrap_or (nc_reason neg)
                 (''action '' @ gq_action q @ '' is denied by negative_capability''))
               [''explicit-denial'']
      | None \<Rightarrow>
     (case ag_forbidden_by_name g (gq_action q) of
        Some reason \<Rightarrow>
          Deny (if reason = [] then ''action listed in forbidden'' else reason) []
      | None \<Rightarrow>
     (case ag_action_by_name g (gq_action q) of
        None \<Rightarrow>
          Deny (''action '' @ [CHR 0x22] @ gq_action q @ [CHR 0x22] @ '' is not declared'') []
      | Some action \<Rightarrow>
     (case actor_scope action q of
        Some d \<Rightarrow> d
      | None \<Rightarrow>
     (case target_scope g action q of
        Some d \<Rightarrow> d
      | None \<Rightarrow> final_decision action q)))))"

subsection \<open>Enforcement levels\<close>

fun tag_decision :: "guard_decision \<Rightarrow> string \<Rightarrow> guard_decision" where
  "tag_decision (Allow tags) tag = Allow (tags @ [tag])"
| "tag_decision (ApprovalRequired a r tags) tag = ApprovalRequired a r (tags @ [tag])"
| "tag_decision (Escalate r tags) tag = Escalate r (tags @ [tag])"
| "tag_decision (Deny r tags) tag = Deny r (tags @ [tag])"
| "tag_decision (LogOnly r tags) tag = LogOnly r (tags @ [tag])"

definition shadow :: "string \<Rightarrow> string list \<Rightarrow> guard_decision" where
  "shadow reason tags = LogOnly (''[shadow] would have decided: '' @ reason) (tags @ [''shadow''])"

definition fail_closed :: "string \<Rightarrow> string list \<Rightarrow> guard_decision" where
  "fail_closed reason tags = Deny (''E5 fail-closed: '' @ reason) tags"

definition apply_enforcement_level :: "guard_decision \<Rightarrow> enforcement_level \<Rightarrow> guard_decision" where
  "apply_enforcement_level raw level =
     (case level of
        E0 \<Rightarrow> (case raw of
            Deny reason tags \<Rightarrow> shadow reason tags
          | Escalate reason tags \<Rightarrow> shadow reason tags
          | ApprovalRequired _ reason tags \<Rightarrow> shadow reason tags
          | other \<Rightarrow> other)
      | E1 \<Rightarrow> (case raw of
            Deny reason tags \<Rightarrow> Allow (tags @ [''warn'', ''would-deny:'' @ reason])
          | Escalate reason tags \<Rightarrow> LogOnly (''[warn] '' @ reason) (tags @ [''warn''])
          | other \<Rightarrow> other)
      | E2 \<Rightarrow> tag_decision raw ''proof-log-required''
      | E3 \<Rightarrow> (case raw of
            Allow tags \<Rightarrow>
              if tags \<noteq> []
              then Escalate (''E3 escalates allow with danger tags: '' @ str_join '', '' tags) tags
              else raw
          | other \<Rightarrow> other)
      | E4 \<Rightarrow> raw
      | E5 \<Rightarrow> (case raw of
            Escalate reason tags \<Rightarrow> fail_closed reason tags
          | ApprovalRequired _ reason tags \<Rightarrow> fail_closed reason tags
          | Allow tags \<Rightarrow>
              if tags \<noteq> []
              then Deny (''E5 fail-closed: allow with danger tags '' @ str_join '', '' tags @
                     '' blocked'') tags
              else raw
          | other \<Rightarrow> other))"

definition emit :: "agent_guard \<Rightarrow> guard_decision \<Rightarrow> string \<Rightarrow> guard_query \<Rightarrow> guard_event_stub option" where
  "emit g decision actor q =
     (if ag_listening g
      then Some \<lparr>ge_kind = ''guard.check'', ge_actor = actor, ge_action = gq_action q,
        ge_target = gq_target q, ge_decision = gd_kind decision,
        ge_danger_tags = gd_danger_tags decision,
        ge_enforcement_level = Some (el_as_str (ag_enforcement_level g))\<rparr>
      else None)"

definition check :: "agent_guard \<Rightarrow> guard_query \<Rightarrow> guard_decision \<times> guard_event_stub option" where
  "check g q =
     (let adjusted = apply_enforcement_level (check_raw g q) (ag_enforcement_level g);
          actor = unwrap_or (gq_actor q) ''tf:actor:process:local/unknown''
      in (adjusted, emit g adjusted actor q))"

subsection \<open>What the rules decide\<close>

text \<open>The actor clause of an action, as a condition on the query.\<close>

definition actor_ok :: "indexed_action \<Rightarrow> guard_query \<Rightarrow> bool" where
  "actor_ok action q \<longleftrightarrow>
     (case gq_actor q of
        Some actor \<Rightarrow>
          (\<forall>p\<in>set (ia_deny_actors action). \<not> actor_hit q actor p) \<and>
          (ia_allow_actors action = [] \<or> (\<exists>p\<in>set (ia_allow_actors action). actor_hit q actor p))
      | None \<Rightarrow> ia_allow_actors action = [])"

definition target_ok :: "agent_guard \<Rightarrow> indexed_action \<Rightarrow> guard_query \<Rightarrow> bool" where
  "target_ok g action q \<longleftrightarrow>
     (case gq_target q of
        Some target \<Rightarrow>
          (\<forall>p\<in>set (ia_deny_targets action). \<not> match_target g p target) \<and>
          (ia_allow_targets action = [] \<or>
           (\<exists>p\<in>set (ia_allow_targets action). match_target g p target))
      | None \<Rightarrow> True)"

lemma actor_scope_None_iff [guard_simps]: "actor_scope action q = None \<longleftrightarrow> actor_ok action q"
  by (auto simp: actor_scope_def actor_ok_def Let_def find_None_iff list_ex_iff
      split: option.splits dest: find_SomeD)

lemma target_scope_None_iff [guard_simps]: "target_scope g action q = None \<longleftrightarrow> target_ok g action q"
  by (auto simp: target_scope_def target_ok_def Let_def find_None_iff list_ex_iff
      split: option.splits dest: find_SomeD)

lemma actor_scope_denies: "actor_scope action q = Some d \<Longrightarrow> \<exists>r. d = Deny r (ia_danger_tags action)"
  by (auto simp: actor_scope_def Let_def split: option.splits if_splits)

lemma target_scope_denies: "target_scope g action q = Some d \<Longrightarrow> \<exists>r. d = Deny r (ia_danger_tags action)"
  by (auto simp: target_scope_def Let_def split: option.splits if_splits)

lemma final_decision_Allow_iff [guard_simps]:
  "final_decision action q = Allow tags \<longleftrightarrow>
     tags = ia_danger_tags action \<and> set tags \<inter> set ESCALATE_TAGS = {} \<and>
     ia_approval action \<notin> {Some ''required'', Some ''quorum''}"
  by (auto simp: final_decision_def Let_def list_ex_iff)

lemma final_decision_not_Deny: "final_decision action q \<noteq> Deny r tags"
  by (simp add: final_decision_def Let_def)

lemmas scope_denies = actor_scope_denies target_scope_denies

text \<open>
  C1. The rule engine allows a query exactly when: no negative capability matches it; its action
  is not forbidden; the action is declared; no \<open>deny_actors\<close> pattern hits and \<open>allow_actors\<close> is
  empty or hit (for a query without an actor, claim or
  not, only that \<open>allow_actors\<close> is empty); the same for the target lists when the query
  has a target; the action carries none of the escalation tags; and it needs no approval. The
  decision then carries exactly the action's danger tags.
\<close>

theorem check_raw_allow_iff:
  "check_raw g q = Allow tags \<longleftrightarrow>
     \<not> (\<exists>neg\<in>set (ag_negative_capabilities g). negative_matches neg q) \<and>
     ag_forbidden_by_name g (gq_action q) = None \<and>
     (\<exists>action. ag_action_by_name g (gq_action q) = Some action \<and>
        tags = ia_danger_tags action \<and> actor_ok action q \<and> target_ok g action q \<and>
        set tags \<inter> set ESCALATE_TAGS = {} \<and>
        ia_approval action \<notin> {Some ''required'', Some ''quorum''})"
  unfolding check_raw_def
  by (auto simp: find_None_iff final_decision_Allow_iff
      actor_scope_None_iff[symmetric] target_scope_None_iff[symmetric]
      split: option.splits dest: scope_denies find_SomeD)

text \<open>
  Negative capabilities take absolute precedence: when the first matching entry of the list
  is \<open>neg\<close>, the guard answers \<open>Deny\<close> with that entry's reason (or the default text) and the tag
  \<open>explicit-denial\<close>, whatever the contract declares, and at every level from E2 up \<open>check\<close> still
  denies.
\<close>

lemma negative_capability_precedence:
  assumes "ag_negative_capabilities g = pre @ neg # post"
    and "negative_matches neg q"
    and "\<And>n. n \<in> set pre \<Longrightarrow> \<not> negative_matches n q"
  shows "check_raw g q =
      Deny (unwrap_or (nc_reason neg) (''action '' @ gq_action q @ '' is denied by negative_capability''))
        [''explicit-denial'']
    \<and> (ag_enforcement_level g \<notin> {E0, E1} \<longrightarrow> gd_kind (fst (check g q)) = ''deny'')"
proof -
  have "find (\<lambda>n. negative_matches n q) (ag_negative_capabilities g) = Some neg"
    unfolding assms(1) using assms(2,3) by (induction pre) auto
  then show ?thesis
    by (auto simp: check_raw_def check_def apply_enforcement_level_def Let_def
        split: enforcement_level.splits)
qed

text \<open>Whether the caller may go ahead.\<close>

fun permits :: "guard_decision \<Rightarrow> bool" where
  "permits (Allow tags) = True"
| "permits (LogOnly r tags) = True"
| "permits (ApprovalRequired a r tags) = False"
| "permits (Escalate r tags) = False"
| "permits (Deny r tags) = False"

text \<open>
  What each enforcement level lets through, for every raw decision: E0 blocks nothing; E1
  blocks only what waits for an approval; E2 and E4 block what the rules block; E3 and E5 block in
  addition every allow that carries a danger tag; and E5 leaves no decision that waits for a human.
  The event sent to the listener names the decision that is returned.
\<close>

lemma enforcement_levels:
  "permits (apply_enforcement_level raw E0)
   \<and> (permits (apply_enforcement_level raw E1) \<longleftrightarrow> gd_kind raw \<noteq> ''approval-required'')
   \<and> (permits (apply_enforcement_level raw E2) \<longleftrightarrow> permits raw)
   \<and> (permits (apply_enforcement_level raw E3) \<longleftrightarrow>
        permits raw \<and> (gd_kind raw = ''log-only'' \<or> gd_danger_tags raw = []))
   \<and> (permits (apply_enforcement_level raw E4) \<longleftrightarrow> permits raw)
   \<and> (permits (apply_enforcement_level raw E5) \<longleftrightarrow>
        permits raw \<and> (gd_kind raw = ''log-only'' \<or> gd_danger_tags raw = []))
   \<and> gd_kind (apply_enforcement_level raw E5) \<in> {''allow'', ''deny'', ''log-only''}
   \<and> (case snd (check g q) of
        None \<Rightarrow> \<not> ag_listening g
      | Some ev \<Rightarrow> ge_decision ev = gd_kind (fst (check g q)) \<and>
          ge_danger_tags ev = gd_danger_tags (fst (check g q)))"
  by (cases raw)
    (simp_all add: apply_enforcement_level_def shadow_def fail_closed_def check_def emit_def Let_def)

text \<open>
  The levels are not ordered by strictness: raising a guard from E3 to E4 can turn a blocked
  query into a permitted one (an allowed action with a danger tag outside the escalation list).
\<close>

lemma enforcement_not_progressive:
  "\<exists>g q. \<not> permits (fst (check (set_enforcement_level E3 g) q)) \<and>
         permits (fst (check (set_enforcement_level E4 g) q))"
proof -
  define contract where "contract = JObject [(''actions'', JArray [JObject
    [(''name'', JString ''send''), (''danger_tags'', JArray [JString ''external''])]])]"
  define q where "q = \<lparr>gq_actor = None, gq_actor_claim = None, gq_action = ''send'', gq_target = None\<rparr>"
  have "check_raw (from_contract contract) q = Allow [''external'']"
    unfolding contract_def q_def by code_simp
  moreover have "check_raw (set_enforcement_level l g) q = check_raw g q" for l g
    by (simp add: check_raw_def set_enforcement_level_def target_scope_def match_target_def
        cong: option.case_cong)
  ultimately show ?thesis
    by (intro exI[of _ "from_contract contract"] exI[of _ q])
      (simp add: check_def apply_enforcement_level_def Let_def set_enforcement_level_def)
qed

subsection \<open>Loading\<close>

text \<open>
  Loading a contract. The action index holds, for each name, the last array element that
  declares it (a missing name counts as the empty string), the forbidden index likewise; a name no
  element declares is denied by the loaded guard, whatever the query and however the enforcement
  level is set from E2 up.
\<close>

lemma from_contract_index:
  "ag_action_by_name (from_contract c) n =
     map_option index_action
       (find (\<lambda>a. unwrap_or (get_str a ''name'') [] = n) (rev (get_array c ''actions'')))
   \<and> ag_forbidden_by_name (from_contract c) n =
     map_option (\<lambda>f. unwrap_or (get_str f ''reason'') [])
       (find (\<lambda>f. unwrap_or (get_str f ''action'') [] = n) (rev (get_array c ''forbidden'')))
   \<and> (find (\<lambda>a. unwrap_or (get_str a ''name'') [] = gq_action q) (get_array c ''actions'') = None \<longrightarrow>
       gd_kind (check_raw (set_negative_capabilities ncs (from_contract c)) q) = ''deny'' \<and>
       (level \<notin> {E0, E1} \<longrightarrow>
        gd_kind (fst (check (set_enforcement_level level
          (set_negative_capabilities ncs (from_contract c))) q)) = ''deny''))"
proof -
  have idx: "ag_action_by_name (from_contract c) n =
     map_option index_action
       (find (\<lambda>a. unwrap_or (get_str a ''name'') [] = n) (rev (get_array c ''actions'')))" for n
    by (simp add: from_contract_def Let_def fold_map_upd_last index_action_def split: option.splits)
  have fb: "ag_forbidden_by_name (from_contract c) n =
     map_option (\<lambda>f. unwrap_or (get_str f ''reason'') [])
       (find (\<lambda>f. unwrap_or (get_str f ''action'') [] = n) (rev (get_array c ''forbidden'')))"
    by (simp add: from_contract_def Let_def fold_map_upd_last split: option.splits)
  have "find (\<lambda>a. unwrap_or (get_str a ''name'') [] = gq_action q) (get_array c ''actions'') = None \<Longrightarrow>
    ag_action_by_name (from_contract c) (gq_action q) = None"
    by (simp add: idx find_None_iff)
  with idx fb show ?thesis
    by (auto simp: check_raw_def check_def apply_enforcement_level_def Let_def
        set_negative_capabilities_def set_enforcement_level_def
        split: option.splits enforcement_level.splits)
qed

end
