(* ===== verification/Decimal.thy ===== *)
theory Decimal
  imports Prelude
begin

text \<open>
  Decimal integers as the standard library prints and reads them: \<open>{}\<close>, the zero-padded \<open>{:04}\<close> and
  \<open>{:02}\<close>, and \<open>str::parse\<close>. The lemmas show that reading inverts printing, that fixed-width decimals
  are ordered like the numbers, and that a printed integer is recognised in front of any text that
  does not begin with a digit.
\<close>

subsection \<open>Printing and reading\<close>

text \<open>The padding of \<open>{:04}\<close> and \<open>{:02}\<close>: zeros between the sign and the digits.\<close>

definition pad_nat :: "nat \<Rightarrow> nat \<Rightarrow> string" where
  "pad_nat w n = replicate (w - length (show_nat n)) (CHR ''0'') @ show_nat n"

definition pad_int :: "nat \<Rightarrow> int \<Rightarrow> string" where
  "pad_int w i = (if i < 0 then CHR ''-'' # pad_nat (w - 1) (nat (- i)) else pad_nat w (nat i))"

text \<open>\<open>str::parse\<close> for an integer type: an optional sign (a minus only for a signed type) and at least
  one decimal digit. The fields parsed here have at most four characters, so the range check of
  the type cannot fail.\<close>

definition is_digit :: "char \<Rightarrow> bool" where
  "is_digit c \<longleftrightarrow> CHR ''0'' \<le> c \<and> c \<le> CHR ''9''"

definition digits_val :: "string \<Rightarrow> int" where
  "digits_val s = foldl (\<lambda>a c. 10 * a + (of_char c - 48)) 0 s"

definition parse_digits :: "string \<Rightarrow> int option" where
  "parse_digits s = (if s \<noteq> [] \<and> list_all is_digit s then Some (digits_val s) else None)"

definition parse_unsigned :: "string \<Rightarrow> int option" where
  "parse_unsigned s =
     (case strip_prefix ''+'' s of Some r \<Rightarrow> parse_digits r | None \<Rightarrow> parse_digits s)"

definition parse_signed :: "string \<Rightarrow> int option" where
  "parse_signed s =
     (case strip_prefix ''-'' s of
        Some r \<Rightarrow> map_option uminus (parse_digits r)
      | None \<Rightarrow> parse_unsigned s)"

subsection \<open>Fixed-width decimals\<close>

fun fixed_digits :: "nat \<Rightarrow> nat \<Rightarrow> string" where
  "fixed_digits 0 n = []"
| "fixed_digits (Suc w) n = fixed_digits w (n div 10) @ [char_of (48 + n mod 10)]"

lemma length_fixed_digits [simp]: "length (fixed_digits w n) = w"
  by (induction w arbitrary: n) auto

lemma fixed_digits_0 [simp]: "fixed_digits w 0 = replicate w (CHR ''0'')"
proof (induction w)
  case (Suc w)
  have "(char_of (48::nat)) = CHR ''0''" by code_simp
  with Suc show ?case by (simp add: replicate_append_same)
qed simp

lemma show_nat_fixed: "\<exists>k. 0 < k \<and> n < 10 ^ k \<and> 10 ^ (k - 1) \<le> max 1 n \<and> show_nat n = fixed_digits k n"
proof (induction n rule: less_induct)
  case (less n)
  show ?case
  proof (cases "n < 10")
    case True
    then show ?thesis by (intro exI[of _ 1]) (simp add: show_nat.simps[of n])
  next
    case False
    with less[of "n div 10"] obtain k where k: "0 < k" "n div 10 < 10 ^ k" "10 ^ (k - 1) \<le> n div 10"
      "show_nat (n div 10) = fixed_digits k (n div 10)" by (auto simp: max_def split: if_splits)
    then have "10 ^ k \<le> n" "n < 10 ^ Suc k" by (cases k; auto)+
    with False k show ?thesis by (intro exI[of _ "Suc k"]) (simp add: show_nat.simps[of n])
  qed
qed

lemma fixed_digits_widen: "n < 10 ^ k \<Longrightarrow> fixed_digits (j + k) n = replicate j (CHR ''0'') @ fixed_digits k n"
  by (induction k arbitrary: n) (auto simp: less_mult_imp_div_less)

lemma pad_nat_fixed: "n < 10 ^ w \<Longrightarrow> 0 < w \<Longrightarrow> pad_nat w n = fixed_digits w n"
proof -
  assume n: "n < 10 ^ w" and w: "0 < w"
  obtain k where k: "0 < k" "n < 10 ^ k" "10 ^ (k - 1) \<le> max 1 n" "show_nat n = fixed_digits k n"
    using show_nat_fixed by blast
  have "k \<le> w"
  proof (rule ccontr)
    assume "\<not> k \<le> w"
    then have "(10::nat) ^ w \<le> 10 ^ (k - 1)" by (intro power_increasing) auto
    then have "10 ^ w \<le> max 1 n" using k(3) by (rule order_trans)
    with n have "(10::nat) ^ w \<le> 1" by (auto simp: max_def split: if_splits)
    with w one_less_power[of "10::nat" w] show False by simp
  qed
  with fixed_digits_widen[OF k(2), of "w - k"] k(4) show ?thesis by (simp add: pad_nat_def)
qed

lemma append_less_append:
  fixes a b :: string
  shows "length a = length b \<Longrightarrow> a @ x < b @ y \<longleftrightarrow> a < b \<or> a = b \<and> x < y"
  by (induction a b rule: list_induct2) auto

lemma fixed_digits_order:
  assumes "a < 10 ^ w" "b < 10 ^ w"
  shows "(fixed_digits w a = fixed_digits w b \<longleftrightarrow> a = b) \<and> (fixed_digits w a < fixed_digits w b \<longleftrightarrow> a < b)"
  using assms
proof (induction w arbitrary: a b)
  case 0
  then show ?case by simp
next
  case (Suc w)
  have c: "of_char (char_of (48 + i) :: char) = (48 + i :: nat)" if "i < 10" for i
    using that by (simp add: take_bit_nat_eq_self)
  have dig: "(char_of (48 + i) :: char) = char_of (48 + j) \<longleftrightarrow> i = j"
    "(char_of (48 + i) :: char) < char_of (48 + j) \<longleftrightarrow> i < j" if "i < 10" "j < 10" for i j :: nat
    using that by (simp_all add: less_char_def c flip: of_char_eq_iff[where ?'a = nat] del: of_char_eq_iff)
  have m: "a mod 10 < 10" "b mod 10 < 10" by simp_all
  have ih: "(fixed_digits w (a div 10) = fixed_digits w (b div 10) \<longleftrightarrow> a div 10 = b div 10) \<and>
    (fixed_digits w (a div 10) < fixed_digits w (b div 10) \<longleftrightarrow> a div 10 < b div 10)"
    using Suc.prems by (intro Suc.IH) (simp_all add: less_mult_imp_div_less)
  have less: "10 * p + i < 10 * q + j \<longleftrightarrow> p < q \<or> p = q \<and> i < j"
    if "i < 10" "j < 10" for i j p q :: nat using that by auto
  note lt = less[OF m, of "a div 10" "b div 10", unfolded mult_div_mod_eq]
    less[OF m(2,1), of "b div 10" "a div 10", unfolded mult_div_mod_eq]
  have "a = b \<longleftrightarrow> \<not> a < b \<and> \<not> b < a" by auto
  moreover have "\<not> (p < q \<or> p = q \<and> i < j) \<and> \<not> (q < p \<or> q = p \<and> j < i) \<longleftrightarrow> p = q \<and> i = j"
    for p q i j :: nat by auto
  ultimately have eq: "a = b \<longleftrightarrow> a div 10 = b div 10 \<and> a mod 10 = b mod 10" unfolding lt by simp
  show ?case
    unfolding fixed_digits.simps eq lt(1)
    by (simp add: append_less_append ih dig[OF m])
qed

lemma pad_int_fixed: "0 \<le> i \<Longrightarrow> i < 10 ^ w \<Longrightarrow> 0 < w \<Longrightarrow> pad_int w i = fixed_digits w (nat i)"
  by (simp add: pad_int_def pad_nat_fixed nat_less_iff)

lemma fixed_append_less:
  assumes "0 \<le> a" "a < 10 ^ w" "0 \<le> b" "b < (10 :: int) ^ w"
  shows "fixed_digits w (nat a) @ x < fixed_digits w (nat b) @ y \<longleftrightarrow> a < b \<or> a = b \<and> x < y"
proof -
  have "nat a < 10 ^ w" "nat b < 10 ^ w" using assms by (simp_all add: nat_less_iff)
  then show ?thesis
    using fixed_digits_order[of "nat a" w "nat b"] assms
    by (auto simp: append_less_append nat_less_eq_zless nat_eq_iff)
qed

lemma digit_char:
  assumes "i < 10"
  shows "(of_char (char_of (48 + i) :: char) :: nat) = 48 + i" "is_digit (char_of (48 + i))"
proof -
  show c: "(of_char (char_of (48 + i) :: char) :: nat) = 48 + i"
    using assms by (simp add: take_bit_nat_eq_self)
  show "is_digit (char_of (48 + i))"
    using assms by (simp only: is_digit_def less_eq_char_def c) simp
qed

lemma digits_val_snoc: "digits_val (s @ [c]) = 10 * digits_val s + (of_char c - 48)"
  by (simp add: digits_val_def)

lemma digits_val_fixed: "n < 10 ^ w \<Longrightarrow> digits_val (fixed_digits w n) = int n"
proof (induction w arbitrary: n)
  case 0
  then show ?case by (simp add: digits_val_def)
next
  case (Suc w)
  have "(of_char (char_of (48 + n mod 10) :: char) :: int) = int (48 + n mod 10)"
    using digit_char(1)[of "n mod 10"] by (metis of_nat_of_char mod_less_divisor zero_less_numeral)
  moreover have "digits_val (fixed_digits w (n div 10)) = int (n div 10)"
    using Suc.prems by (intro Suc.IH) (simp add: less_mult_imp_div_less)
  moreover have "10 * int (n div 10) + int (n mod 10) = int n"
    by (metis mult_div_mod_eq of_nat_add of_nat_mult of_nat_numeral)
  ultimately show ?case by (simp add: digits_val_snoc)
qed

lemma fixed_digits_digits: "list_all is_digit (fixed_digits w n)"
  by (induction w arbitrary: n) (simp_all add: digit_char)

lemma is_digit_ascii: "is_digit c \<Longrightarrow> (of_char c :: nat) < 128 \<and> c \<noteq> CHR ''+'' \<and> c \<noteq> CHR ''-''"
  by (auto simp: is_digit_def less_eq_char_def)

lemma parse_fixed:
  assumes "0 \<le> i" "i < 10 ^ w" "0 < w"
  shows "parse_unsigned (fixed_digits w (nat i)) = Some i" "parse_signed (fixed_digits w (nat i)) = Some i"
proof -
  have d: "parse_digits (fixed_digits w (nat i)) = Some i"
    using assms digits_val_fixed[of "nat i" w] fixed_digits_digits[of w "nat i"]
    by (auto simp: parse_digits_def nat_less_iff simp flip: length_0_conv)
  obtain c cs where c: "fixed_digits w (nat i) = c # cs"
    using assms(3) by (metis length_fixed_digits length_0_conv neq_Nil_conv less_irrefl)
  with fixed_digits_digits[of w "nat i"] have "is_digit c" by simp
  then have "strip_prefix ''+'' (c # cs) = None" "strip_prefix ''-'' (c # cs) = None"
    by (auto dest: is_digit_ascii)
  with d show "parse_unsigned (fixed_digits w (nat i)) = Some i"
      "parse_signed (fixed_digits w (nat i)) = Some i"
    by (simp_all add: parse_unsigned_def parse_signed_def c)
qed

lemma show_nat_digits: "show_nat n \<noteq> [] \<and> list_all is_digit (show_nat n) \<and> digits_val (show_nat n) = int n"
proof -
  obtain k where k: "0 < k" "n < 10 ^ k" "show_nat n = fixed_digits k n"
    using show_nat_fixed by blast
  then show ?thesis
    using digits_val_fixed[of n k] fixed_digits_digits[of k n] length_fixed_digits[of k n]
    by (metis length_0_conv less_irrefl)
qed

text \<open>A printed integer followed by something that is not a digit determines both.\<close>

definition no_digit_front :: "string \<Rightarrow> bool" where
  "no_digit_front s \<longleftrightarrow> (case s of [] \<Rightarrow> True | c # _ \<Rightarrow> \<not> is_digit c)"

lemma takeWhile_digits:
  "list_all is_digit ds \<Longrightarrow> no_digit_front x \<Longrightarrow> takeWhile is_digit (ds @ x) = ds"
  by (induction ds) (auto simp: no_digit_front_def split: list.splits)

lemma show_nat_inject: "show_nat m = show_nat n \<longleftrightarrow> m = n"
  by (metis of_nat_eq_iff show_nat_digits)

lemma show_nat_inject_front:
  assumes "show_nat m @ x = show_nat n @ y" "no_digit_front x" "no_digit_front y"
  shows "m = n \<and> x = y"
proof -
  have "show_nat m = show_nat n"
    using assms show_nat_digits takeWhile_digits by metis
  moreover from this have "int m = int n" using show_nat_digits by metis
  ultimately show ?thesis using assms(1) by simp
qed

lemma show_nat_front: "\<exists>c cs. show_nat n = c # cs \<and> is_digit c"
  using show_nat_digits[of n] by (cases "show_nat n") auto

lemma show_int_inject_front:
  assumes "show_int m @ x = show_int n @ y" "no_digit_front x" "no_digit_front y"
  shows "m = n \<and> x = y"
proof -
  have nd: "\<not> is_digit (CHR ''-'')" using is_digit_ascii by blast
  have sign: "m < 0 \<longleftrightarrow> n < 0"
    using assms(1) show_nat_front[of "nat m"] show_nat_front[of "nat n"] nd
    by (auto simp: show_int_def split: if_splits)
  show ?thesis
  proof (cases "m < 0")
    case True
    with assms sign have "nat (- m) = nat (- n) \<and> x = y"
      by (intro show_nat_inject_front) (simp_all add: show_int_def)
    with True sign show ?thesis by auto
  next
    case False
    with assms sign have "nat m = nat n \<and> x = y"
      by (intro show_nat_inject_front) (simp_all add: show_int_def)
    with False sign show ?thesis by auto
  qed
qed

lemma show_int_front: "\<exists>c cs. show_int i = c # cs \<and> (is_digit c \<or> c = CHR ''-'')"
  using show_nat_front[of "nat i"] by (auto simp: show_int_def)

end
