(* ===== verification/Clock.thy ===== *)
theory Clock
  imports Decimal "HOL-Library.Signed_Division"
begin

text \<open>
  Wall-clock timestamps. Every component that stamps a record formats the system clock with the
  same civil-date routine (\<open>secs_to_ymdhms\<close>, here as in \<open>policy_engine.rs\<close>), and the ones that
  read a timestamp back use the inverse (\<open>unix_from_civil\<close> of \<open>offline_approval.rs\<close>,
  \<open>parse_iso8601\<close> of \<open>relay.rs\<close>). The rest of the code compares timestamps as strings; the last
  part of this theory shows that this agrees with the order of the instants.

  The quantities are \<open>i64\<close> and \<open>u64\<close> in the source and integers here: for the arguments the clock
  produces none of the operations wraps. Rust's \<open>/\<close> on a signed integer truncates, so it is
  \<open>sdiv\<close>; \<open>as i32\<close> keeps the low 32 bits.
\<close>

subsection \<open>Civil dates\<close>

definition as_i32 :: "int \<Rightarrow> int" where
  "as_i32 x = signed_take_bit 31 x"

definition secs_to_ymdhms :: "int \<Rightarrow> int \<times> int \<times> int \<times> int \<times> int \<times> int" where
  "secs_to_ymdhms secs =
     (let days = secs div 86400;
          time = secs mod 86400;
          hour = time div 3600;
          minute = (time mod 3600) div 60;
          second = time mod 60;
          z = days + 719468;
          era = (if z \<ge> 0 then z else z - 146096) sdiv 146097;
          doe = z - era * 146097;
          yoe = (doe - doe div 1460 + doe div 36524 - doe div 146096) div 365;
          y = yoe + era * 400;
          doy = doe - (365 * yoe + yoe div 4 - yoe div 100);
          mp = (5 * doy + 2) div 153;
          d = doy - (153 * mp + 2) div 5 + 1;
          m = (if mp < 10 then mp + 3 else mp - 9);
          year = (if m \<le> 2 then y + 1 else y)
      in (as_i32 year, m, d, hour, minute, second))"

text \<open>\<open>now_iso8601\<close> at the clock reading \<open>secs\<close>.\<close>

definition now_iso8601 :: "int \<Rightarrow> string" where
  "now_iso8601 secs =
     (case secs_to_ymdhms secs of (year, month, day, hour, minute, second) \<Rightarrow>
        pad_int 4 year @ ''-'' @ pad_int 2 month @ ''-'' @ pad_int 2 day @ ''T'' @
        pad_int 2 hour @ '':'' @ pad_int 2 minute @ '':'' @ pad_int 2 second @ ''Z'')"

definition unix_from_civil :: "int \<Rightarrow> int \<Rightarrow> int \<Rightarrow> int \<Rightarrow> int \<Rightarrow> int \<Rightarrow> int" where
  "unix_from_civil year month day hour minute second =
     (let y = (if month \<le> 2 then year - 1 else year);
          era = (if y \<ge> 0 then y else y - 399) sdiv 400;
          yoe = y - era * 400;
          m = (if month > 2 then month - 3 else month + 9);
          doy = (153 * m + 2) div 5 + day - 1;
          doe = yoe * 365 + yoe div 4 - yoe div 100 + doy;
          days = era * 146097 + doe - 719468
      in days * 86400 + hour * 3600 + minute * 60 + second)"

subsection \<open>Reading a timestamp\<close>

text \<open>\<open>s.get(a..b)\<close>: both ends must lie on character boundaries.\<close>

definition is_char_boundary :: "string \<Rightarrow> nat \<Rightarrow> bool" where
  "is_char_boundary s i \<longleftrightarrow>
     i = length s \<or> (i < length s \<and> \<not> (128 \<le> (of_char (s ! i) :: nat) \<and> (of_char (s ! i) :: nat) < 192))"

definition str_get :: "string \<Rightarrow> nat \<Rightarrow> nat \<Rightarrow> string option" where
  "str_get s a b =
     (if a \<le> b \<and> is_char_boundary s a \<and> is_char_boundary s b
      then Some (take (b - a) (drop a s)) else None)"

definition parse_iso8601 :: "string \<Rightarrow> int option" where
  "parse_iso8601 s =
     (if length s < 19 then None else
      Option.bind (Option.bind (str_get s 0 4) parse_signed) (\<lambda>year.
      Option.bind (Option.bind (str_get s 5 7) parse_unsigned) (\<lambda>month.
      Option.bind (Option.bind (str_get s 8 10) parse_unsigned) (\<lambda>day.
      Option.bind (Option.bind (str_get s 11 13) parse_unsigned) (\<lambda>hour.
      Option.bind (Option.bind (str_get s 14 16) parse_unsigned) (\<lambda>minute.
      Option.bind (Option.bind (str_get s 17 19) parse_unsigned) (\<lambda>second.
        Some (unix_from_civil year month day hour minute second))))))))"

subsection \<open>The civil date of a day number\<close>

text \<open>\<open>year_start y\<close> is the day, within a 400-year era that begins on 1 March, on which its year \<open>y\<close>
  begins.\<close>

definition year_start :: "int \<Rightarrow> int" where
  "year_start y = 365 * y + y div 4 - y div 100 + y div 400"

definition yoe_of :: "int \<Rightarrow> int" where
  "yoe_of doe = (doe - doe div 1460 + doe div 36524 - doe div 146096) div 365"

lemma minus_div_mono:
  fixes x y b :: int
  assumes "x \<le> y" "0 < b" shows "x - x div b \<le> y - y div b"
proof -
  have "y - x \<le> b * (y - x)" using assms by (simp add: mult_le_cancel_right1)
  then have "y \<le> x + b * (y - x)" by linarith
  then have "y div b \<le> (x + b * (y - x)) div b" using assms(2) by (rule zdiv_mono1)
  also have "\<dots> = x div b + (y - x)" using assms(2) by simp
  finally show ?thesis by simp
qed

lemma yoe_of_mono:
  assumes "x \<le> y" shows "yoe_of x \<le> yoe_of y"
proof -
  have q: "z div 146096 = z div 36524 div 4" for z :: int
    by (simp add: zdiv_zmult2_eq[symmetric])
  have a: "x - x div 1460 \<le> y - y div 1460" using assms by (rule minus_div_mono) simp
  have "x div 36524 \<le> y div 36524" using assms by (rule zdiv_mono1) simp
  then have b: "x div 36524 - x div 36524 div 4 \<le> y div 36524 - y div 36524 div 4"
    by (rule minus_div_mono) simp
  show ?thesis unfolding yoe_of_def q by (rule zdiv_mono1) (use a b in linarith, simp)
qed

lemma yoe_of_ends:
  "list_all (\<lambda>y. yoe_of (year_start y) = y \<and> yoe_of (year_start (y + 1) - 1) = y) [0..399]"
  by code_simp

lemma year_of_day:
  assumes "0 \<le> doe" "doe < 146097"
  shows "\<exists>y. 0 \<le> y \<and> y \<le> 399 \<and> year_start y \<le> doe \<and> doe < year_start (y + 1)"
proof -
  have "doe < year_start (int n) \<Longrightarrow>
      \<exists>y. 0 \<le> y \<and> y < int n \<and> year_start y \<le> doe \<and> doe < year_start (y + 1)" for n
  proof (induction n)
    case 0
    then show ?case using assms(1) by (simp add: year_start_def)
  next
    case (Suc n)
    show ?case
    proof (cases "doe < year_start (int n)")
      case True
      with Suc.IH show ?thesis by force
    next
      case False
      with Suc.prems show ?thesis by (intro exI[of _ "int n"]) (simp add: add.commute)
    qed
  qed
  from this[of 400] assms(2) show ?thesis by (force simp: year_start_def)
qed

lemma yoe_of_spec:
  assumes "0 \<le> doe" "doe < 146097"
  shows "0 \<le> yoe_of doe \<and> yoe_of doe \<le> 399 \<and>
    year_start (yoe_of doe) \<le> doe \<and> doe < year_start (yoe_of doe + 1)"
proof -
  obtain y where y: "0 \<le> y" "y \<le> 399" "year_start y \<le> doe" "doe < year_start (y + 1)"
    using year_of_day[OF assms] by blast
  then have "yoe_of (year_start y) = y" "yoe_of (year_start (y + 1) - 1) = y"
    using yoe_of_ends by (auto simp: list_all_iff)
  moreover have "yoe_of (year_start y) \<le> yoe_of doe" "yoe_of doe \<le> yoe_of (year_start (y + 1) - 1)"
    using y by (auto intro: yoe_of_mono)
  ultimately show ?thesis using y by simp
qed

text \<open>The same date with the year counted from 1 March: year, month index, day.\<close>

definition march_year :: "int \<Rightarrow> int" where
  "march_year z = yoe_of (z mod 146097) + z div 146097 * 400"

definition march_doy :: "int \<Rightarrow> int" where
  "march_doy z = z mod 146097 - year_start (yoe_of (z mod 146097))"

definition march_month :: "int \<Rightarrow> int" where
  "march_month z = (5 * march_doy z + 2) div 153"

definition march_day :: "int \<Rightarrow> int" where
  "march_day z = march_doy z - (153 * march_month z + 2) div 5 + 1"

definition civil_m :: "int \<Rightarrow> int" where
  "civil_m z = (if march_month z < 10 then march_month z + 3 else march_month z - 9)"

definition civil_y :: "int \<Rightarrow> int" where
  "civil_y z = (if civil_m z \<le> 2 then march_year z + 1 else march_year z)"

lemma floor_sdiv:
  fixes z b :: int
  assumes "0 < b"
  shows "(if z \<ge> 0 then z else z - (b - 1)) sdiv b = z div b"
proof (cases "z \<ge> 0")
  case True
  then show ?thesis using assms by (simp add: signed_divide_int_def pos_imp_zdiv_nonneg_iff sgn_if)
next
  case False
  have e: "- (z - (b - 1)) = b * (- (z div b)) + (b - 1 - z mod b)"
    using div_mult_mod_eq[of z b] by (simp add: algebra_simps)
  have "(- (z - (b - 1))) div b = - (z div b)"
    unfolding e using assms pos_mod_bound[OF assms, of z] pos_mod_sign[OF assms, of z]
    by (subst div_mult_self4) (auto simp: div_pos_pos_trivial)
  moreover have "z - (b - 1) < 0" using False assms by simp
  ultimately show ?thesis using False assms by (simp add: signed_divide_int_def sgn_if)
qed

lemma year_start_Suc: "year_start (y + 1) \<le> year_start y + 366"
proof -
  have q: "z div 400 = z div 100 div 4" for z :: int
    by (simp add: zdiv_zmult2_eq[symmetric])
  have "y div 100 \<le> (y + 1) div 100" by (rule zdiv_mono1) simp_all
  then have "y div 100 - y div 100 div 4 \<le> (y + 1) div 100 - (y + 1) div 100 div 4"
    by (rule minus_div_mono) simp
  moreover have "(y + 1) div 4 \<le> y div 4 + 1" by presburger
  moreover have "a - b \<le> c - d \<Longrightarrow> e \<le> f + 1 \<Longrightarrow> 365 * (y + 1) + e - c + d \<le> 365 * y + f - a + b + 366"
    for a b c d e f :: int by (simp add: algebra_simps)
  ultimately show ?thesis unfolding year_start_def q by blast
qed

lemma yoe_of_doe:
  "0 \<le> yoe_of (z mod 146097) \<and> yoe_of (z mod 146097) \<le> 399 \<and>
    0 \<le> march_doy z \<and> march_doy z \<le> 365"
proof -
  let ?y = "yoe_of (z mod 146097)"
  have sp: "0 \<le> ?y" "?y \<le> 399" "year_start ?y \<le> z mod 146097" "z mod 146097 < year_start (?y + 1)"
    using yoe_of_spec[of "z mod 146097"] by auto
  with year_start_Suc[of ?y] show ?thesis by (simp add: march_doy_def)
qed

lemma march_month_range: "0 \<le> march_month z \<and> march_month z \<le> 11"
  using yoe_of_doe[of z] unfolding march_month_def by linarith

lemma march_day_range: "1 \<le> march_day z \<and> march_day z \<le> 31"
  unfolding march_day_def march_month_def by linarith

lemma secs_to_ymdhms_march:
  "secs_to_ymdhms secs =
     (let z = secs div 86400 + 719468; time = secs mod 86400
      in (as_i32 (civil_y z), civil_m z, march_day z,
          time div 3600, (time mod 3600) div 60, time mod 60))"
proof -
  define z where "z = secs div 86400 + 719468"
  have era: "(if z \<ge> 0 then z else z - 146096) sdiv 146097 = z div 146097"
    using floor_sdiv[of 146097 z] by (simp split: if_splits)
  have doe: "z - z div 146097 * 146097 = z mod 146097" by (simp add: minus_div_mult_eq_mod)
  have ys: "365 * yoe_of (z mod 146097) + yoe_of (z mod 146097) div 4 - yoe_of (z mod 146097) div 100
      = year_start (yoe_of (z mod 146097))"
    using yoe_of_doe[of z] by (simp add: year_start_def div_pos_pos_trivial)
  show ?thesis
    unfolding secs_to_ymdhms_def Let_def z_def[symmetric] era doe yoe_of_def[symmetric] ys
    by (simp add: civil_y_def civil_m_def march_year_def march_doy_def march_month_def march_day_def)
qed

lemma time_of_day:
  fixes t :: int
  shows "t div 3600 * 3600 + t mod 3600 div 60 * 60 + t mod 60 = t"
proof -
  have "t mod 3600 mod 60 = t mod 60" by (simp add: mod_mod_cancel)
  then show ?thesis
    using div_mult_mod_eq[of t 3600] div_mult_mod_eq[of "t mod 3600" 60] by (simp only: add.assoc)
qed

lemma unix_from_march:
  "unix_from_civil (civil_y z) (civil_m z) (march_day z) h mi s =
    (z - 719468) * 86400 + h * 3600 + mi * 60 + s"
proof -
  note mr = march_month_range[of z] and yr = yoe_of_doe[of z]
  have y: "(if civil_m z \<le> 2 then civil_y z - 1 else civil_y z) = march_year z"
    by (simp add: civil_y_def)
  have m': "(if civil_m z > 2 then civil_m z - 3 else civil_m z + 9) = march_month z"
    using mr by (auto simp: civil_m_def)
  have era: "(if march_year z \<ge> 0 then march_year z else march_year z - 399) sdiv 400 = z div 146097"
    using floor_sdiv[of 400 "march_year z"] yr by (simp add: march_year_def split: if_splits)
  have yoe: "march_year z - z div 146097 * 400 = yoe_of (z mod 146097)" by (simp add: march_year_def)
  have doe: "yoe_of (z mod 146097) * 365 + yoe_of (z mod 146097) div 4 - yoe_of (z mod 146097) div 100
      + march_doy z = z mod 146097"
    using yr by (simp add: march_doy_def year_start_def div_pos_pos_trivial)
  have doy: "(153 * march_month z + 2) div 5 + march_day z - 1 = march_doy z" by (simp add: march_day_def)
  show ?thesis
    unfolding unix_from_civil_def Let_def y m' era yoe doy doe
    using div_mult_mod_eq[of z 146097] by simp
qed

text \<open>The instants whose year fits the four digits of the format: 0000-01-01 to 9999-12-31.\<close>

definition civil_range :: "int \<Rightarrow> bool" where
  "civil_range secs \<longleftrightarrow> - 62167219200 \<le> secs \<and> secs < 253402300800"

lemma march_year_mono: "z \<le> z' \<Longrightarrow> march_year z \<le> march_year z'"
proof (cases "z div 146097 = z' div 146097")
  case True
  assume "z \<le> z'"
  with True have "z mod 146097 \<le> z' mod 146097"
    by (metis add_le_cancel_left mult_div_mod_eq)
  with True show ?thesis by (simp add: march_year_def yoe_of_mono)
next
  case False
  assume "z \<le> z'"
  then have "z div 146097 \<le> z' div 146097" by (rule zdiv_mono1) simp
  with False have "z div 146097 + 1 \<le> z' div 146097" by simp
  then show ?thesis using yoe_of_doe[of z] yoe_of_doe[of z'] by (simp add: march_year_def)
qed

text \<open>One number per date, increasing with the date.\<close>

definition date_no :: "int \<Rightarrow> int" where
  "date_no z = (march_year z * 12 + march_month z) * 32 + march_day z"

lemma date_no_strict_mono: "z < z' \<Longrightarrow> date_no z < date_no z'"
proof (cases "march_year z = march_year z'")
  case True
  assume lt: "z < z'"
  have "yoe_of (z mod 146097) = march_year z mod 400 \<and> z div 146097 = march_year z div 400" for z
    using yoe_of_doe[of z] by (simp add: march_year_def)
  with True have "z div 146097 = z' div 146097" "yoe_of (z mod 146097) = yoe_of (z' mod 146097)" by simp_all
  moreover from this(1) lt have "z mod 146097 < z' mod 146097"
    by (metis add_less_cancel_left mult_div_mod_eq)
  ultimately have doy: "march_doy z < march_doy z'" by (simp add: march_doy_def)
  then have "march_month z \<le> march_month z'" unfolding march_month_def by (intro zdiv_mono1) simp_all
  then show ?thesis
  proof (cases "march_month z = march_month z'")
    case True
    with doy \<open>march_year z = march_year z'\<close> show ?thesis by (simp add: date_no_def march_day_def)
  next
    case False
    with \<open>march_month z \<le> march_month z'\<close> have "march_month z + 1 \<le> march_month z'" by simp
    then show ?thesis
      using march_day_range[of z] march_day_range[of z'] \<open>march_year z = march_year z'\<close>
      by (simp add: date_no_def)
  qed
next
  case False
  assume "z < z'"
  then have "march_year z \<le> march_year z'" by (intro march_year_mono) simp
  with False have "march_year z + 1 \<le> march_year z'" by simp
  then show ?thesis
    using march_day_range[of z] march_day_range[of z'] march_month_range[of z] march_month_range[of z']
    by (simp add: date_no_def)
qed

subsection \<open>The format\<close>

lemma as_i32_id: "- (2 ^ 31) \<le> x \<Longrightarrow> x < 2 ^ 31 \<Longrightarrow> as_i32 x = x"
  by (simp add: as_i32_def signed_take_bit_int_eq_self)

text \<open>The calendar year and month of a date against its March-based year and month.\<close>

lemma civil_month:
  assumes "- 60 \<le> z" "z \<le> 3652364"
  shows "civil_y z * 12 + (civil_m z - 1) = march_year z * 12 + march_month z + 2 \<and>
    1 \<le> civil_m z \<and> civil_m z \<le> 12 \<and> 0 \<le> civil_y z \<and> civil_y z \<le> 9999"
proof -
  have e: "civil_y z * 12 + (civil_m z - 1) = march_year z * 12 + march_month z + 2"
    "1 \<le> civil_m z" "civil_m z \<le> 12"
    using march_month_range[of z] unfolding civil_y_def civil_m_def by auto
  have "date_no (- 60) = - 63" "date_no 3652364 = 3839935"
    by code_simp+
  moreover have "date_no (- 60) \<le> date_no z" "date_no z \<le> date_no 3652364"
    using date_no_strict_mono[of "-60" z] date_no_strict_mono[of z 3652364] assms
    by (cases "z = -60"; cases "z = 3652364"; simp)+
  moreover define ym where "ym = march_year z * 12 + march_month z"
  ultimately have "- 63 \<le> ym * 32 + march_day z" "ym * 32 + march_day z \<le> 3839935"
    by (simp_all add: date_no_def[of z])
  with march_day_range[of z] have "0 \<le> civil_y z * 12 + (civil_m z - 1)"
      "civil_y z * 12 + (civil_m z - 1) < 120000"
    unfolding e(1) ym_def[symmetric] by auto
  with e(2,3) have "0 \<le> civil_y z" "civil_y z \<le> 9999" by simp_all
  with e show ?thesis by blast
qed

lemma civil_fields:
  assumes "civil_range secs" and "secs_to_ymdhms secs = (year, month, day, hour, minute, second)"
  defines "z \<equiv> secs div 86400 + 719468"
  shows "0 \<le> year \<and> year \<le> 9999 \<and> 1 \<le> month \<and> month \<le> 12 \<and> day = march_day z \<and>
    year * 12 + (month - 1) = march_year z * 12 + march_month z + 2 \<and>
    0 \<le> hour \<and> hour < 24 \<and> 0 \<le> minute \<and> minute < 60 \<and> 0 \<le> second \<and> second < 60 \<and>
    hour * 3600 + minute * 60 + second = secs mod 86400 \<and>
    unix_from_civil year month day hour minute second = secs"
proof -
  have z: "- 60 \<le> z" "z \<le> 3652364"
    using assms(1) zdiv_mono1[of "- 62167219200" secs 86400] zdiv_mono1[of secs 253402300799 86400]
    unfolding z_def civil_range_def by simp_all
  note cm = civil_month[OF z]
  have "as_i32 (civil_y z) = civil_y z" using cm by (intro as_i32_id) simp_all
  then have f: "year = civil_y z" "month = civil_m z" "day = march_day z"
      "hour = secs mod 86400 div 3600"
      "minute = secs mod 86400 mod 3600 div 60" "second = secs mod 86400 mod 60"
    using assms(2) unfolding secs_to_ymdhms_march Let_def z_def[symmetric] by simp_all
  have "0 \<le> secs mod 86400" "secs mod 86400 < 86400" by simp_all
  then have hms: "0 \<le> hour" "hour < 24" "0 \<le> minute" "minute < 60" "0 \<le> second" "second < 60"
    unfolding f(4-6) by (simp_all add: div_less_iff_less_mult pos_imp_zdiv_nonneg_iff)
  have t: "hour * 3600 + minute * 60 + second = secs mod 86400" unfolding f(4-6) by (rule time_of_day)
  have "unix_from_civil year month day hour minute second = (z - 719468) * 86400 + secs mod 86400"
    unfolding f(1-3) unix_from_march t[symmetric] by simp
  also have "\<dots> = secs" unfolding z_def by simp
  finally show ?thesis using cm hms t unfolding f(1-3) by blast
qed

definition stamp :: "int \<Rightarrow> int \<Rightarrow> int \<Rightarrow> int \<Rightarrow> int \<Rightarrow> int \<Rightarrow> string" where
  "stamp year month day hour minute second =
     fixed_digits 4 (nat year) @ ''-'' @ fixed_digits 2 (nat month) @ ''-'' @ fixed_digits 2 (nat day) @
     ''T'' @ fixed_digits 2 (nat hour) @ '':'' @ fixed_digits 2 (nat minute) @ '':'' @
     fixed_digits 2 (nat second) @ ''Z''"

lemma now_iso8601_stamp:
  assumes "civil_range secs" and "secs_to_ymdhms secs = (year, month, day, hour, minute, second)"
  shows "now_iso8601 secs = stamp year month day hour minute second"
  using civil_fields[OF assms] march_day_range[of "secs div 86400 + 719468"]
  by (simp add: now_iso8601_def assms(2) stamp_def pad_int_fixed)

lemma radix_less:
  fixes q q' r r' b :: int
  assumes "0 \<le> r" "r < b" "0 \<le> r'" "r' < b"
  shows "q * b + r < q' * b + r' \<longleftrightarrow> q < q' \<or> q = q' \<and> r < r'"
proof (cases q q' rule: linorder_cases)
  case less
  then have "(q + 1) * b \<le> q' * b" using assms by (intro mult_right_mono) auto
  with less show ?thesis using assms by (simp add: algebra_simps)
next
  case greater
  then have "(q' + 1) * b \<le> q * b" using assms by (intro mult_right_mono) auto
  with greater show ?thesis using assms by (simp add: algebra_simps)
qed simp

lemma radix_eq:
  fixes q q' r r' b :: int
  assumes "0 \<le> r" "r < b" "0 \<le> r'" "r' < b"
  shows "q * b + r = q' * b + r' \<longleftrightarrow> q = q' \<and> r = r'"
  using radix_less[OF assms, of q q'] radix_less[OF assms(3,4,1,2), of q' q]
  by (metis linorder_less_linear less_irrefl)

lemma stamp_less_iff:
  assumes "0 \<le> y" "y \<le> 9999" "0 \<le> m" "m \<le> 12" "0 \<le> d" "d \<le> 31" "0 \<le> h" "h < 24" "0 \<le> mi" "mi < 60"
      "0 \<le> s" "s < 60"
    and "0 \<le> y'" "y' \<le> 9999" "0 \<le> m'" "m' \<le> 12" "0 \<le> d'" "d' \<le> 31" "0 \<le> h'" "h' < 24" "0 \<le> mi'"
      "mi' < 60" "0 \<le> s'" "s' < 60"
  shows "stamp y m d h mi s < stamp y' m' d' h' mi' s' \<longleftrightarrow>
    y < y' \<or> y = y' \<and> (m < m' \<or> m = m' \<and> (d < d' \<or> d = d' \<and> (h < h' \<or> h = h' \<and>
      (mi < mi' \<or> mi = mi' \<and> s < s'))))"
  unfolding stamp_def using assms by (simp add: fixed_append_less)

lemma date_less_iff:
  assumes "y * 12 + (m - 1) = march_year z * 12 + march_month z + 2" "1 \<le> m" "m \<le> 12"
    and "y' * 12 + (m' - 1) = march_year z' * 12 + march_month z' + 2" "1 \<le> m'" "m' \<le> 12"
  shows "z < z' \<longleftrightarrow> y < y' \<or> y = y' \<and> (m < m' \<or> m = m' \<and> march_day z < march_day z')"
proof -
  have day: "date_no z = (y * 12 + (m - 1) - 2) * 32 + march_day z"
    "date_no z' = (y' * 12 + (m' - 1) - 2) * 32 + march_day z'"
    using assms by (simp_all add: date_no_def)
  have "z < z' \<longleftrightarrow> date_no z < date_no z'"
    using date_no_strict_mono[of z z'] date_no_strict_mono[of z' z] by (cases z z' rule: linorder_cases) auto
  also have "\<dots> \<longleftrightarrow> y * 12 + (m - 1) < y' * 12 + (m' - 1) \<or>
      y * 12 + (m - 1) = y' * 12 + (m' - 1) \<and> march_day z < march_day z'"
    unfolding day using march_day_range[of z] march_day_range[of z'] by (subst radix_less) auto
  finally have z: "z < z' \<longleftrightarrow> y * 12 + (m - 1) < y' * 12 + (m' - 1) \<or>
      y * 12 + (m - 1) = y' * 12 + (m' - 1) \<and> march_day z < march_day z'" .
  have lt: "y * 12 + (m - 1) < y' * 12 + (m' - 1) \<longleftrightarrow> y < y' \<or> y = y' \<and> m < m'"
    using assms(2,3,5,6) by (subst radix_less) simp_all
  have eq: "y * 12 + (m - 1) = y' * 12 + (m' - 1) \<longleftrightarrow> y = y' \<and> m = m'"
    using assms(2,3,5,6) by (subst radix_eq) simp_all
  show ?thesis unfolding z lt eq by blast
qed

lemma time_less_iff:
  fixes h mi s h' mi' s' :: int
  assumes "0 \<le> mi" "mi < 60" "0 \<le> s" "s < 60" "0 \<le> mi'" "mi' < 60" "0 \<le> s'" "s' < 60"
  shows "h * 3600 + mi * 60 + s < h' * 3600 + mi' * 60 + s' \<longleftrightarrow>
    h < h' \<or> h = h' \<and> (mi < mi' \<or> mi = mi' \<and> s < s')"
proof -
  have e: "x * 3600 + y * 60 + z = (x * 60 + y) * 60 + z" for x y z :: int by simp
  show ?thesis unfolding e radix_less[OF assms(3,4,7,8)] radix_less[OF assms(1,2,5,6)]
      radix_eq[OF assms(1,2,5,6)] by blast
qed

lemma civil_order:
  assumes r: "civil_range a" "civil_range b"
    and a: "secs_to_ymdhms a = (y, m, d, h, mi, s)"
    and b: "secs_to_ymdhms b = (y', m', d', h', mi', s')"
  shows "a < b \<longleftrightarrow>
    y < y' \<or> y = y' \<and> (m < m' \<or> m = m' \<and> (d < d' \<or> d = d' \<and> (h < h' \<or> h = h' \<and>
      (mi < mi' \<or> mi = mi' \<and> s < s'))))"
proof -
  define z z' where "z = a div 86400 + 719468" and "z' = b div 86400 + 719468"
  note fa = civil_fields[OF r(1) a, folded z_def] and fb = civil_fields[OF r(2) b, folded z'_def]
  have lt: "z < z' \<longleftrightarrow> y < y' \<or> y = y' \<and> (m < m' \<or> m = m' \<and> d < d')"
    using fa fb date_less_iff[of y m z y' m' z'] by blast
  have gt: "z' < z \<longleftrightarrow> y' < y \<or> y' = y \<and> (m' < m \<or> m' = m \<and> d' < d)"
    using fa fb date_less_iff[of y' m' z' y m z] by blast
  have t: "a mod 86400 < b mod 86400 \<longleftrightarrow> h < h' \<or> h = h' \<and> (mi < mi' \<or> mi = mi' \<and> s < s')"
    using fa fb time_less_iff[of mi s mi' s' h h'] by metis
  have "a < b \<longleftrightarrow> a div 86400 * 86400 + a mod 86400 < b div 86400 * 86400 + b mod 86400" by simp
  also have "\<dots> \<longleftrightarrow> z < z' \<or> \<not> z' < z \<and> a mod 86400 < b mod 86400"
    by (subst radix_less) (auto simp: z_def z'_def)
  finally show ?thesis unfolding lt gt t by auto
qed

text \<open>
  C34. Comparing timestamps as strings, as the windows, delegation links, revocations and approvals
  do, is comparing the instants: for clock readings whose year has four digits, the formatted
  strings are ordered like the readings.
\<close>

theorem timestamp_order:
  assumes "civil_range a" "civil_range b"
  shows "now_iso8601 a < now_iso8601 b \<longleftrightarrow> a < b"
proof -
  obtain y m d h mi s where a: "secs_to_ymdhms a = (y, m, d, h, mi, s)" by (metis prod_cases6)
  obtain y' m' d' h' mi' s' where b: "secs_to_ymdhms b = (y', m', d', h', mi', s')" by (metis prod_cases6)
  show ?thesis
    unfolding now_iso8601_stamp[OF assms(1) a] now_iso8601_stamp[OF assms(2) b]
      civil_order[OF assms a b]
    using civil_fields[OF assms(1) a] civil_fields[OF assms(2) b]
      march_day_range[of "a div 86400 + 719468"] march_day_range[of "b div 86400 + 719468"]
    by (intro stamp_less_iff) auto
qed

theorem timestamp_order_witness:
  "now_iso8601 951782399 < now_iso8601 951782400"
  by (subst timestamp_order) (simp_all add: civil_range_def)

lemma str_get_ascii:
  assumes "list_all (\<lambda>c. (of_char c :: nat) < 128) s" "a \<le> b" "b \<le> length s"
  shows "str_get s a b = Some (take (b - a) (drop a s))"
proof -
  have "is_char_boundary s i" if "i \<le> length s" for i
    using assms(1) that by (auto simp: is_char_boundary_def list_all_length le_less)
  with assms show ?thesis by (simp add: str_get_def)
qed

lemma stamp_ascii: "list_all (\<lambda>c. (of_char c :: nat) < 128) (stamp y m d h mi s)"
  using fixed_digits_digits is_digit_ascii by (auto simp: stamp_def list_all_iff)

lemma parse_stamp:
  assumes "0 \<le> y" "y \<le> 9999" "0 \<le> m" "m \<le> 12" "0 \<le> d" "d \<le> 31" "0 \<le> h" "h < 24" "0 \<le> mi" "mi < 60"
      "0 \<le> s" "s < 60"
  shows "parse_iso8601 (stamp y m d h mi s) = Some (unix_from_civil y m d h mi s)"
proof -
  have len: "length (stamp y m d h mi s) = 20" by (simp add: stamp_def)
  have sg: "a \<le> b \<Longrightarrow> b \<le> 20 \<Longrightarrow>
      str_get (stamp y m d h mi s) a b = Some (take (b - a) (drop a (stamp y m d h mi s)))" for a b
    using str_get_ascii[OF stamp_ascii] len by metis
  have g: "str_get (stamp y m d h mi s) 0 4 = Some (fixed_digits 4 (nat y))"
    "str_get (stamp y m d h mi s) 5 7 = Some (fixed_digits 2 (nat m))"
    "str_get (stamp y m d h mi s) 8 10 = Some (fixed_digits 2 (nat d))"
    "str_get (stamp y m d h mi s) 11 13 = Some (fixed_digits 2 (nat h))"
    "str_get (stamp y m d h mi s) 14 16 = Some (fixed_digits 2 (nat mi))"
    "str_get (stamp y m d h mi s) 17 19 = Some (fixed_digits 2 (nat s))"
    by (subst sg; simp add: stamp_def)+
  show ?thesis
    unfolding parse_iso8601_def g using assms len by (simp add: parse_fixed)
qed

text \<open>
  Timestamps round-trip: parsing what the clock formats gives the reading back, for every
  reading whose year has four digits, leap days and negative readings included.
\<close>

lemma timestamp_roundtrip:
  assumes "civil_range secs"
  shows "parse_iso8601 (now_iso8601 secs) = Some secs"
proof -
  obtain y m d h mi s where a: "secs_to_ymdhms secs = (y, m, d, h, mi, s)" by (metis prod_cases6)
  from civil_fields[OF assms a] march_day_range[of "secs div 86400 + 719468"] show ?thesis
    unfolding now_iso8601_stamp[OF assms a] by (subst parse_stamp) auto
qed

end
