(* ===== verification/Canonical.thy ===== *)
theory Canonical
  imports Decimal Json "HOL-Library.Multiset"
begin

text \<open>
  \<open>crates/tf-types/src/canonical.rs\<close>: the deterministic JSON serialisation under every signature and
  digest of the system. Unicode normalisation (\<open>unicode_normalization::nfc\<close>) is the parameter \<open>nfc\<close>;
  the shortest decimal that \<open>Display\<close> gives for a float that is not an integer below \<open>1e16\<close> is the
  parameter \<open>fmt_f64\<close>. The source sorts the entries and then encodes each value; here the values are
  encoded first and the pairs sorted, which gives the same text and the same first error, because
  the sort is stable and looks only at the keys.
\<close>

subsection \<open>Floats\<close>

text \<open>The fields of an IEEE 754 double, and its value when that is an integer.\<close>

definition f64_sign :: "64 word \<Rightarrow> bool" where
  "f64_sign b = bit b 63"

definition f64_exp :: "64 word \<Rightarrow> nat" where
  "f64_exp b = unat (drop_bit 52 b) mod 2048"

definition f64_frac :: "64 word \<Rightarrow> nat" where
  "f64_frac b = unat b mod 2 ^ 52"

definition f64_is_finite :: "64 word \<Rightarrow> bool" where
  "f64_is_finite b = (f64_exp b \<noteq> 2047)"

definition f64_mantissa :: "64 word \<Rightarrow> nat" where
  "f64_mantissa b = (if f64_exp b = 0 then f64_frac b else 2 ^ 52 + f64_frac b)"

definition f64_integer :: "64 word \<Rightarrow> int option" where
  "f64_integer b =
     (let e = max 1 (f64_exp b); m = f64_mantissa b; sg = (if f64_sign b then - 1 else 1)
      in if e \<ge> 1075 then Some (sg * int (m * 2 ^ (e - 1075)))
         else if m mod 2 ^ (1075 - e) = 0 then Some (sg * int (m div 2 ^ (1075 - e)))
         else None)"

subsection \<open>Encoding\<close>

datatype canonical_json_error = NonFinite "64 word"

definition as_i64 :: "json_number \<Rightarrow> int option" where
  "as_i64 n = (case n of
      PosInt u \<Rightarrow> if unat u < 2 ^ 63 then Some (int (unat u)) else None
    | NegInt i \<Rightarrow> Some (sint i)
    | Float f \<Rightarrow> None)"

definition as_u64 :: "json_number \<Rightarrow> nat option" where
  "as_u64 n = (case n of PosInt u \<Rightarrow> Some (unat u) | _ \<Rightarrow> None)"

definition as_f64 :: "json_number \<Rightarrow> 64 word option" where
  "as_f64 n = (case n of Float f \<Rightarrow> Some f | _ \<Rightarrow> None)"

definition encode_number :: "(64 word \<Rightarrow> string) \<Rightarrow> json_number \<Rightarrow> canonical_json_error + string" where
  "encode_number fmt_f64 n =
     (case as_i64 n of
        Some i \<Rightarrow> Inr (show_int i)
      | None \<Rightarrow>
     (case as_u64 n of
        Some u \<Rightarrow> Inr (show_nat u)
      | None \<Rightarrow>
     (case as_f64 n of
        Some f \<Rightarrow>
          if \<not> f64_is_finite f then Inl (NonFinite f)
          else if f64_integer f = Some 0 then Inr ''0''
          else (case f64_integer f of
              Some i \<Rightarrow> if \<bar>i\<bar> < 10 ^ 16 then Inr (show_int i) else Inr (fmt_f64 f)
            | None \<Rightarrow> Inr (fmt_f64 f))
      | None \<Rightarrow> Inr [])))"

definition hex4 :: "nat \<Rightarrow> string" where
  "hex4 n = [hex_digit (n div 4096 mod 16), hex_digit (n div 256 mod 16), hex_digit (n div 16 mod 16),
     hex_digit (n mod 16)]"

definition escape_char :: "char \<Rightarrow> string" where
  "escape_char c =
     (if c = CHR 0x22 then [CHR 0x5C, CHR 0x22]
      else if c = CHR 0x5C then [CHR 0x5C, CHR 0x5C]
      else if c = CHR 0x0A then [CHR 0x5C, CHR ''n'']
      else if c = CHR 0x0D then [CHR 0x5C, CHR ''r'']
      else if c = CHR 0x09 then [CHR 0x5C, CHR ''t'']
      else if c = CHR 0x08 then [CHR 0x5C, CHR ''b'']
      else if c = CHR 0x0C then [CHR 0x5C, CHR ''f'']
      else if (of_char c :: nat) < 32 then CHR 0x5C # CHR ''u'' # hex4 (of_char c)
      else [c])"

definition write_json_string :: "string \<Rightarrow> string" where
  "write_json_string s = CHR 0x22 # concat (map escape_char s) @ [CHR 0x22]"

text \<open>\<open>encode(x)?\<close> over a list: the first error, or all the texts.\<close>

fun collect :: "('e + 'a) list \<Rightarrow> 'e + 'a list" where
  "collect [] = Inr []"
| "collect (r # rs) = rbind r (\<lambda>x. rbind (collect rs) (\<lambda>xs. Inr (x # xs)))"

text \<open>\<open>sort_by\<close> on the first component: a stable sort.\<close>

definition sort_entries :: "(string \<times> 'a) list \<Rightarrow> (string \<times> 'a) list" where
  "sort_entries es = sort_key fst es"

fun encode :: "(string \<Rightarrow> string) \<Rightarrow> (64 word \<Rightarrow> string) \<Rightarrow> json \<Rightarrow> canonical_json_error + string" where
  "encode nfc fmt JNull = Inr ''null''"
| "encode nfc fmt (JBool b) = Inr (if b then ''true'' else ''false'')"
| "encode nfc fmt (JNumber n) = encode_number fmt n"
| "encode nfc fmt (JString s) = Inr (write_json_string (nfc s))"
| "encode nfc fmt (JArray xs) =
     rbind (collect (map (encode nfc fmt) xs)) (\<lambda>ts. Inr (''['' @ str_join '','' ts @ '']''))"
| "encode nfc fmt (JObject es) =
     rbind (collect (map (\<lambda>(k, r). rbind r (\<lambda>t. Inr (write_json_string k @ '':'' @ t)))
              (sort_entries (map (\<lambda>(k, v). (nfc k, encode nfc fmt v)) es))))
       (\<lambda>ts. Inr (''{'' @ str_join '','' ts @ ''}''))"

definition canonicalize :: "(string \<Rightarrow> string) \<Rightarrow> (64 word \<Rightarrow> string) \<Rightarrow> json \<Rightarrow> canonical_json_error + string" where
  "canonicalize nfc fmt value = encode nfc fmt value"

subsection \<open>The document behind a canonical text\<close>

text \<open>What the text of a document depends on: normalised strings, integers as such, and entries in
  key order. A float counts as its integer value when it prints as one (\<open>int_like\<close>).\<close>

datatype njson =
    NNull
  | NBool bool
  | NInt int
  | NStr string
  | NArr "njson list"
  | NObj "(string \<times> njson) list"

fun int_like :: "json_number \<Rightarrow> bool" where
  "int_like (PosInt u) = True"
| "int_like (NegInt i) = True"
| "int_like (Float f) = (f64_is_finite f \<and> (case f64_integer f of Some i \<Rightarrow> \<bar>i\<bar> < 10 ^ 16 | None \<Rightarrow> False))"

fun number_value :: "json_number \<Rightarrow> int" where
  "number_value (PosInt u) = int (unat u)"
| "number_value (NegInt i) = sint i"
| "number_value (Float f) = (case f64_integer f of Some i \<Rightarrow> i | None \<Rightarrow> 0)"

fun frac_free :: "json \<Rightarrow> bool" where
  "frac_free (JNumber n) = int_like n"
| "frac_free (JArray xs) = list_all frac_free xs"
| "frac_free (JObject es) = list_all (\<lambda>(k, v). frac_free v) es"
| "frac_free v = True"

fun json_norm :: "(string \<Rightarrow> string) \<Rightarrow> json \<Rightarrow> njson" where
  "json_norm nfc JNull = NNull"
| "json_norm nfc (JBool b) = NBool b"
| "json_norm nfc (JNumber n) = NInt (number_value n)"
| "json_norm nfc (JString s) = NStr (nfc s)"
| "json_norm nfc (JArray xs) = NArr (map (json_norm nfc) xs)"
| "json_norm nfc (JObject es) = NObj (sort_entries (map (\<lambda>(k, v). (nfc k, json_norm nfc v)) es))"

fun render :: "njson \<Rightarrow> string" where
  "render NNull = ''null''"
| "render (NBool b) = (if b then ''true'' else ''false'')"
| "render (NInt i) = show_int i"
| "render (NStr s) = write_json_string s"
| "render (NArr xs) = ''['' @ str_join '','' (map render xs) @ '']''"
| "render (NObj es) =
     ''{'' @ str_join '','' (map (\<lambda>(k, v). write_json_string k @ '':'' @ render v) es) @ ''}''"

lemma collect_Inr: "collect (map (\<lambda>x. Inr (g x)) xs) = Inr (map g xs)"
  by (induction xs) auto

lemma sort_entries_map: "sort_entries (map (\<lambda>(k, v). (k, f v)) es) = map (\<lambda>(k, v). (k, f v)) (sort_entries es)"
proof -
  have "insort_key fst (k, f v) (map (\<lambda>(k, v). (k, f v)) es) = map (\<lambda>(k, v). (k, f v)) (insort_key fst (k, v) es)"
    for k v es by (induction es) auto
  note ins = this
  show ?thesis unfolding sort_entries_def by (induction es) (auto simp: ins)
qed

lemma set_sort_entries [simp]: "set (sort_entries es) = set es"
  by (simp add: sort_entries_def)

lemma encode_number_int_like: "int_like n \<Longrightarrow> encode_number fmt n = Inr (show_int (number_value n))"
proof (cases n)
  case (Float f)
  moreover have "show_int 0 = ''0''" by code_simp
  moreover assume "int_like n"
  ultimately show ?thesis
    by (auto simp: encode_number_def as_i64_def as_u64_def as_f64_def split: option.splits)
qed (auto simp: encode_number_def as_i64_def as_u64_def show_int_def)

lemma encode_render: "frac_free v \<Longrightarrow> encode nfc fmt v = Inr (render (json_norm nfc v))"
proof (induction nfc fmt v rule: encode.induct)
  case (5 nfc fmt xs)
  then have "map (encode nfc fmt) xs = map (\<lambda>x. Inr (render (json_norm nfc x))) xs"
    by (auto simp: list_all_iff)
  then show ?case by (simp del: map_eq_conv add: collect_Inr o_def)
next
  case (6 nfc fmt es)
  have IH: "encode nfc fmt v = Inr (render (json_norm nfc v))" if "(k, v) \<in> set es" for k v
    using 6 that by (auto simp: list_all_iff)
  then have e: "map (\<lambda>(k, v). (nfc k, encode nfc fmt v)) es =
      map (\<lambda>(k, n). (k, Inr (render n))) (map (\<lambda>(k, v). (nfc k, json_norm nfc v)) es)"
    by auto
  have "map (\<lambda>(k, r). rbind r (\<lambda>t. Inr (write_json_string k @ '':'' @ t)))
        (sort_entries (map (\<lambda>(k, v). (nfc k, encode nfc fmt v)) es)) =
      map (\<lambda>p. Inr ((\<lambda>(k, n). write_json_string k @ '':'' @ render n) p))
        (sort_entries (map (\<lambda>(k, v). (nfc k, json_norm nfc v)) es))"
    unfolding e sort_entries_map[where f = "\<lambda>n. Inr (render n)"] by auto
  then show ?case by (simp add: collect_Inr)
qed (simp_all add: encode_number_int_like)

subsection \<open>A text has one document\<close>

lemma hex_digit_inject: "m < 16 \<Longrightarrow> n < 16 \<Longrightarrow> hex_digit m = hex_digit n \<Longrightarrow> m = n"
proof -
  have "distinct (map hex_digit [0..<16])" by code_simp
  then have "inj_on hex_digit {0..<16}" by (simp add: distinct_map)
  then show "m < 16 \<Longrightarrow> n < 16 \<Longrightarrow> hex_digit m = hex_digit n \<Longrightarrow> m = n" by (auto dest: inj_onD)
qed

lemma hex4_inject:
  assumes "m < 32" "n < 32" "hex4 m = hex4 n" shows "m = n"
proof -
  have "m div 16 mod 16 = n div 16 mod 16" "m mod 16 = n mod 16"
    using assms(3) by (auto simp: hex4_def intro: hex_digit_inject)
  moreover have "m div 16 mod 16 = m div 16" "n div 16 mod 16 = n div 16"
    using assms(1,2) by (auto simp: less_mult_imp_div_less)
  ultimately show ?thesis by (metis div_mult_mod_eq)
qed

lemma length_hex4 [simp]: "length (hex4 n) = 4"
  by (simp add: hex4_def)

lemma escape_char_front: "\<exists>c' cs. escape_char c = c' # cs \<and> c' \<noteq> CHR 0x22"
  by (auto simp: escape_char_def)

lemma escape_char_inject:
  assumes "escape_char c @ x = escape_char d @ y"
  shows "c = d \<and> x = y"
proof (cases "(of_char c :: nat) < 32 \<and> (of_char d :: nat) < 32")
  case True
  then show ?thesis using assms hex4_inject[of "of_char c" "of_char d"]
    by (auto simp: escape_char_def split: if_splits)
next
  case False
  with assms show ?thesis by (auto simp: escape_char_def split: if_splits)
qed

lemma write_json_string_inject:
  "write_json_string s @ x = write_json_string t @ y \<Longrightarrow> s = t \<and> x = y"
proof -
  have "concat (map escape_char s) @ CHR 0x22 # x = concat (map escape_char t) @ CHR 0x22 # y \<Longrightarrow>
      s = t \<and> x = y"
  proof (induction s arbitrary: t)
    case Nil
    then show ?case using escape_char_front by (cases t) (auto, metis append_Cons list.inject)
  next
    case (Cons c s)
    show ?case
    proof (cases t)
      case Nil
      then show ?thesis using Cons.prems escape_char_front[of c] by auto
    next
      case (Cons d t')
      from Cons.prems Cons have "escape_char c @ concat (map escape_char s) @ CHR 0x22 # x =
          escape_char d @ concat (map escape_char t') @ CHR 0x22 # y" by simp
      then show ?thesis using escape_char_inject Cons.IH Cons by blast
    qed
  qed
  then show "write_json_string s @ x = write_json_string t @ y \<Longrightarrow> s = t \<and> x = y"
    by (simp add: write_json_string_def)
qed

text \<open>A renderer that can be read back in front of any text that does not begin with a digit, for
  the arguments in \<open>A\<close>.\<close>

definition readable_on :: "'a set \<Rightarrow> ('a \<Rightarrow> string) \<Rightarrow> bool" where
  "readable_on A r \<longleftrightarrow> (\<forall>a\<in>A. \<forall>b x y. r a @ x = r b @ y \<longrightarrow> no_digit_front x \<longrightarrow> no_digit_front y \<longrightarrow>
     a = b \<and> x = y)"

lemma readable_onD:
  "readable_on A r \<Longrightarrow> a \<in> A \<Longrightarrow> r a @ x = r b @ y \<Longrightarrow> no_digit_front x \<Longrightarrow> no_digit_front y \<Longrightarrow> a = b \<and> x = y"
  unfolding readable_on_def by blast

lemma readable_on_subset: "readable_on B r \<Longrightarrow> A \<subseteq> B \<Longrightarrow> readable_on A r"
  unfolding readable_on_def by blast

lemma readable_on_tail:
  assumes "readable_on (set xs) r" "c \<noteq> CHR '',''" "\<not> is_digit c"
    and "concat (map (\<lambda>a. CHR '','' # r a) xs) @ c # x = concat (map (\<lambda>a. CHR '','' # r a) ys) @ c # y"
  shows "xs = ys \<and> x = y"
  using assms
proof (induction xs arbitrary: ys)
  case Nil
  then show ?case by (cases ys) auto
next
  case (Cons a xs)
  have comma: "\<not> is_digit (CHR '','')" by code_simp
  show ?case
  proof (cases ys)
    case Nil
    then show ?thesis using Cons.prems by auto
  next
    case (Cons b ys')
    have front: "no_digit_front (concat (map (\<lambda>a. CHR '','' # r a) zs) @ c # z)" for zs z
      using Cons.prems(3) comma by (cases zs) (simp_all add: no_digit_front_def)
    from Cons.prems(4) Cons have "r a @ concat (map (\<lambda>a. CHR '','' # r a) xs) @ c # x =
        r b @ concat (map (\<lambda>a. CHR '','' # r a) ys') @ c # y" by simp
    then have "a = b \<and> concat (map (\<lambda>a. CHR '','' # r a) xs) @ c # x =
        concat (map (\<lambda>a. CHR '','' # r a) ys') @ c # y"
      using readable_onD[OF Cons.prems(1), of a] front by simp
    moreover have "readable_on (set xs) r" using Cons.prems(1) by (rule readable_on_subset) auto
    ultimately show ?thesis using Cons.IH[of ys'] Cons.prems(2,3) Cons by blast
  qed
qed

lemma str_join_Cons: "str_join sep (x # xs) = x @ concat (map (\<lambda>y. sep @ y) xs)"
  by (induction xs arbitrary: x) auto

lemma readable_on_join:
  assumes "readable_on (set xs) r" "c \<noteq> CHR '',''" "\<not> is_digit c"
    and front: "\<And>a. \<exists>c' cs. r a = c' # cs \<and> c' \<noteq> c"
    and "str_join '','' (map r xs) @ c # x = str_join '','' (map r ys) @ c # y"
  shows "xs = ys \<and> x = y"
proof (cases xs)
  case Nil
  then show ?thesis using assms(5) front by (cases ys) (auto simp: str_join_Cons, metis append_Cons list.inject)
next
  case (Cons a xs')
  note xs = this
  show ?thesis
  proof (cases ys)
    case Nil
    then show ?thesis using assms(5) front[of a] xs by (auto simp: str_join_Cons)
  next
    case (Cons b ys')
    have comma: "\<not> is_digit (CHR '','')" by code_simp
    have nd: "no_digit_front (concat (map (\<lambda>a. CHR '','' # r a) zs) @ c # z)" for zs z
      using assms(3) comma by (cases zs) (simp_all add: no_digit_front_def)
    have "r a @ concat (map (\<lambda>a. CHR '','' # r a) xs') @ c # x = r b @ concat (map (\<lambda>a. CHR '','' # r a) ys') @ c # y"
      using assms(5) xs Cons by (simp add: str_join_Cons o_def)
    then have "a = b \<and> concat (map (\<lambda>a. CHR '','' # r a) xs') @ c # x = concat (map (\<lambda>a. CHR '','' # r a) ys') @ c # y"
      using readable_onD[OF assms(1), of a] nd xs by simp
    moreover have "readable_on (set xs') r" using assms(1) by (rule readable_on_subset) (auto simp: xs)
    ultimately show ?thesis using readable_on_tail assms(2,3) xs Cons by blast
  qed
qed

fun front_of :: "njson \<Rightarrow> char \<Rightarrow> bool" where
  "front_of NNull c = (c = CHR ''n'')"
| "front_of (NBool b) c = (c = (if b then CHR ''t'' else CHR ''f''))"
| "front_of (NInt i) c = (is_digit c \<or> c = CHR ''-'')"
| "front_of (NStr s) c = (c = CHR 0x22)"
| "front_of (NArr xs) c = (c = CHR ''['')"
| "front_of (NObj es) c = (c = CHR ''{'')"

lemma not_digit [simp]:
  "\<not> is_digit (CHR ''n'')" "\<not> is_digit (CHR ''t'')" "\<not> is_digit (CHR ''f'')" "\<not> is_digit (CHR 0x22)"
  "\<not> is_digit (CHR ''['')" "\<not> is_digit (CHR ''{'')" "\<not> is_digit (CHR '']'')" "\<not> is_digit (CHR ''}'')"
  "\<not> is_digit (CHR '':'')" "\<not> is_digit (CHR '','')"
  by code_simp+

lemma render_front: "\<exists>c cs. render a = c # cs \<and> front_of a c"
  using show_int_front by (cases a) (auto simp: write_json_string_def)

lemma front_of_kind: "front_of a c \<Longrightarrow> front_of b c \<Longrightarrow>
   (a = NNull \<longleftrightarrow> b = NNull) \<and> ((\<exists>p. a = NBool p) \<longleftrightarrow> (\<exists>p. b = NBool p)) \<and>
   ((\<exists>p. a = NInt p) \<longleftrightarrow> (\<exists>p. b = NInt p)) \<and> ((\<exists>p. a = NStr p) \<longleftrightarrow> (\<exists>p. b = NStr p)) \<and>
   ((\<exists>p. a = NArr p) \<longleftrightarrow> (\<exists>p. b = NArr p)) \<and> ((\<exists>p. a = NObj p) \<longleftrightarrow> (\<exists>p. b = NObj p))"
  by (cases a; cases b) (auto split: if_splits)

lemma render_kind:
  assumes "render a @ x = render b @ y"
  shows "(a = NNull \<longleftrightarrow> b = NNull) \<and> ((\<exists>p. a = NBool p) \<longleftrightarrow> (\<exists>p. b = NBool p)) \<and>
   ((\<exists>p. a = NInt p) \<longleftrightarrow> (\<exists>p. b = NInt p)) \<and> ((\<exists>p. a = NStr p) \<longleftrightarrow> (\<exists>p. b = NStr p)) \<and>
   ((\<exists>p. a = NArr p) \<longleftrightarrow> (\<exists>p. b = NArr p)) \<and> ((\<exists>p. a = NObj p) \<longleftrightarrow> (\<exists>p. b = NObj p))"
  using assms render_front[of a] render_front[of b] front_of_kind[of a _ b] by auto

lemma render_not_close: "\<exists>c' cs. render a = c' # cs \<and> c' \<noteq> CHR '']''"
  using render_front[of a] by (cases a) (auto split: if_splits)

lemma render_inject:
  "render a @ x = render b @ y \<Longrightarrow> no_digit_front x \<Longrightarrow> no_digit_front y \<Longrightarrow> a = b \<and> x = y"
proof (induction a arbitrary: b x y rule: render.induct)
  case 1
  with render_kind[OF 1(1)] show ?case by auto
next
  case (2 p)
  with render_kind[OF 2(1)] show ?case by (auto split: if_splits)
next
  case (3 i)
  with render_kind[OF 3(1)] show ?case by (auto dest: show_int_inject_front)
next
  case (4 s)
  with render_kind[OF 4(1)] show ?case by (auto dest: write_json_string_inject)
next
  case (5 xs)
  from render_kind[OF 5(2)] obtain ys where b: "b = NArr ys" by blast
  have "readable_on (set xs) render" using 5(1) by (auto simp: readable_on_def)
  then have "xs = ys \<and> x = y"
    using 5(2) by (intro readable_on_join[where r = render and c = "CHR '']''", OF _ _ _ render_not_close])
      (auto simp: b)
  with b show ?case by simp
next
  case (6 es)
  from render_kind[OF 6(2)] obtain fs where b: "b = NObj fs" by blast
  let ?r = "\<lambda>(k, v). write_json_string k @ '':'' @ render v"
  have "p = q \<and> u = v" if p: "p \<in> set es" "?r p @ u = ?r q @ v" "no_digit_front u" "no_digit_front v" for p q u v
  proof -
    obtain k n k' n' where kn: "p = (k, n)" "q = (k', n')" by fastforce
    with p(2) have "k = k'" "render n @ u = render n' @ v"
      using write_json_string_inject[of k "'':'' @ render n @ u" k' "'':'' @ render n' @ v"] by simp_all
    then show ?thesis using 6(1)[OF _ _ _ p(3,4)] p(1) kn by blast
  qed
  then have "readable_on (set es) ?r" unfolding readable_on_def by blast
  moreover have front: "\<exists>c' cs. ?r p = c' # cs \<and> c' \<noteq> CHR ''}''" for p
    by (cases p) (simp add: write_json_string_def)
  ultimately have "es = fs \<and> x = y"
    using 6(2) by (intro readable_on_join[where r = ?r and c = "CHR ''}''", OF _ _ _ front]) (auto simp: b)
  with b show ?case by simp
qed

lemma canonicalize_eq_iff:
  assumes "frac_free v" "frac_free w"
  shows "canonicalize nfc fmt v = Inr (render (json_norm nfc v))"
    and "canonicalize nfc fmt v = canonicalize nfc fmt w \<longleftrightarrow> json_norm nfc v = json_norm nfc w"
proof -
  have "no_digit_front []" by (simp add: no_digit_front_def)
  then have "render a = render b \<Longrightarrow> a = b" for a b
    using render_inject[of a "[]" b "[]"] by simp
  then show "canonicalize nfc fmt v = Inr (render (json_norm nfc v))"
    and "canonicalize nfc fmt v = canonicalize nfc fmt w \<longleftrightarrow> json_norm nfc v = json_norm nfc w"
    using assms by (auto simp: canonicalize_def encode_render)
qed

text \<open>
  C27. A canonical text has one document: canonicalisation never fails on documents without
  fractional or non-finite numbers, and two of them get the same text exactly when they agree up
  to the normalisation of strings, the order of entries and the representation of integers. A
  signature over the text therefore binds the document.
\<close>

theorem canonicalize_injective:
  assumes "frac_free v" "frac_free w"
  shows "(\<exists>s. canonicalize nfc fmt v = Inr s) \<and>
    (canonicalize nfc fmt v = canonicalize nfc fmt w \<longleftrightarrow> json_norm nfc v = json_norm nfc w)"
  using canonicalize_eq_iff[OF assms] by simp

theorem canonicalize_injective_witness:
  "canonicalize (\<lambda>s. s) (\<lambda>_. []) (JObject [(''b'', JNumber (PosInt 1)), (''a'', JString ''x'')]) \<noteq>
   canonicalize (\<lambda>s. s) (\<lambda>_. []) (JObject [(''a'', JString ''x''), (''b'', JNumber (PosInt 2))])"
  using canonicalize_injective[of "JObject [(''b'', JNumber (PosInt 1)), (''a'', JString ''x'')]"
      "JObject [(''a'', JString ''x''), (''b'', JNumber (PosInt 2))]" "\<lambda>s. s" "\<lambda>_. []"]
  by (simp add: sort_entries_def)

text \<open>
  The order in which an object lists its entries does not matter: any two orders of entries
  whose normalised keys are distinct give the same text (or the same error).
\<close>

lemma canonicalize_entry_order:
  assumes "mset es = mset fs" "distinct (map (\<lambda>(k, v). nfc k) es)"
  shows "canonicalize nfc fmt (JObject es) = canonicalize nfc fmt (JObject fs)"
proof -
  let ?f = "\<lambda>(k, v). (nfc k, encode nfc fmt v)"
  have "distinct (map (fst \<circ> ?f) es)" using assms(2) by (simp add: case_prod_beta' o_def)
  then have "inj_on fst (set (map ?f es))"
    by (metis distinct_map map_map distinct_map)
  moreover have "mset (map ?f es) = mset (map ?f fs)" using assms(1) by simp
  ultimately have "sort_key fst (map ?f es) = sort_key fst (map ?f fs)"
    by (intro sort_key_inj_key_eq) simp_all
  then show ?thesis by (simp add: canonicalize_def sort_entries_def)
qed

end
