(* ===== verification/Policy_Engine.thy ===== *)
theory Policy_Engine
  imports Guard Canonical Clock
begin

text \<open>
  \<open>crates/tf-types/src/policy_engine.rs\<close>: the native policy engine and the dispatcher over engines.
  The \<open>regex\<close> crate is the parameter \<open>regex_new\<close> (\<open>None\<close> for a pattern it rejects, otherwise the
  \<open>is_match\<close> predicate), SHA-256 is \<open>sha256\<close>, and the system clock is the reading \<open>clock\<close>. The Cedar
  and Rego back ends behind the \<open>PolicyEngineImpl\<close> trait are functions from queries to decisions.
\<close>

subsection \<open>Data\<close>

record policy_query =
  pq_subject :: string
  pq_instance :: "string option"
  pq_action :: string
  pq_target :: "string option"
  pq_context :: "(string \<times> json) list"
  pq_negative_capabilities :: "negative_capability list"
  pq_enforcement_level :: "string option"
  pq_now :: "string option"

record policy_decision =
  pd_decision_version :: string
  pd_policy_engine :: string
  pd_engine_version :: "string option"
  pd_trust_domain :: string
  pd_subject :: string
  pd_instance :: "string option"
  pd_action :: string
  pd_target :: "string option"
  pd_decision :: string
  pd_rule_id :: "string option"
  pd_reason :: "string option"
  pd_approval :: "string option"
  pd_proof_required :: "string option"
  pd_constraints_applied :: "json list option"
  pd_negative_capabilities_consulted :: "negative_capability list option"
  pd_enforcement_level :: "string option"
  pd_evaluated_at :: string
  pd_policy_manifest_hash :: "string option"
  pd_context :: "(string \<times> json) list option"

record policy_rule =
  pr_id :: string
  pr_effect :: string
  pr_action :: "string option"
  pr_action_pattern :: "string option"
  pr_subject_pattern :: "string option"
  pr_target_patterns :: "string list option"
  pr_approval :: "string option"
  pr_proof_required :: "string option"
  pr_constraints :: "json list option"
  pr_reason :: "string option"

record quorum_defaults =
  qd_min_approvers :: "32 word"
  qd_of :: "string list"

record policy_manifest =
  pm_policy_version :: string
  pm_trust_domain :: string
  pm_engine_hint :: "string option"
  pm_rules :: "policy_rule list"
  pm_negative_capabilities :: "negative_capability list"
  pm_continuous_reevaluation :: "string list option"
  pm_quorum_defaults :: "quorum_defaults option"

record native_policy_engine =
  ne_policy :: policy_manifest
  ne_manifest_hash :: string

type_synonym regex_crate = "string \<Rightarrow> (string \<Rightarrow> bool) option"

subsection \<open>Construction: the manifest hash\<close>

text \<open>\<open>serde_json::to_value\<close> on the manifest: the derived serialiser, an absent option as \<open>null\<close>
  except for the fields of a negative capability, which are skipped.\<close>

definition negative_capability_json :: "negative_capability \<Rightarrow> json" where
  "negative_capability_json n = JObject (sort_entries
     ([(''name'', JString (nc_name n))] @ skip_none ''target'' JString (nc_target n) @
      skip_none ''reason'' JString (nc_reason n) @ skip_none ''overrides'' strings_json (nc_overrides n)))"

definition policy_rule_json :: "policy_rule \<Rightarrow> json" where
  "policy_rule_json r = JObject (sort_entries
     [(''id'', JString (pr_id r)), (''effect'', JString (pr_effect r)),
      (''action'', opt_json JString (pr_action r)),
      (''action_pattern'', opt_json JString (pr_action_pattern r)),
      (''subject_pattern'', opt_json JString (pr_subject_pattern r)),
      (''target_patterns'', opt_json strings_json (pr_target_patterns r)),
      (''approval'', opt_json JString (pr_approval r)),
      (''proof_required'', opt_json JString (pr_proof_required r)),
      (''constraints'', opt_json JArray (pr_constraints r)),
      (''reason'', opt_json JString (pr_reason r))])"

definition policy_manifest_json :: "policy_manifest \<Rightarrow> json" where
  "policy_manifest_json p = JObject (sort_entries
     [(''policy_version'', JString (pm_policy_version p)),
      (''trust_domain'', JString (pm_trust_domain p)),
      (''engine_hint'', opt_json JString (pm_engine_hint p)),
      (''rules'', JArray (map policy_rule_json (pm_rules p))),
      (''negative_capabilities'', JArray (map negative_capability_json (pm_negative_capabilities p))),
      (''continuous_reevaluation'',
        opt_json (\<lambda>ts. JObject [(''triggers'', strings_json ts)]) (pm_continuous_reevaluation p)),
      (''quorum_defaults'',
        opt_json (\<lambda>q. JObject (sort_entries
            [(''min_approvers'', JNumber (PosInt (ucast (qd_min_approvers q)))),
             (''of'', strings_json (qd_of q))]))
          (pm_quorum_defaults p))])"

definition engine_new ::
    "(string \<Rightarrow> string) \<Rightarrow> (64 word \<Rightarrow> string) \<Rightarrow> (bytes \<Rightarrow> bytes) \<Rightarrow> policy_manifest \<Rightarrow> native_policy_engine" where
  "engine_new nfc fmt sha256 policy =
     (let canonical = (case canonicalize nfc fmt (policy_manifest_json policy) of Inr s \<Rightarrow> s | Inl _ \<Rightarrow> []);
          hex = hex_lower (sha256 (as_bytes canonical))
      in \<lparr>ne_policy = policy, ne_manifest_hash = ''sha256-'' @ hex\<rparr>)"

subsection \<open>Matching\<close>

definition regex_accepts :: "regex_crate \<Rightarrow> string option \<Rightarrow> string \<Rightarrow> bool" where
  "regex_accepts regex_new pattern text =
     (case pattern of
        None \<Rightarrow> True
      | Some p \<Rightarrow> (case regex_new p of None \<Rightarrow> False | Some is_match \<Rightarrow> is_match text))"

definition rule_matches :: "regex_crate \<Rightarrow> policy_rule \<Rightarrow> policy_query \<Rightarrow> bool" where
  "rule_matches regex_new rule query =
     (if (case pr_action rule of Some action \<Rightarrow> action \<noteq> pq_action query | None \<Rightarrow> False) then False
      else if \<not> regex_accepts regex_new (pr_action_pattern rule) (pq_action query) then False
      else if \<not> regex_accepts regex_new (pr_subject_pattern rule) (pq_subject query) then False
      else case pr_target_patterns rule of
        Some targets \<Rightarrow>
          if targets \<noteq> [] then
            (case pq_target query of
               None \<Rightarrow> False
             | Some target \<Rightarrow> list_ex (\<lambda>p. glob_match p target) targets)
          else True
      | None \<Rightarrow> True)"

definition negative_matches :: "negative_capability \<Rightarrow> policy_query \<Rightarrow> bool" where
  "negative_matches neg q =
     (if nc_name neg \<noteq> pq_action q then False
      else case nc_target neg of
        None \<Rightarrow> True
      | Some target_pattern \<Rightarrow>
          (case pq_target q of None \<Rightarrow> False | Some t \<Rightarrow> glob_match target_pattern t))"

subsection \<open>Evaluation\<close>

definition nonempty :: "'a list option \<Rightarrow> 'a list option" where
  "nonempty x = (case x of Some xs \<Rightarrow> if xs \<noteq> [] then Some xs else None | None \<Rightarrow> None)"

definition context_of :: "policy_query \<Rightarrow> (string \<times> json) list option" where
  "context_of query = (if pq_context query = [] then None else Some (pq_context query))"

definition decision ::
    "native_policy_engine \<Rightarrow> policy_query \<Rightarrow> string \<Rightarrow> string \<Rightarrow> string option \<Rightarrow> json list option \<Rightarrow>
     string option \<Rightarrow> string option \<Rightarrow> negative_capability list option \<Rightarrow> string \<Rightarrow> policy_decision" where
  "decision eng query dec reason rule_id constraints proof approval neg_caps now = \<lparr>
     pd_decision_version = ''1'', pd_policy_engine = ''native'',
     pd_engine_version = Some ''tf-policy-native-0.1.0'',
     pd_trust_domain = pm_trust_domain (ne_policy eng),
     pd_subject = pq_subject query, pd_instance = pq_instance query, pd_action = pq_action query,
     pd_target = pq_target query, pd_decision = dec, pd_rule_id = rule_id,
     pd_reason = Some reason, pd_approval = approval, pd_proof_required = proof,
     pd_constraints_applied = nonempty constraints,
     pd_negative_capabilities_consulted = nonempty neg_caps,
     pd_enforcement_level = pq_enforcement_level query, pd_evaluated_at = now,
     pd_policy_manifest_hash = Some (ne_manifest_hash eng), pd_context = context_of query\<rparr>"

definition unavailable_decision :: "int \<Rightarrow> string \<Rightarrow> policy_query \<Rightarrow> string \<Rightarrow> policy_decision" where
  "unavailable_decision clock engine query trust_domain = \<lparr>
     pd_decision_version = ''1'', pd_policy_engine = engine,
     pd_engine_version = Some (engine @ ''-stub''),
     pd_trust_domain = trust_domain,
     pd_subject = pq_subject query, pd_instance = pq_instance query, pd_action = pq_action query,
     pd_target = pq_target query, pd_decision = ''deny'', pd_rule_id = None,
     pd_reason = Some (engine @ '' engine not configured for this dispatcher (no adapter supplied)''),
     pd_approval = None, pd_proof_required = None, pd_constraints_applied = None,
     pd_negative_capabilities_consulted = None,
     pd_enforcement_level = pq_enforcement_level query, pd_evaluated_at = now_iso8601 clock,
     pd_policy_manifest_hash = None, pd_context = context_of query\<rparr>"

text \<open>The decision of one matching rule; \<open>None\<close> when the effect is unknown and the loop continues.\<close>

definition apply_rule ::
    "native_policy_engine \<Rightarrow> policy_query \<Rightarrow> negative_capability list \<Rightarrow> string \<Rightarrow> policy_rule \<Rightarrow>
     policy_decision option" where
  "apply_rule eng query neg_caps now rule =
     (let reason = unwrap_or (pr_reason rule) (''matched rule '' @ pr_id rule) in
      if pr_effect rule = ''allow'' then
        Some (decision eng query ''allow'' reason (Some (pr_id rule)) (pr_constraints rule)
          (pr_proof_required rule) (pr_approval rule) (Some neg_caps) now)
      else if pr_effect rule = ''deny'' then
        Some (decision eng query ''deny'' reason (Some (pr_id rule)) None None None (Some neg_caps) now)
      else if pr_effect rule = ''escalate'' then
        Some (decision eng query
          (if pr_approval rule = Some ''quorum'' then ''escalate'' else ''approval-required'')
          reason (Some (pr_id rule)) (pr_constraints rule) (pr_proof_required rule)
          (opt_or (pr_approval rule) (Some ''required'')) (Some neg_caps) now)
      else if pr_effect rule = ''log_only'' then
        Some (decision eng query ''log-only'' reason (Some (pr_id rule)) (pr_constraints rule)
          (pr_proof_required rule) None (Some neg_caps) now)
      else None)"

fun eval_rules ::
    "regex_crate \<Rightarrow> native_policy_engine \<Rightarrow> policy_query \<Rightarrow> negative_capability list \<Rightarrow> string \<Rightarrow>
     policy_rule list \<Rightarrow> policy_decision" where
  "eval_rules regex_new eng query neg_caps now [] =
     decision eng query ''deny'' ''no matching rule (default deny)'' None None None None
       (Some neg_caps) now"
| "eval_rules regex_new eng query neg_caps now (rule # rules) =
     (if \<not> rule_matches regex_new rule query then eval_rules regex_new eng query neg_caps now rules
      else case apply_rule eng query neg_caps now rule of
        Some d \<Rightarrow> d
      | None \<Rightarrow> eval_rules regex_new eng query neg_caps now rules)"

definition neg_caps_of :: "native_policy_engine \<Rightarrow> policy_query \<Rightarrow> negative_capability list" where
  "neg_caps_of eng query =
     (if pq_negative_capabilities query = [] then pm_negative_capabilities (ne_policy eng)
      else pq_negative_capabilities query)"

definition evaluate :: "regex_crate \<Rightarrow> int \<Rightarrow> native_policy_engine \<Rightarrow> policy_query \<Rightarrow> policy_decision" where
  "evaluate regex_new clock eng query =
     (let now = unwrap_or (pq_now query) (now_iso8601 clock);
          neg_caps = neg_caps_of eng query
      in case find (\<lambda>neg. negative_matches neg query) neg_caps of
           Some neg \<Rightarrow>
             decision eng query ''deny''
               (unwrap_or (nc_reason neg) (''denied by negative_capability '' @ nc_name neg))
               None None None None (Some neg_caps) now
         | None \<Rightarrow> eval_rules regex_new eng query neg_caps now (pm_rules (ne_policy eng)))"

definition continuous_triggers :: "native_policy_engine \<Rightarrow> string list" where
  "continuous_triggers eng = unwrap_or (pm_continuous_reevaluation (ne_policy eng)) []"

definition evaluate_with_engine ::
    "regex_crate \<Rightarrow> int \<Rightarrow> string option \<Rightarrow> native_policy_engine \<Rightarrow>
     (policy_query \<Rightarrow> policy_decision) option \<Rightarrow> (policy_query \<Rightarrow> policy_decision) option \<Rightarrow>
     policy_query \<Rightarrow> policy_decision" where
  "evaluate_with_engine regex_new clock hint native cedar rego query =
     (if hint = Some ''cedar'' then
        (case cedar of
           Some eng \<Rightarrow> eng query
         | None \<Rightarrow> unavailable_decision clock ''cedar'' query (pm_trust_domain (ne_policy native)))
      else if hint = Some ''rego'' then
        (case rego of
           Some eng \<Rightarrow> eng query
         | None \<Rightarrow> unavailable_decision clock ''rego'' query (pm_trust_domain (ne_policy native)))
      else evaluate regex_new clock native query)"

subsection \<open>What the engine decides\<close>

definition known_effects :: "string set" where
  "known_effects = {''allow'', ''deny'', ''escalate'', ''log_only''}"

definition effective_rule :: "regex_crate \<Rightarrow> native_policy_engine \<Rightarrow> policy_query \<Rightarrow> policy_rule option" where
  "effective_rule regex_new eng q =
     find (\<lambda>r. rule_matches regex_new r q \<and> pr_effect r \<in> known_effects) (pm_rules (ne_policy eng))"

definition effect_decision :: "policy_rule \<Rightarrow> string" where
  "effect_decision r =
     (if pr_effect r = ''escalate''
      then (if pr_approval r = Some ''quorum'' then ''escalate'' else ''approval-required'')
      else if pr_effect r = ''log_only'' then ''log-only'' else pr_effect r)"

lemma decision_sel [simp]:
  "pd_decision (decision eng q dec reason rid cs pf ap ncs now) = dec"
  "pd_rule_id (decision eng q dec reason rid cs pf ap ncs now) = rid"
  by (simp_all add: decision_def)

lemma apply_rule_None_iff: "apply_rule eng q ncs now r = None \<longleftrightarrow> pr_effect r \<notin> known_effects"
  by (simp add: apply_rule_def known_effects_def Let_def)

lemma apply_rule_Some:
  "apply_rule eng q ncs now r = Some d \<Longrightarrow> pd_decision d = effect_decision r \<and> pd_rule_id d = Some (pr_id r)"
  by (auto simp: apply_rule_def effect_decision_def Let_def split: if_splits)

lemma eval_rules_find:
  "pd_decision (eval_rules rx eng q ncs now rs) =
     (case find (\<lambda>r. rule_matches rx r q \<and> pr_effect r \<in> known_effects) rs of
        None \<Rightarrow> ''deny'' | Some r \<Rightarrow> effect_decision r)
   \<and> pd_rule_id (eval_rules rx eng q ncs now rs) =
     map_option pr_id (find (\<lambda>r. rule_matches rx r q \<and> pr_effect r \<in> known_effects) rs)"
proof (induction rs)
  case (Cons r rs)
  then show ?case
    using apply_rule_None_iff[of eng q ncs now r] apply_rule_Some[of eng q ncs now r]
    by (auto split: option.splits)
qed simp

lemma rule_matches_regex:
  "rule_matches rx r q \<Longrightarrow> regex_accepts rx (pr_action_pattern r) (pq_action q) \<and>
     regex_accepts rx (pr_subject_pattern r) (pq_subject q)"
  unfolding rule_matches_def by (simp split: if_split_asm)

lemma eval_rules_consulted:
  "pd_negative_capabilities_consulted (eval_rules rx eng q ncs now rs) = nonempty (Some ncs)"
proof (induction rs)
  case (Cons r rs)
  then show ?case by (auto simp: apply_rule_def decision_def Let_def split: option.splits if_splits)
qed (simp add: decision_def)

text \<open>
  C24. What the native engine decides. It consults one list of negative capabilities: the list that comes with
  the query, or the manifest's own list when the query brings none. A match in that list denies before any rule
  is looked at; otherwise the first rule that matches the query and has one of the four known effects decides
  (an escalation without quorum approval becomes \<open>approval-required\<close>) and its id is reported; without such a
  rule the query is denied. The consulted list is reported. A rule whose regular expression does not compile
  never matches. A query with a list of its own therefore escapes the denials of the manifest, which the
  documentation describes as overriding every grant.
\<close>

theorem evaluate_first_match:
  "let consulted = (if pq_negative_capabilities q = [] then pm_negative_capabilities (ne_policy eng)
         else pq_negative_capabilities q);
       denied = list_ex (\<lambda>neg. negative_matches neg q) consulted;
       d = evaluate rx clock eng q
   in pd_decision d =
        (if denied then ''deny''
         else case effective_rule rx eng q of None \<Rightarrow> ''deny'' | Some r \<Rightarrow> effect_decision r)
    \<and> pd_rule_id d = (if denied then None else map_option pr_id (effective_rule rx eng q))
    \<and> pd_negative_capabilities_consulted d = (if consulted = [] then None else Some consulted)
    \<and> (\<exists>p. rx p = None \<and> (pr_action_pattern r = Some p \<or> pr_subject_pattern r = Some p) \<and>
         rule_matches rx r q) = False"
proof -
  have "rule_matches rx r q \<Longrightarrow> rx p = None \<Longrightarrow> pr_action_pattern r \<noteq> Some p \<and> pr_subject_pattern r \<noteq> Some p" for p
    using rule_matches_regex[of rx r q] by (auto simp: regex_accepts_def)
  moreover have "list_ex (\<lambda>neg. negative_matches neg q) ncs \<longleftrightarrow> find (\<lambda>neg. negative_matches neg q) ncs \<noteq> None" for ncs
    by (auto simp: find_None_iff list_ex_iff)
  ultimately show ?thesis
    unfolding evaluate_def effective_rule_def Let_def neg_caps_of_def[symmetric]
    by (cases "find (\<lambda>neg. negative_matches neg q) (neg_caps_of eng q)")
      (simp_all add: eval_rules_find eval_rules_consulted decision_def nonempty_def, blast+)
qed

text \<open>
  The dispatcher fails closed: a query for an engine that is not wired in is denied, with the
  caller's subject, action and target in the record and without consulting the native rules; any
  other hint goes to the native engine.
\<close>

lemma dispatch_fail_closed:
  "(let d = evaluate_with_engine rx clock (Some ''cedar'') native None rego q in
      pd_decision d = ''deny'' \<and> pd_policy_engine d = ''cedar'' \<and> pd_subject d = pq_subject q \<and>
      pd_action d = pq_action q \<and> pd_target d = pq_target q)
   \<and> (let d = evaluate_with_engine rx clock (Some ''rego'') native cedar None q in
      pd_decision d = ''deny'' \<and> pd_policy_engine d = ''rego'' \<and> pd_subject d = pq_subject q \<and>
      pd_action d = pq_action q \<and> pd_target d = pq_target q)
   \<and> evaluate_with_engine rx clock (Some ''cedar'') native (Some eng) rego q = eng q
   \<and> evaluate_with_engine rx clock (Some ''rego'') native cedar (Some eng) q = eng q
   \<and> (hint \<notin> {Some ''cedar'', Some ''rego''} \<longrightarrow>
      evaluate_with_engine rx clock hint native cedar rego q = evaluate rx clock native q)"
  by (simp add: evaluate_with_engine_def unavailable_decision_def Let_def)

definition sample_engine :: native_policy_engine where
  "sample_engine = \<lparr>ne_policy = \<lparr>pm_policy_version = ''1'', pm_trust_domain = ''example.com'',
     pm_engine_hint = None, pm_rules = [], pm_negative_capabilities = [],
     pm_continuous_reevaluation = None, pm_quorum_defaults = None\<rparr>, ne_manifest_hash = []\<rparr>"

definition sample_query :: "string \<Rightarrow> policy_query" where
  "sample_query action = \<lparr>pq_subject = [], pq_instance = None, pq_action = action, pq_target = None,
     pq_context = [], pq_negative_capabilities = [], pq_enforcement_level = None, pq_now = None\<rparr>"

text \<open>
  The two deciders disagree on what a negative capability denies: the guard reads its name as a
  glob, the native engine compares it for equality, so a denial written as a pattern blocks an
  action in the guard and is ignored by the engine.
\<close>

lemma negative_capability_divergence:
  "\<exists>neg action. Guard.negative_matches neg
       \<lparr>gq_actor = None, gq_actor_claim = None, gq_action = action, gq_target = None\<rparr> \<and>
     \<not> Policy_Engine.negative_matches neg (sample_query action)"
proof -
  have "glob_match ''db.*'' ''db.drop''" by code_simp
  then show ?thesis
    by (intro exI[of _ "\<lparr>nc_name = ''db.*'', nc_target = None, nc_reason = None, nc_overrides = None\<rparr>"]
        exI[of _ "''db.drop''"])
      (simp add: Guard.negative_matches_def Policy_Engine.negative_matches_def sample_query_def)
qed

end
