(* ===== verification/Quorum.thy ===== *)
theory Quorum
  imports Clock
begin

text \<open>
  \<open>crates/tf-types/src/quorum.rs\<close>: collecting approvals until a quorum is reached. The mutex in a
  handle serialises the votes, so a run of a ceremony is a list of votes; each carries the clock
  reading at which it arrives. A \<open>u32\<close> is a \<open>32 word\<close>, and the casts of lengths to \<open>u32\<close> wrap.
\<close>

subsection \<open>The collector\<close>

record quorum_config =
  qc_min_approvers :: "32 word"
  qc_of :: "string list"

record quorum_signature =
  qs_algorithm :: string
  qs_signer :: string
  qs_signature :: string

record quorum_ceremony =
  cer_ceremony_version :: string
  cer_ceremony_id :: string
  cer_kind :: string
  cer_request_id :: string
  cer_started_at :: string
  cer_completed_at :: "string option"
  cer_min_approvers :: "32 word"
  cer_of :: "string list"
  cer_approvers :: "string list"
  cer_signatures :: "quorum_signature list"

record quorum_outcome =
  qo_decision :: string
  qo_approvers :: "string list"
  qo_deniers :: "string list"
  qo_ceremony :: quorum_ceremony

record quorum_state =
  qst_approvers :: "string list"
  qst_deniers :: "string list"
  qst_signatures :: "quorum_signature list"
  qst_outcome :: "quorum_outcome option"

record quorum_handle =
  qh_cfg :: quorum_config
  qh_request_id :: string
  qh_started_at :: string
  qh_state :: quorum_state

definition collector_new :: "quorum_config \<Rightarrow> string + quorum_config" where
  "collector_new cfg =
     (if qc_min_approvers cfg < 1
      then Inl (''quorum.min_approvers must be '' @ [CHR 0xE2, CHR 0x89, CHR 0xA5] @ '' 1'')
      else if (of_nat (length (qc_of cfg)) :: 32 word) < qc_min_approvers cfg
      then Inl (''quorum.of ('' @ show_nat (length (qc_of cfg)) @ '') must contain at least min_approvers ('' @
             show_nat (unat (qc_min_approvers cfg)) @ '') actors'')
      else Inr cfg)"

definition collector_push :: "quorum_config \<Rightarrow> string \<Rightarrow> string \<Rightarrow> quorum_handle" where
  "collector_push cfg request_id started_at = \<lparr>qh_cfg = cfg, qh_request_id = request_id,
     qh_started_at = started_at,
     qh_state = \<lparr>qst_approvers = [], qst_deniers = [], qst_signatures = [], qst_outcome = None\<rparr>\<rparr>"

definition materialise :: "int \<Rightarrow> quorum_handle \<Rightarrow> quorum_state \<Rightarrow> string \<Rightarrow> quorum_outcome" where
  "materialise clock h st dec = \<lparr>qo_decision = dec, qo_approvers = qst_approvers st,
     qo_deniers = qst_deniers st,
     qo_ceremony = \<lparr>cer_ceremony_version = ''1'',
       cer_ceremony_id = ''cer-'' @ qh_request_id h @ ''-quorum'', cer_kind = ''quorum'',
       cer_request_id = qh_request_id h, cer_started_at = qh_started_at h,
       cer_completed_at = Some (now_iso8601 clock),
       cer_min_approvers = qc_min_approvers (qh_cfg h), cer_of = qc_of (qh_cfg h),
       cer_approvers = qst_approvers st, cer_signatures = qst_signatures st\<rparr>\<rparr>"

text \<open>The two conditional assignments of the outcome at the end of \<open>respond_as\<close>.\<close>

definition settle :: "int \<Rightarrow> quorum_handle \<Rightarrow> quorum_state \<Rightarrow> quorum_state" where
  "settle clock h st =
     (if (of_nat (length (qst_approvers st)) :: 32 word) \<ge> qc_min_approvers (qh_cfg h) \<and> qst_outcome st = None
      then st\<lparr>qst_outcome := Some (materialise clock h st ''approve'')\<rparr>
      else if length (qst_approvers st) + length (qst_deniers st) \<ge> length (qc_of (qh_cfg h)) \<and>
              qst_outcome st = None
      then st\<lparr>qst_outcome := Some (materialise clock h st ''deny'')\<rparr>
      else st)"

definition respond_as ::
    "int \<Rightarrow> string \<Rightarrow> string \<Rightarrow> quorum_signature \<Rightarrow> quorum_handle \<Rightarrow> bool \<times> quorum_handle" where
  "respond_as clock approver dec signature h =
     (let st = qh_state h in
      if approver \<notin> set (qc_of (qh_cfg h)) then (False, h)
      else if approver \<in> set (qst_approvers st) \<or> approver \<in> set (qst_deniers st) then (False, h)
      else
        let st' = (if dec = ''approve''
              then st\<lparr>qst_approvers := qst_approvers st @ [approver],
                      qst_signatures := qst_signatures st @ [signature]\<rparr>
              else st\<lparr>qst_deniers := qst_deniers st @ [approver]\<rparr>)
        in (True, h\<lparr>qh_state := settle clock h st'\<rparr>))"

definition outcome :: "quorum_handle \<Rightarrow> quorum_outcome option" where
  "outcome h = qst_outcome (qh_state h)"

subsection \<open>Runs\<close>

record vote =
  v_clock :: int
  v_approver :: string
  v_decision :: string
  v_signature :: quorum_signature

definition cast_vote :: "vote \<Rightarrow> quorum_handle \<Rightarrow> quorum_handle" where
  "cast_vote v h = snd (respond_as (v_clock v) (v_approver v) (v_decision v) (v_signature v) h)"

text \<open>Everyone who has voted is eligible and voted once; a recorded approval had its quorum, a
  recorded denial had every seat filled.\<close>

definition quorum_inv :: "quorum_handle \<Rightarrow> bool" where
  "quorum_inv h \<longleftrightarrow>
     (let st = qh_state h; voted = qst_approvers st @ qst_deniers st in
      distinct voted \<and> set voted \<subseteq> set (qc_of (qh_cfg h)) \<and>
      length (qst_signatures st) = length (qst_approvers st) \<and>
      (\<forall>out. qst_outcome st = Some out \<longrightarrow>
         distinct (qo_approvers out @ qo_deniers out) \<and>
         set (qo_approvers out @ qo_deniers out) \<subseteq> set (qc_of (qh_cfg h)) \<and>
         length (cer_signatures (qo_ceremony out)) = length (qo_approvers out) \<and>
         cer_approvers (qo_ceremony out) = qo_approvers out \<and>
         (qo_decision out = ''approve'' \<longrightarrow>
            unat (qc_min_approvers (qh_cfg h)) \<le> length (qo_approvers out)) \<and>
         (qo_decision out \<noteq> ''approve'' \<longrightarrow>
            length (qc_of (qh_cfg h)) \<le> length (qo_approvers out) + length (qo_deniers out))))"

lemma quorum_inv_push: "quorum_inv (collector_push cfg rid t)"
  by (simp add: quorum_inv_def collector_push_def)

lemma word_length_ge: "(of_nat n :: 32 word) \<ge> m \<Longrightarrow> unat m \<le> n"
  by (simp add: word_le_nat_alt unat_of_nat)

lemma settle_keeps [simp]:
  "qst_approvers (settle clock h st) = qst_approvers st" "qst_deniers (settle clock h st) = qst_deniers st"
  "qst_signatures (settle clock h st) = qst_signatures st"
  by (simp_all add: settle_def)

lemma settle_outcome:
  assumes "qst_outcome (settle clock h st) = Some out" "qst_outcome st \<noteq> Some out"
  shows "out = materialise clock h st ''approve'' \<and> unat (qc_min_approvers (qh_cfg h)) \<le> length (qst_approvers st) \<or>
    out = materialise clock h st ''deny'' \<and> length (qc_of (qh_cfg h)) \<le> length (qst_approvers st) + length (qst_deniers st)"
proof (cases "(of_nat (length (qst_approvers st)) :: 32 word) \<ge> qc_min_approvers (qh_cfg h)")
  case True
  then show ?thesis using assms word_length_ge[OF True] by (simp add: settle_def split: if_splits)
next
  case False
  then show ?thesis using assms by (simp add: settle_def split: if_splits)
qed

lemma quorum_inv_respond:
  assumes "quorum_inv h"
  shows "quorum_inv (snd (respond_as clock a dec sig h))"
proof (cases "a \<in> set (qc_of (qh_cfg h)) \<and> a \<notin> set (qst_approvers (qh_state h)) \<union> set (qst_deniers (qh_state h))")
  case False
  with assms show ?thesis by (auto simp: respond_as_def Let_def)
next
  case True
  let ?st = "if dec = ''approve''
      then (qh_state h)\<lparr>qst_approvers := qst_approvers (qh_state h) @ [a], qst_signatures := qst_signatures (qh_state h) @ [sig]\<rparr>
      else (qh_state h)\<lparr>qst_deniers := qst_deniers (qh_state h) @ [a]\<rparr>"
  have "qst_outcome ?st = qst_outcome (qh_state h)" by simp
  moreover have "snd (respond_as clock a dec sig h) = h\<lparr>qh_state := settle clock h ?st\<rparr>"
    using True by (simp add: respond_as_def Let_def)
  ultimately show ?thesis
    using assms True settle_outcome[of clock h ?st]
    by (fastforce simp: quorum_inv_def materialise_def Let_def split: if_splits)
qed

lemma respond_cfg [simp]:
  "qh_cfg (snd (respond_as clock a dec sig h)) = qh_cfg h"
  by (simp add: respond_as_def Let_def)

lemma quorum_inv_cast: "quorum_inv h \<Longrightarrow> quorum_inv (cast_vote v h)"
  by (simp add: cast_vote_def quorum_inv_respond)

lemma cast_vote_cfg [simp]: "qh_cfg (cast_vote v h) = qh_cfg h"
  by (simp add: cast_vote_def)

lemma quorum_inv_run:
  "quorum_inv h \<Longrightarrow> quorum_inv (fold cast_vote vs h) \<and> qh_cfg (fold cast_vote vs h) = qh_cfg h"
  by (induction vs arbitrary: h) (simp_all add: quorum_inv_cast)

lemma outcome_stable: "outcome h = Some out \<Longrightarrow> outcome (snd (respond_as clock a dec sig h)) = Some out"
  by (simp add: outcome_def respond_as_def settle_def Let_def)

lemma outcome_stable_run: "outcome h = Some out \<Longrightarrow> outcome (fold cast_vote vs h) = Some out"
  by (induction vs arbitrary: h) (simp_all add: cast_vote_def outcome_stable)

text \<open>
  C4. An approval is backed by a quorum. Whatever votes arrive and in whatever order, if the
  outcome is an approval then at least \<open>min_approvers\<close> distinct actors of the eligible list approved,
  each with a signature in the ceremony record and none of them also counted as a denier; and no
  later vote changes the outcome.
\<close>

theorem quorum_sound:
  assumes "outcome (fold cast_vote vs (collector_push cfg rid t)) = Some out" "qo_decision out = ''approve''"
  shows "distinct (qo_approvers out) \<and> set (qo_approvers out) \<subseteq> set (qc_of cfg) \<and>
    set (qo_approvers out) \<inter> set (qo_deniers out) = {} \<and>
    unat (qc_min_approvers cfg) \<le> length (qo_approvers out) \<and>
    length (cer_signatures (qo_ceremony out)) = length (qo_approvers out) \<and>
    outcome (fold cast_vote (vs @ ws) (collector_push cfg rid t)) = Some out"
proof -
  let ?h = "fold cast_vote vs (collector_push cfg rid t)"
  have "quorum_inv ?h" "qh_cfg ?h = cfg"
    using quorum_inv_run[OF quorum_inv_push] by (simp_all add: collector_push_def)
  then show ?thesis
    using assms outcome_stable_run[OF assms(1), of ws]
    by (auto simp: quorum_inv_def outcome_def Let_def)
qed

definition sample_vote :: "string \<Rightarrow> string \<Rightarrow> vote" where
  "sample_vote a dec = \<lparr>v_clock = 0, v_approver = a, v_decision = dec,
     v_signature = \<lparr>qs_algorithm = ''ed25519'', qs_signer = a, qs_signature = ''c2ln''\<rparr>\<rparr>"

lemmas quorum_eval = cast_vote_def respond_as_def settle_def materialise_def outcome_def sample_vote_def
  collector_push_def Let_def

theorem quorum_sound_witness:
  "\<exists>out. outcome (fold cast_vote [sample_vote ''a'' ''approve'', sample_vote ''b'' ''deny'',
        sample_vote ''c'' ''approve'']
      (collector_push \<lparr>qc_min_approvers = 2, qc_of = [''a'', ''b'', ''c'']\<rparr> ''r'' ''t'')) = Some out \<and>
     2 \<le> length (qo_approvers out)"
proof -
  let ?vs = "[sample_vote ''a'' ''approve'', sample_vote ''b'' ''deny'', sample_vote ''c'' ''approve'']"
  let ?cfg = "\<lparr>qc_min_approvers = 2, qc_of = [''a'', ''b'', ''c'']\<rparr>"
  have "\<exists>out. outcome (fold cast_vote ?vs (collector_push ?cfg ''r'' ''t'')) = Some out \<and>
      qo_decision out = ''approve''"
    by (simp add: quorum_eval)
  then obtain out where out: "outcome (fold cast_vote ?vs (collector_push ?cfg ''r'' ''t'')) = Some out"
      "qo_decision out = ''approve''" by blast
  have "unat (qc_min_approvers ?cfg) \<le> length (qo_approvers out)" using quorum_sound[OF out, of "[]"] by blast
  with out(1) show ?thesis by auto
qed

text \<open>An undecided ceremony still has an open seat.\<close>

definition open_seat :: "quorum_handle \<Rightarrow> bool" where
  "open_seat h \<longleftrightarrow> (outcome h = None \<longrightarrow>
     length (qst_approvers (qh_state h)) + length (qst_deniers (qh_state h)) < length (qc_of (qh_cfg h)))"

definition has_voted :: "quorum_handle \<Rightarrow> string set" where
  "has_voted h = set (qst_approvers (qh_state h)) \<union> set (qst_deniers (qh_state h))"

lemma open_seat_respond: "open_seat h \<Longrightarrow> open_seat (snd (respond_as clock a dec sig h))"
  by (auto simp: open_seat_def outcome_def respond_as_def settle_def Let_def split: if_splits)

lemma has_voted_respond:
  "has_voted (snd (respond_as clock a dec sig h)) = has_voted h \<union> ({a} \<inter> set (qc_of (qh_cfg h)))"
  if "quorum_inv h"
  using that by (auto simp: has_voted_def respond_as_def settle_def quorum_inv_def Let_def split: if_splits)

lemma run_voted:
  assumes "quorum_inv h" "open_seat h"
  shows "open_seat (fold cast_vote vs h) \<and>
    has_voted (fold cast_vote vs h) = has_voted h \<union> (v_approver ` set vs \<inter> set (qc_of (qh_cfg h)))"
  using assms
proof (induction vs arbitrary: h)
  case (Cons v vs)
  have "quorum_inv (cast_vote v h)" "open_seat (cast_vote v h)"
    using Cons.prems by (simp_all add: quorum_inv_cast) (simp add: cast_vote_def open_seat_respond)
  moreover have "has_voted (cast_vote v h) = has_voted h \<union> ({v_approver v} \<inter> set (qc_of (qh_cfg h)))"
    using Cons.prems(1) by (simp add: cast_vote_def has_voted_respond)
  ultimately show ?case using Cons.IH[of "cast_vote v h"] by auto
qed simp

lemma full_vote:
  assumes "collector_new cfg = Inr cfg" "distinct (qc_of cfg)" "set (qc_of cfg) \<subseteq> v_approver ` set vs"
  shows "outcome (fold cast_vote vs (collector_push cfg rid t)) \<noteq> None"
proof
  let ?start = "collector_push cfg rid t" and ?h = "fold cast_vote vs (collector_push cfg rid t)"
  assume none: "outcome ?h = None"
  have "qc_of cfg \<noteq> []" using assms(1) by (auto simp: collector_new_def word_gt_0 split: if_splits)
  then have "open_seat ?start" by (simp add: open_seat_def collector_push_def)
  from run_voted[OF quorum_inv_push this, of vs] assms(3)
  have os: "open_seat ?h" and v: "has_voted ?h = set (qc_of cfg)"
    by (auto simp: collector_push_def has_voted_def)
  have inv: "quorum_inv ?h" "qh_cfg ?h = cfg"
    using quorum_inv_run[OF quorum_inv_push] by (simp_all add: collector_push_def)
  then have "distinct (qst_approvers (qh_state ?h) @ qst_deniers (qh_state ?h))"
    by (simp add: quorum_inv_def Let_def)
  then have "length (qst_approvers (qh_state ?h)) + length (qst_deniers (qh_state ?h)) = card (has_voted ?h)"
    by (metis has_voted_def distinct_card length_append set_append)
  also have "\<dots> = length (qc_of cfg)" using v assms(2) by (simp add: distinct_card)
  finally show False using os none inv(2) by (simp add: open_seat_def)
qed

text \<open>The outcome follows the tally: no outcome before the quorum is reached, an approval once it is, a denial
  only when all seats are filled without it. The count of approvals reaches \<open>min_approvers\<close> before it could
  wrap in the cast to \<open>u32\<close>.\<close>

definition tally_ok :: "quorum_handle \<Rightarrow> bool" where
  "tally_ok h \<longleftrightarrow>
     (let n = length (qst_approvers (qh_state h)); m = unat (qc_min_approvers (qh_cfg h)) in
      case outcome h of
        None \<Rightarrow> n < m
      | Some out \<Rightarrow> qo_decision out = ''approve'' \<and> m \<le> n \<or>
          qo_decision out = ''deny'' \<and> n < m \<and>
          length (qc_of (qh_cfg h)) \<le> n + length (qst_deniers (qh_state h)))"

lemma word_length_le: "n \<le> unat m \<Longrightarrow> m \<le> (of_nat n :: 32 word) \<longleftrightarrow> unat m \<le> n"
  using unsigned_less[of m, where 'a = nat] by (simp add: word_le_nat_alt unat_of_nat)

lemma seats_filled:
  assumes "quorum_inv h" "length (qc_of (qh_cfg h)) \<le> length (qst_approvers (qh_state h)) + length (qst_deniers (qh_state h))"
  shows "has_voted h = set (qc_of (qh_cfg h))"
proof -
  let ?v = "qst_approvers (qh_state h) @ qst_deniers (qh_state h)"
  have v: "distinct ?v" "set ?v \<subseteq> set (qc_of (qh_cfg h))" using assms(1) by (simp_all add: quorum_inv_def Let_def)
  have "card (set (qc_of (qh_cfg h))) \<le> card (set ?v)"
    using assms(2) card_length[of "qc_of (qh_cfg h)"] distinct_card[OF v(1)] by simp
  with v(2) have "set ?v = set (qc_of (qh_cfg h))" by (intro card_seteq) simp_all
  then show ?thesis by (simp add: has_voted_def)
qed

lemma respond_voted:
  "a \<notin> set (qc_of (qh_cfg h)) \<or> a \<in> has_voted h \<Longrightarrow> respond_as clock a dec sig h = (False, h)"
  by (auto simp: respond_as_def has_voted_def Let_def)

lemma respond_new:
  "a \<in> set (qc_of (qh_cfg h)) \<Longrightarrow> a \<notin> has_voted h \<Longrightarrow> snd (respond_as clock a dec sig h) =
     h\<lparr>qh_state := settle clock h (if dec = ''approve''
        then (qh_state h)\<lparr>qst_approvers := qst_approvers (qh_state h) @ [a],
               qst_signatures := qst_signatures (qh_state h) @ [sig]\<rparr>
        else (qh_state h)\<lparr>qst_deniers := qst_deniers (qh_state h) @ [a]\<rparr>)\<rparr>"
  by (simp add: respond_as_def has_voted_def Let_def)

lemma tally_respond:
  assumes "quorum_inv h" "tally_ok h"
  shows "tally_ok (snd (respond_as clock a dec sig h))"
proof (cases "a \<in> set (qc_of (qh_cfg h)) \<and> a \<notin> has_voted h")
  case False
  with assms(2) show ?thesis using respond_voted[of a h clock dec sig] by auto
next
  case True
  let ?n = "length (qst_approvers (qh_state h))" and ?m = "qc_min_approvers (qh_cfg h)"
  show ?thesis
  proof (cases "outcome h")
    case None
    with assms(2) have n: "?n < unat ?m" by (simp add: tally_ok_def Let_def)
    note w = word_length_le[of "Suc ?n" ?m] word_length_le[of ?n ?m]
    from n None True w show ?thesis
      by (auto simp: respond_new tally_ok_def settle_def materialise_def outcome_def Let_def simp del: of_nat_Suc)
  next
    case (Some out)
    have "qo_decision out = ''approve'' \<and> unat ?m \<le> ?n"
      using assms Some True seats_filled[of h] by (auto simp: tally_ok_def Let_def)
    with Some True show ?thesis
      by (auto simp: respond_new tally_ok_def settle_def outcome_def Let_def)
  qed
qed

lemma tally_run: "quorum_inv h \<Longrightarrow> tally_ok h \<Longrightarrow> tally_ok (fold cast_vote vs h)"
proof (induction vs arbitrary: h)
  case (Cons v vs)
  then have "quorum_inv (cast_vote v h)" "tally_ok (cast_vote v h)"
    by (simp_all add: quorum_inv_respond tally_respond cast_vote_def)
  with Cons.IH show ?case by simp
qed simp

text \<open>An actor's vote is the first one it casts.\<close>

definition first_approves :: "vote list \<Rightarrow> string \<Rightarrow> bool" where
  "first_approves vs a = (case find (\<lambda>v. v_approver v = a) vs of Some v \<Rightarrow> v_decision v = ''approve'' | None \<Rightarrow> False)"

lemma find_snoc: "find P (xs @ [x]) = (case find P xs of None \<Rightarrow> if P x then Some x else None | Some y \<Rightarrow> Some y)"
  by (induction xs) simp_all

lemma approvers_cast:
  "set (qst_approvers (qh_state (cast_vote v h))) = set (qst_approvers (qh_state h)) \<union>
     (if v_decision v = ''approve'' \<and> v_approver v \<in> set (qc_of (qh_cfg h)) \<and> v_approver v \<notin> has_voted h
      then {v_approver v} else {})"
  by (auto simp: cast_vote_def respond_as_def has_voted_def settle_def Let_def)

lemma first_approves_snoc:
  "first_approves (vs @ [v]) a \<longleftrightarrow> first_approves vs a \<or>
     a = v_approver v \<and> a \<notin> v_approver ` set vs \<and> v_decision v = ''approve''"
proof -
  have "find (\<lambda>w. v_approver w = a) vs = None \<longleftrightarrow> a \<notin> v_approver ` set vs" by (auto simp: find_None_iff)
  then show ?thesis by (auto simp: first_approves_def find_snoc split: option.splits)
qed

lemma run_approvers:
  assumes "qc_of cfg \<noteq> []"
  shows "set (qst_approvers (qh_state (fold cast_vote vs (collector_push cfg rid t)))) =
    {a \<in> set (qc_of cfg). first_approves vs a}"
proof (induction vs rule: rev_induct)
  case Nil
  then show ?case by (simp add: collector_push_def first_approves_def)
next
  case (snoc v vs)
  let ?h = "fold cast_vote vs (collector_push cfg rid t)"
  have "open_seat (collector_push cfg rid t)" using assms by (simp add: open_seat_def collector_push_def)
  from run_voted[OF quorum_inv_push this, of vs]
  have "has_voted ?h = v_approver ` set vs \<inter> set (qc_of cfg)"
    by (simp add: collector_push_def has_voted_def)
  moreover have "qh_cfg ?h = cfg" using quorum_inv_run[OF quorum_inv_push] by (simp add: collector_push_def)
  ultimately show ?case using snoc by (auto simp: approvers_cast first_approves_snoc split: if_splits)
qed

text \<open>
  C32. A ceremony over an accepted configuration without repeated actors always ends, with the right
  result: once every eligible actor has voted, in any order and with any other votes in between, there is an
  outcome; it is an approval when at least \<open>min_approvers\<close> of the eligible actors approved with their first
  vote, and a denial otherwise.
\<close>

theorem quorum_decides:
  assumes "collector_new cfg = Inr cfg" "distinct (qc_of cfg)" "set (qc_of cfg) \<subseteq> v_approver ` set vs"
  shows "\<exists>out. outcome (fold cast_vote vs (collector_push cfg rid t)) = Some out \<and>
    qo_decision out = (if unat (qc_min_approvers cfg) \<le> length (filter (first_approves vs) (qc_of cfg))
      then ''approve'' else ''deny'')"
proof -
  let ?h = "fold cast_vote vs (collector_push cfg rid t)"
  obtain out where out: "outcome ?h = Some out" using full_vote[OF assms, of rid t] by blast
  have ne: "qc_of cfg \<noteq> []" and m: "0 < unat (qc_min_approvers cfg)"
    using assms(1) by (auto simp: collector_new_def word_gt_0 unat_gt_0 split: if_splits)
  have inv: "quorum_inv ?h" "qh_cfg ?h = cfg"
    using quorum_inv_run[OF quorum_inv_push] by (simp_all add: collector_push_def)
  have "tally_ok (collector_push cfg rid t)" using m by (simp add: tally_ok_def collector_push_def outcome_def)
  then have tally: "tally_ok ?h" by (rule tally_run[OF quorum_inv_push])
  have "length (qst_approvers (qh_state ?h)) = card (set (qst_approvers (qh_state ?h)))"
    using inv(1) by (simp add: quorum_inv_def Let_def distinct_card)
  also have "\<dots> = card (set (filter (first_approves vs) (qc_of cfg)))" by (simp add: run_approvers[OF ne])
  also have "\<dots> = length (filter (first_approves vs) (qc_of cfg))" by (rule distinct_card) (simp add: assms(2))
  finally show ?thesis using out tally inv(2) by (auto simp: tally_ok_def Let_def)
qed

theorem quorum_decides_witness:
  "\<exists>out. outcome (fold cast_vote [sample_vote ''b'' ''deny'', sample_vote ''a'' ''approve'', sample_vote ''b'' ''approve'']
      (collector_push \<lparr>qc_min_approvers = 2, qc_of = [''a'', ''b'']\<rparr> ''r'' ''t'')) = Some out \<and>
     qo_decision out = ''deny''"
  using quorum_decides[of "\<lparr>qc_min_approvers = 2, qc_of = [''a'', ''b'']\<rparr>"
      "[sample_vote ''b'' ''deny'', sample_vote ''a'' ''approve'', sample_vote ''b'' ''approve'']" "''r''" "''t''"]
  by (simp add: collector_new_def sample_vote_def first_approves_def)

text \<open>
  A repeated actor in the eligible list stalls the ceremony: the constructor accepts two seats
  for one actor and a quorum of two, and then no sequence of votes ever produces an outcome.
\<close>

lemma quorum_duplicate_stalls:
  "\<exists>cfg. collector_new cfg = Inr cfg \<and>
     (\<forall>vs. outcome (fold cast_vote vs (collector_push cfg rid t)) = None)"
proof (intro exI conjI allI)
  let ?cfg = "\<lparr>qc_min_approvers = 2, qc_of = [''a'', ''a'']\<rparr>"
  show "collector_new ?cfg = Inr ?cfg" by (simp add: collector_new_def)
  fix vs
  have one: "length xs \<le> 1" if "distinct xs" "set xs \<subseteq> {''a''}" for xs :: "string list"
    using that card_mono[OF _ that(2)] by (simp add: distinct_card)
  have "quorum_inv h \<Longrightarrow> qh_cfg h = ?cfg \<Longrightarrow> outcome h = None \<Longrightarrow> outcome (cast_vote v h) = None" for v h
  proof -
    assume h: "quorum_inv h" "qh_cfg h = ?cfg" "outcome h = None"
    let ?h' = "cast_vote v h"
    have "quorum_inv ?h'" "qh_cfg ?h' = ?cfg" using h by (simp_all add: quorum_inv_cast)
    then have "length (qst_approvers (qh_state ?h') @ qst_deniers (qh_state ?h')) \<le> 1"
      by (intro one) (auto simp: quorum_inv_def Let_def)
    then have le: "length (qst_approvers (qh_state ?h')) + length (qst_deniers (qh_state ?h')) \<le> 1" by simp
    then have "(of_nat (length (qst_approvers (qh_state ?h'))) :: 32 word) < 2"
      by (cases "qst_approvers (qh_state ?h')") auto
    with le h(2,3) show ?thesis
      by (auto simp: cast_vote_def respond_as_def settle_def outcome_def Let_def not_le split: if_splits)
  qed
  moreover have "quorum_inv h \<Longrightarrow> qh_cfg h = ?cfg \<Longrightarrow> outcome h = None \<Longrightarrow> outcome (fold cast_vote vs h) = None" for h
    by (induction vs arbitrary: h) (simp_all add: calculation quorum_inv_cast)
  ultimately show "outcome (fold cast_vote vs (collector_push ?cfg rid t)) = None"
    using quorum_inv_push[of ?cfg rid t] by (simp add: collector_push_def outcome_def)
qed

end
