(* ===== verification/Trust_Overlay.thy ===== *)
theory Trust_Overlay
  imports Capability
begin

text \<open>
  \<open>crates/tf-types/src/trust_overlay.rs\<close>: the trust level of an actor, composed from the levels its
  identity claims and from the posture observed at run time. Only the \<open>trust_levels\<close> field of
  \<open>ActorIdentity\<close> is read, so it is the argument. \<open>u64\<close> seconds and the \<open>u32\<close> count are only compared,
  and are naturals here.
\<close>

datatype trust_level = T0 | T1 | T2 | T3 | T4 | T5 | T6 | T7

record posture_context =
  pc_hardware_backed :: bool
  pc_attestation_verified :: bool
  pc_proof_level_achieved :: "proof_level option"
  pc_recent_verification_seconds :: "nat option"
  pc_stale_after_seconds :: "nat option"
  pc_quorum_approvers_at_least :: "nat option"
  pc_untrusted_relay_path :: bool
  pc_recently_revoked :: bool
  pc_publicly_anchored :: bool
  pc_compliance_attested :: bool

record trust_overlay_result =
  to_level :: trust_level
  to_reasons :: "string list"

definition ORDER :: "trust_level list" where
  "ORDER = [T0, T1, T2, T3, T4, T5, T6, T7]"

definition rank :: "trust_level \<Rightarrow> nat" where
  "rank level = unwrap_or (position (\<lambda>t. t = level) ORDER) 0"

definition level_from_rank :: "nat \<Rightarrow> trust_level" where
  "level_from_rank r = ORDER ! min r (length ORDER - 1)"

fun highest_loop :: "trust_level \<Rightarrow> trust_level list \<Rightarrow> trust_level" where
  "highest_loop best [] = best"
| "highest_loop best (l # ls) = highest_loop (if rank l > rank best then l else best) ls"

definition highest_level :: "trust_level list \<Rightarrow> trust_level" where
  "highest_level levels = (if levels = [] then T0 else highest_loop T0 levels)"

fun proof_level_minimum_trust :: "proof_level \<Rightarrow> trust_level option" where
  "proof_level_minimum_trust L0 = Some T0"
| "proof_level_minimum_trust L1 = Some T1"
| "proof_level_minimum_trust L2 = Some T2"
| "proof_level_minimum_trust L3 = Some T3"
| "proof_level_minimum_trust L4 = Some T6"
| "proof_level_minimum_trust L5 = Some T7"

fun trust_level_str :: "trust_level \<Rightarrow> string" where
  "trust_level_str T0 = ''T0''"
| "trust_level_str T1 = ''T1''"
| "trust_level_str T2 = ''T2''"
| "trust_level_str T3 = ''T3''"
| "trust_level_str T4 = ''T4''"
| "trust_level_str T5 = ''T5''"
| "trust_level_str T6 = ''T6''"
| "trust_level_str T7 = ''T7''"

text \<open>The UTF-8 bytes of the arrow and of the greater-or-equal sign in the reasons.\<close>

definition arrow :: string where
  "arrow = [CHR 0xE2, CHR 0x86, CHR 0x92]"

definition geq :: string where
  "geq = [CHR 0xE2, CHR 0x89, CHR 0xA5]"

text \<open>\<open>if cond && r < rank(level) { r = rank(level); reasons.push(reason) }\<close>\<close>

definition raise_to :: "bool \<Rightarrow> trust_level \<Rightarrow> string \<Rightarrow> nat \<times> string list \<Rightarrow> nat \<times> string list" where
  "raise_to cond level reason acc =
     (case acc of (r, reasons) \<Rightarrow>
        if cond \<and> r < rank level then (rank level, reasons @ [reason]) else (r, reasons))"

definition stale :: "posture_context \<Rightarrow> (nat \<times> nat) option" where
  "stale posture =
     (let limit = unwrap_or (pc_stale_after_seconds posture) 86400 in
      case pc_recent_verification_seconds posture of
        Some seen \<Rightarrow> if seen > limit then Some (seen, limit) else None
      | None \<Rightarrow> None)"

definition proof_raise :: "posture_context \<Rightarrow> nat \<times> string list \<Rightarrow> nat \<times> string list" where
  "proof_raise posture acc =
     (case pc_proof_level_achieved posture of
        Some level \<Rightarrow>
          (case proof_level_minimum_trust level of
             Some target \<Rightarrow>
               (case acc of (r, reasons) \<Rightarrow>
                  if rank target > r
                  then (rank target, reasons @ [''proof level '' @ proof_level_str level @ '' '' @ arrow @
                          '' '' @ geq @ trust_level_str target])
                  else (r, reasons))
           | None \<Rightarrow> acc)
      | None \<Rightarrow> acc)"

definition relay_drop :: "posture_context \<Rightarrow> nat \<times> string list \<Rightarrow> nat \<times> string list" where
  "relay_drop posture acc =
     (case acc of (r, reasons) \<Rightarrow>
        if pc_untrusted_relay_path posture \<and> r > 0
        then (r - 1, reasons @ [''untrusted relay path '' @ arrow @ '' -1'']) else (r, reasons))"

definition compose_trust_level :: "trust_level list \<Rightarrow> posture_context \<Rightarrow> trust_overlay_result" where
  "compose_trust_level trust_levels posture =
     (let base = highest_level trust_levels;
          reasons = [''base='' @ trust_level_str base]
      in if pc_recently_revoked posture
         then \<lparr>to_level = T0, to_reasons = reasons @ [''revoked '' @ arrow @ '' T0'']\<rparr>
         else case stale posture of
           Some (seen, limit) \<Rightarrow>
             \<lparr>to_level = T0, to_reasons = reasons @ [''stale ('' @ show_nat seen @ ''s > '' @
                show_nat limit @ ''s) '' @ arrow @ '' T0'']\<rparr>
         | None \<Rightarrow>
             let a0 = (rank base, reasons);
                 a1 = raise_to (pc_hardware_backed posture) T4
                   (''hardware-backed '' @ arrow @ '' '' @ geq @ ''T4'') a0;
                 a2 = raise_to (pc_attestation_verified posture) T4
                   (''attestation verified '' @ arrow @ '' '' @ geq @ ''T4'') a1;
                 a3 = raise_to (unwrap_or (pc_quorum_approvers_at_least posture) 0 \<ge> 2) T5
                   (''quorum '' @ geq @ ''2 '' @ arrow @ '' '' @ geq @ ''T5'') a2;
                 a4 = raise_to (pc_publicly_anchored posture) T6
                   (''publicly anchored '' @ arrow @ '' '' @ geq @ ''T6'') a3;
                 a5 = raise_to (pc_compliance_attested posture) T7
                   (''compliance attestation '' @ arrow @ '' T7'') a4;
                 (r, final) = relay_drop posture (proof_raise posture a5)
             in \<lparr>to_level = level_from_rank r, to_reasons = final\<rparr>)"

subsection \<open>The level in closed form\<close>

text \<open>The levels form a linear order by rank.\<close>

instantiation trust_level :: linorder
begin

definition less_eq_trust_level :: "trust_level \<Rightarrow> trust_level \<Rightarrow> bool" where
  "less_eq_trust_level a b \<longleftrightarrow> rank a \<le> rank b"

definition less_trust_level :: "trust_level \<Rightarrow> trust_level \<Rightarrow> bool" where
  "less_trust_level a b \<longleftrightarrow> rank a < rank b"

instance
proof
  fix x y z :: trust_level
  show "x \<le> y \<Longrightarrow> y \<le> x \<Longrightarrow> x = y"
    by (cases x; cases y) (simp_all add: less_eq_trust_level_def rank_def ORDER_def)
qed (auto simp: less_eq_trust_level_def less_trust_level_def)

end

lemma rank_simps [simp]:
  "rank T0 = 0" "rank T1 = 1" "rank T2 = 2" "rank T3 = 3" "rank T4 = 4" "rank T5 = 5" "rank T6 = 6" "rank T7 = 7"
  by (simp_all add: rank_def ORDER_def)

lemma rank_le: "rank l \<le> 7"
  by (cases l) simp_all

lemma rank_level_from_rank: "rank (level_from_rank r) = min r 7"
proof -
  have "rank (ORDER ! i) = i" if "i \<le> 7" for i
  proof -
    have "i \<in> set [0,1,2,3,4,5,6,7]" using that by auto
    then show ?thesis by (auto simp: ORDER_def)
  qed
  then show ?thesis by (simp add: level_from_rank_def ORDER_def)
qed

lemma level_from_rank_rank [simp]: "level_from_rank (rank l) = l"
  by (cases l) (simp_all add: level_from_rank_def ORDER_def)

lemma highest_loop_max: "highest_loop best ls = fold max ls best"
  by (induction ls arbitrary: best) (auto simp: max_def less_eq_trust_level_def intro!: arg_cong2[where f = "fold max"])

lemma highest_level_Max: "highest_level ls = Max (insert T0 (set ls))"
proof -
  have "fold max ls best = Max (insert best (set ls))" for best
    by (simp add: Max.set_eq_fold[of best ls, symmetric])
  then show ?thesis by (simp add: highest_level_def highest_loop_max)
qed

text \<open>The levels the posture vouches for.\<close>

definition posture_levels :: "posture_context \<Rightarrow> trust_level set" where
  "posture_levels p =
     (if pc_hardware_backed p \<or> pc_attestation_verified p then {T4} else {}) \<union>
     (if unwrap_or (pc_quorum_approvers_at_least p) 0 \<ge> 2 then {T5} else {}) \<union>
     (if pc_publicly_anchored p then {T6} else {}) \<union>
     (if pc_compliance_attested p then {T7} else {}) \<union>
     (case pc_proof_level_achieved p of
        Some l \<Rightarrow> (case proof_level_minimum_trust l of Some t \<Rightarrow> {t} | None \<Rightarrow> {})
      | None \<Rightarrow> {})"

lemma raise_to_max: "fst (raise_to c l w acc) = (if c then max (fst acc) (rank l) else fst acc)"
  by (cases acc) (auto simp: raise_to_def)

lemma proof_raise_max:
  "fst (proof_raise p acc) = (case pc_proof_level_achieved p of
      Some l \<Rightarrow> (case proof_level_minimum_trust l of Some t \<Rightarrow> max (fst acc) (rank t) | None \<Rightarrow> fst acc)
    | None \<Rightarrow> fst acc)"
  by (cases acc) (auto simp: proof_raise_def split: option.splits)

lemma relay_drop_fst: "fst (relay_drop p acc) = fst acc - (if pc_untrusted_relay_path p then 1 else 0)"
  by (cases acc) (auto simp: relay_drop_def)

lemma rank_max: "rank (max a b) = max (rank a) (rank b)"
  by (auto simp: max_def less_eq_trust_level_def)

lemma rank_Max_Un_if:
  "finite A \<Longrightarrow> A \<noteq> {} \<Longrightarrow> rank (Max (A \<union> (if c then {l} else {}))) = (if c then max (rank (Max A)) (rank l) else rank (Max A))"
  by (simp add: rank_max max.commute)

text \<open>
  The composed level in closed form. A revoked or stale actor is at T0 whatever it claims;
  otherwise its level is the highest of the levels its identity claims and the levels its posture
  vouches for (T4 for hardware or attestation, T5 for two approvers, T6 for a public anchor, T7
  for compliance, and the level of the proof it achieved), one lower behind an untrusted relay.
\<close>

lemma compose_trust_level_closed_form:
  "rank (to_level (compose_trust_level ls p)) =
     (if stale p = None \<and> \<not> pc_recently_revoked p
      then rank (Max (insert T0 (set ls \<union> posture_levels p))) - (if pc_untrusted_relay_path p then 1 else 0)
      else 0)"
proof (cases "pc_recently_revoked p \<or> stale p \<noteq> None")
  case True
  then show ?thesis by (auto simp: compose_trust_level_def Let_def split: option.splits)
next
  case False
  let ?A = "insert T0 (set ls)"
  let ?pr = "case pc_proof_level_achieved p of
      Some l \<Rightarrow> (case proof_level_minimum_trust l of Some t \<Rightarrow> {t} | None \<Rightarrow> {}) | None \<Rightarrow> {}"
  have "finite ?pr" by (simp split: option.splits)
  have e: "insert T0 (set ls \<union> posture_levels p) =
      ((((?A \<union> (if pc_hardware_backed p \<or> pc_attestation_verified p then {T4} else {})) \<union>
        (if unwrap_or (pc_quorum_approvers_at_least p) 0 \<ge> 2 then {T5} else {})) \<union>
        (if pc_publicly_anchored p then {T6} else {})) \<union>
        (if pc_compliance_attested p then {T7} else {})) \<union> ?pr"
    by (auto simp: posture_levels_def)
  have pr: "rank (Max (B \<union> ?pr)) = (case pc_proof_level_achieved p of
      Some l \<Rightarrow> (case proof_level_minimum_trust l of Some t \<Rightarrow> max (rank (Max B)) (rank t) | None \<Rightarrow> rank (Max B))
    | None \<Rightarrow> rank (Max B))" if "finite B" "B \<noteq> {}" for B
    using that by (simp add: rank_max max.commute split: option.splits)
  let ?raise = "\<lambda>rs w1 w2 w3 w4 w5. raise_to (pc_compliance_attested p) T7 w5
    (raise_to (pc_publicly_anchored p) T6 w4
      (raise_to (unwrap_or (pc_quorum_approvers_at_least p) 0 \<ge> 2) T5 w3
        (raise_to (pc_attestation_verified p) T4 w2
          (raise_to (pc_hardware_backed p) T4 w1 (rank (highest_level ls), rs)))))"
  have k: "fst (proof_raise p (?raise rs w1 w2 w3 w4 w5)) = rank (Max (insert T0 (set ls \<union> posture_levels p)))"
    for rs w1 w2 w3 w4 w5
    unfolding e proof_raise_max raise_to_max highest_level_Max
    by (subst pr, simp, simp, simp only: rank_Max_Un_if finite.intros finite_Un finite_set if_distrib[of finite]
        Un_empty insert_not_empty simp_thms if_cancel fst_conv)
      (auto split: option.splits)
  have le: "rank (Max (insert T0 (set ls \<union> posture_levels p))) \<le> 7" by (rule rank_le)
  from False have fresh: "pc_recently_revoked p = False" "stale p = None" by blast+
  show ?thesis
    unfolding compose_trust_level_def Let_def fresh option.case if_False case_prod_beta
    using le by (simp add: relay_drop_fst k rank_level_from_rank)
qed

end
