(* ===== verification/Approval.thy ===== *)
theory Approval
  imports Prelude
begin

text \<open>
  \<open>crates/tf-types/src/approval.rs\<close>: the queue of requests that wait for a human decision. Every
  \<open>push\<close> creates a one-shot channel and spawns a timer task; both get the number \<open>aq_next\<close> here. The
  state holds the map of pending records (an association list with distinct keys), the timer tasks
  that still sleep, and what each waiter has received: nothing yet, a result, or a closed channel
  because its sender was dropped. The steps of the system are the critical sections under the
  queue's mutex: \<open>push\<close>, \<open>respond\<close>, a timer that fires, and \<open>drain_deny\<close>, in any order.
  In the source the abort of the timer, the callback and the send follow after the mutex is released; they are
  part of the step here. The record is out of the map by then, so a timer that fires in between finds nothing
  and has no effect, and the sender it took is in no other hand.
\<close>

subsection \<open>State and operations\<close>

record approval_request =
  rq_id :: string
  rq_actor :: string
  rq_action :: string
  rq_target :: "string option"
  rq_danger_tags :: "string list option"
  rq_reason :: string
  rq_created_at :: string
  rq_expires_at :: "string option"

datatype approval_decision = Approve | Deny

record approval_result =
  ar_decision :: approval_decision
  ar_note :: "string option"

datatype approval_error = QueueFull nat | ChannelClosed

record pending_record =
  pe_request :: approval_request
  pe_responder :: nat
  pe_timer :: nat

record timer_task =
  tt_number :: nat
  tt_timeout_id :: string
  tt_request :: approval_request

datatype waiter = Waiting | Received approval_result | Closed

datatype callback = OnPush approval_request | OnResolve approval_request approval_result

record approval_queue =
  aq_pending :: "(string \<times> pending_record) list"
  aq_max_pending :: nat
  aq_timers :: "timer_task list"
  aq_waiters :: "nat \<Rightarrow> waiter"
  aq_next :: nat
  aq_log :: "callback list"

definition queue_new :: "nat \<Rightarrow> approval_queue" where
  "queue_new max_pending = \<lparr>aq_pending = [], aq_max_pending = max_pending, aq_timers = [],
     aq_waiters = (\<lambda>_. Waiting), aq_next = 0, aq_log = []\<rparr>"

definition queue_size :: "approval_queue \<Rightarrow> nat" where
  "queue_size q = length (aq_pending q)"

definition queue_list :: "approval_queue \<Rightarrow> approval_request list" where
  "queue_list q = map (pe_request \<circ> snd) (aq_pending q)"

definition map_remove :: "string \<Rightarrow> (string \<times> 'a) list \<Rightarrow> (string \<times> 'a) list" where
  "map_remove k m = filter (\<lambda>e. fst e \<noteq> k) m"

text \<open>\<open>HashMap::insert\<close> drops the record it replaces: its sender goes, and with it the channel; its
  timer handle goes too, which detaches the task but does not stop it.\<close>

definition queue_push :: "approval_request \<Rightarrow> approval_queue \<Rightarrow> (approval_error + nat) \<times> approval_queue" where
  "queue_push request q =
     (if length (aq_pending q) \<ge> aq_max_pending q
      then (Inl (QueueFull (length (aq_pending q))), q)
      else
        let n = aq_next q; key = rq_id request;
            timer = \<lparr>tt_number = n, tt_timeout_id = key, tt_request = request\<rparr>;
            rec = \<lparr>pe_request = request, pe_responder = n, pe_timer = n\<rparr>;
            waiters = (case map_of (aq_pending q) key of
                Some old \<Rightarrow> (aq_waiters q)(pe_responder old := Closed) | None \<Rightarrow> aq_waiters q)
        in (Inr n, q\<lparr>aq_pending := (key, rec) # map_remove key (aq_pending q),
              aq_timers := aq_timers q @ [timer], aq_waiters := waiters, aq_next := n + 1,
              aq_log := aq_log q @ [OnPush request]\<rparr>))"

text \<open>\<open>rx.await.map_err(|_| ChannelClosed)\<close>: what \<open>push\<close> returns to waiter \<open>n\<close>, once it is ready.\<close>

definition push_result :: "nat \<Rightarrow> approval_queue \<Rightarrow> (approval_error + approval_result) option" where
  "push_result n q =
     (case aq_waiters q n of
        Waiting \<Rightarrow> None | Received r \<Rightarrow> Some (Inr r) | Closed \<Rightarrow> Some (Inl ChannelClosed))"

definition timeout_result :: approval_result where
  "timeout_result = \<lparr>ar_decision = Deny, ar_note = Some ''timeout''\<rparr>"

text \<open>The body of the timer task after its sleep.\<close>

definition queue_timeout :: "timer_task \<Rightarrow> approval_queue \<Rightarrow> approval_queue" where
  "queue_timeout t q =
     (let q' = q\<lparr>aq_timers := removeAll t (aq_timers q)\<rparr> in
      case map_of (aq_pending q) (tt_timeout_id t) of
        None \<Rightarrow> q'
      | Some rec \<Rightarrow>
          q'\<lparr>aq_pending := map_remove (tt_timeout_id t) (aq_pending q),
             aq_waiters := (aq_waiters q)(pe_responder rec := Received timeout_result),
             aq_log := aq_log q @ [OnResolve (tt_request t) timeout_result]\<rparr>)"

definition queue_respond ::
    "string \<Rightarrow> approval_decision \<Rightarrow> string option \<Rightarrow> approval_queue \<Rightarrow> bool \<times> approval_queue" where
  "queue_respond request_id dec note q =
     (case map_of (aq_pending q) request_id of
        None \<Rightarrow> (False, q)
      | Some rec \<Rightarrow>
          let result = \<lparr>ar_decision = dec, ar_note = note\<rparr> in
          (True, q\<lparr>aq_pending := map_remove request_id (aq_pending q),
             aq_timers := filter (\<lambda>t. tt_number t \<noteq> pe_timer rec) (aq_timers q),
             aq_waiters := (aq_waiters q)(pe_responder rec := Received result),
             aq_log := aq_log q @ [OnResolve (pe_request rec) result]\<rparr>))"

definition drain_one :: "string \<Rightarrow> pending_record \<Rightarrow> approval_queue \<Rightarrow> approval_queue" where
  "drain_one reason rec q =
     (let result = \<lparr>ar_decision = Deny, ar_note = Some reason\<rparr> in
      q\<lparr>aq_timers := filter (\<lambda>t. tt_number t \<noteq> pe_timer rec) (aq_timers q),
        aq_waiters := (aq_waiters q)(pe_responder rec := Received result),
        aq_log := aq_log q @ [OnResolve (pe_request rec) result]\<rparr>)"

definition queue_drain_deny :: "string \<Rightarrow> approval_queue \<Rightarrow> approval_queue" where
  "queue_drain_deny reason q =
     fold (drain_one reason) (map snd (aq_pending q)) (q\<lparr>aq_pending := []\<rparr>)"

subsection \<open>The system\<close>

inductive queue_step :: "approval_queue \<Rightarrow> approval_queue \<Rightarrow> bool" where
  push: "queue_push request q = (r, q') \<Longrightarrow> queue_step q q'"
| respond: "queue_respond request_id dec note q = (b, q') \<Longrightarrow> queue_step q q'"
| fire: "t \<in> set (aq_timers q) \<Longrightarrow> queue_step q (queue_timeout t q)"
| drain: "queue_step q (queue_drain_deny reason q)"

inductive queue_reach :: "nat \<Rightarrow> approval_queue \<Rightarrow> bool" for max_pending where
  start: "queue_reach max_pending (queue_new max_pending)"
| step: "queue_reach max_pending q \<Longrightarrow> queue_step q q' \<Longrightarrow> queue_reach max_pending q'"

inductive_cases queue_stepE: "queue_step q q'"

subsection \<open>Invariant\<close>

definition record_ok :: "approval_queue \<Rightarrow> string \<times> pending_record \<Rightarrow> bool" where
  "record_ok q e \<longleftrightarrow>
     (case e of (key, rec) \<Rightarrow>
        rq_id (pe_request rec) = key \<and> pe_timer rec = pe_responder rec \<and> pe_responder rec < aq_next q \<and>
        aq_waiters q (pe_responder rec) = Waiting \<and>
        \<lparr>tt_number = pe_timer rec, tt_timeout_id = key, tt_request = pe_request rec\<rparr> \<in> set (aq_timers q))"

definition queue_inv :: "approval_queue \<Rightarrow> bool" where
  "queue_inv q \<longleftrightarrow>
     distinct (map fst (aq_pending q)) \<and>
     distinct (map (pe_responder \<circ> snd) (aq_pending q)) \<and>
     length (aq_pending q) \<le> aq_max_pending q \<and>
     (\<forall>e\<in>set (aq_pending q). record_ok q e) \<and>
     (\<forall>n<aq_next q. aq_waiters q n = Waiting \<longrightarrow> n \<in> (pe_responder \<circ> snd) ` set (aq_pending q)) \<and>
     (\<forall>n\<ge>aq_next q. aq_waiters q n = Waiting) \<and>
     distinct (map tt_number (aq_timers q)) \<and>
     (\<forall>t\<in>set (aq_timers q). tt_number t < aq_next q)"

lemma queue_inv_new: "queue_inv (queue_new m)"
  by (simp add: queue_inv_def queue_new_def)

lemma set_map_remove: "set (map_remove k m) = {e \<in> set m. fst e \<noteq> k}"
  by (auto simp: map_remove_def)

lemma length_map_remove: "length (map_remove k m) \<le> length m"
  by (simp add: map_remove_def)

lemma map_remove_absent: "map_of m k = None \<Longrightarrow> map_remove k m = m"
  by (induction m) (auto simp: map_remove_def split: if_splits)

lemma distinct_map_remove: "distinct (map f m) \<Longrightarrow> distinct (map f (map_remove k m))"
  by (simp add: map_remove_def distinct_map_filter)

lemma responder_unique:
  assumes "queue_inv q" "(k, r) \<in> set (aq_pending q)" "(k', r') \<in> set (aq_pending q)"
    "pe_responder r = pe_responder r'"
  shows "k = k' \<and> r = r'"
proof -
  have "inj_on (pe_responder \<circ> snd) (set (aq_pending q))"
    using assms(1) by (simp add: queue_inv_def distinct_map)
  from inj_onD[OF this _ assms(2,3)] assms(4) show ?thesis by simp
qed

text \<open>Taking one record out and settling its waiter keeps the invariant, as long as the timers of
  the other records stay.\<close>

lemma queue_inv_settle:
  assumes inv: "queue_inv q" and rec: "map_of (aq_pending q) key = Some rec" and w: "w \<noteq> Waiting"
    and ts: "\<And>k r. (k, r) \<in> set (aq_pending q) \<Longrightarrow> k \<noteq> key \<Longrightarrow>
      P \<lparr>tt_number = pe_timer r, tt_timeout_id = k, tt_request = pe_request r\<rparr>"
  shows "queue_inv (q\<lparr>aq_pending := map_remove key (aq_pending q), aq_timers := filter P (aq_timers q),
    aq_waiters := (aq_waiters q)(pe_responder rec := w), aq_log := l\<rparr>)"
proof -
  have mem: "(key, rec) \<in> set (aq_pending q)" using rec by (rule map_of_SomeD)
  have ok: "record_ok (q\<lparr>aq_pending := map_remove key (aq_pending q), aq_timers := filter P (aq_timers q),
      aq_waiters := (aq_waiters q)(pe_responder rec := w), aq_log := l\<rparr>) (k, r)"
    if "(k, r) \<in> set (aq_pending q)" "k \<noteq> key" for k r
    using inv that responder_unique[OF inv that(1) mem] ts[OF that]
    by (auto simp: queue_inv_def record_ok_def)
  have lt: "pe_responder rec < aq_next q" using inv mem by (auto simp: queue_inv_def record_ok_def)
  have wait: "n \<in> (pe_responder \<circ> snd) ` set (map_remove key (aq_pending q))"
    if "n < aq_next q" "((aq_waiters q)(pe_responder rec := w)) n = Waiting" for n
  proof -
    have n: "n \<noteq> pe_responder rec" using that w by auto
    with that inv obtain e where e: "e \<in> set (aq_pending q)" "n = pe_responder (snd e)"
      by (auto simp: queue_inv_def)
    have "map_of (aq_pending q) (fst e) = Some (snd e)"
      using inv e(1) by (intro map_of_is_SomeI) (auto simp: queue_inv_def)
    with n e(2) rec have "fst e \<noteq> key" by auto
    with e show ?thesis by (auto simp: set_map_remove)
  qed
  show ?thesis
    using inv wait ok lt length_map_remove[of key "aq_pending q"]
    by (auto simp: queue_inv_def distinct_map_remove set_map_remove distinct_map_filter)
qed

lemma queue_inv_insert:
  assumes inv: "queue_inv q" and fresh: "rq_id req \<notin> fst ` set (aq_pending q)"
    and room: "length (aq_pending q) < aq_max_pending q"
  shows "queue_inv (q\<lparr>aq_pending := (rq_id req, \<lparr>pe_request = req, pe_responder = aq_next q, pe_timer = aq_next q\<rparr>)
        # aq_pending q,
      aq_timers := aq_timers q @ [\<lparr>tt_number = aq_next q, tt_timeout_id = rq_id req, tt_request = req\<rparr>],
      aq_next := aq_next q + 1, aq_log := l\<rparr>)"
proof -
  have lt: "pe_responder r < aq_next q" if "(k, r) \<in> set (aq_pending q)" for k r
    using inv that by (auto simp: queue_inv_def record_ok_def)
  have "aq_next q \<notin> (pe_responder \<circ> snd) ` set (aq_pending q)" using lt by force
  moreover have "aq_next q \<notin> tt_number ` set (aq_timers q)" using inv by (force simp: queue_inv_def)
  ultimately show ?thesis
    using inv fresh room by (auto simp: queue_inv_def record_ok_def less_Suc_eq)
qed

lemma queue_inv_push: "queue_inv q \<Longrightarrow> queue_inv (snd (queue_push req q))"
proof (cases "length (aq_pending q) \<ge> aq_max_pending q")
  case True
  then show "queue_inv q \<Longrightarrow> ?thesis" by (simp add: queue_push_def)
next
  case False
  assume inv: "queue_inv q"
  have fresh: "rq_id req \<notin> fst ` set (map_remove (rq_id req) (aq_pending q))"
    by (auto simp: set_map_remove)
  show ?thesis
  proof (cases "map_of (aq_pending q) (rq_id req)")
    case None
    have "rq_id req \<notin> fst ` set (aq_pending q)" using None by (simp add: map_of_eq_None_iff)
    with None False inv show ?thesis
      using queue_inv_insert[OF inv] by (simp add: queue_push_def Let_def map_remove_absent)
  next
    case (Some old)
    let ?q = "q\<lparr>aq_pending := map_remove (rq_id req) (aq_pending q), aq_timers := filter (\<lambda>_. True) (aq_timers q),
      aq_waiters := (aq_waiters q)(pe_responder old := Closed), aq_log := aq_log q\<rparr>"
    have "queue_inv ?q" using inv Some by (rule queue_inv_settle) simp_all
    from queue_inv_insert[OF this, of req "aq_log q @ [OnPush req]"] fresh False Some
      length_map_remove[of "rq_id req" "aq_pending q"]
    show ?thesis by (cases q) (simp add: queue_push_def Let_def)
  qed
qed

lemma queue_inv_timeout: "queue_inv q \<Longrightarrow> t \<in> set (aq_timers q) \<Longrightarrow> queue_inv (queue_timeout t q)"
proof (cases "map_of (aq_pending q) (tt_timeout_id t)")
  case None
  assume inv: "queue_inv q"
  have "tt_timeout_id t \<noteq> k" if "(k, r) \<in> set (aq_pending q)" for k r
    using None that by (auto simp: map_of_eq_None_iff rev_image_eqI)
  with inv None show ?thesis
    by (auto simp: queue_timeout_def queue_inv_def record_ok_def removeAll_filter_not_eq distinct_map_filter)
next
  case (Some rec)
  assume inv: "queue_inv q"
  have "queue_inv (q\<lparr>aq_pending := map_remove (tt_timeout_id t) (aq_pending q),
      aq_timers := filter (\<lambda>x. t \<noteq> x) (aq_timers q),
      aq_waiters := (aq_waiters q)(pe_responder rec := Received timeout_result),
      aq_log := aq_log q @ [OnResolve (tt_request t) timeout_result]\<rparr>)"
    using inv Some by (rule queue_inv_settle) auto
  with Some show ?thesis by (cases q) (simp add: queue_timeout_def removeAll_filter_not_eq)
qed

lemma queue_inv_respond: "queue_inv q \<Longrightarrow> queue_inv (snd (queue_respond key dec note q))"
proof (cases "map_of (aq_pending q) key")
  case (Some rec)
  assume inv: "queue_inv q"
  have timer: "pe_timer r = pe_responder r" if "(k, r) \<in> set (aq_pending q)" for k r
    using inv that by (auto simp: queue_inv_def record_ok_def)
  note mem = map_of_SomeD[OF Some]
  have "pe_timer r \<noteq> pe_timer rec" if "(k, r) \<in> set (aq_pending q)" "k \<noteq> key" for k r
    using that responder_unique[OF inv that(1) mem] timer[OF that(1)] timer[OF mem] by auto
  then have "queue_inv (q\<lparr>aq_pending := map_remove key (aq_pending q),
      aq_timers := filter (\<lambda>t. tt_number t \<noteq> pe_timer rec) (aq_timers q),
      aq_waiters := (aq_waiters q)(pe_responder rec := Received \<lparr>ar_decision = dec, ar_note = note\<rparr>),
      aq_log := aq_log q @ [OnResolve (pe_request rec) \<lparr>ar_decision = dec, ar_note = note\<rparr>]\<rparr>)"
    by (intro queue_inv_settle[OF inv Some]) auto
  with Some show ?thesis by (simp add: queue_respond_def Let_def)
qed (simp add: queue_respond_def)

lemma drain_fold:
  "aq_pending (fold (drain_one reason) rs q) = aq_pending q"
  "aq_max_pending (fold (drain_one reason) rs q) = aq_max_pending q"
  "aq_next (fold (drain_one reason) rs q) = aq_next q"
  "aq_timers (fold (drain_one reason) rs q) = filter (\<lambda>t. tt_number t \<notin> pe_timer ` set rs) (aq_timers q)"
  "aq_waiters (fold (drain_one reason) rs q) n = (if n \<in> pe_responder ` set rs
     then Received \<lparr>ar_decision = Deny, ar_note = Some reason\<rparr> else aq_waiters q n)"
  by (induction rs arbitrary: q) (auto simp: drain_one_def Let_def conj_commute intro: filter_cong)

lemma queue_drain_deny_simps:
  "aq_pending (queue_drain_deny reason q) = []"
  "aq_max_pending (queue_drain_deny reason q) = aq_max_pending q"
  "aq_next (queue_drain_deny reason q) = aq_next q"
  "aq_timers (queue_drain_deny reason q) =
     filter (\<lambda>t. tt_number t \<notin> pe_timer ` snd ` set (aq_pending q)) (aq_timers q)"
  "aq_waiters (queue_drain_deny reason q) n =
     (if n \<in> (pe_responder \<circ> snd) ` set (aq_pending q)
      then Received \<lparr>ar_decision = Deny, ar_note = Some reason\<rparr> else aq_waiters q n)"
  by (simp_all add: queue_drain_deny_def drain_fold image_comp)

lemma queue_inv_drain: "queue_inv q \<Longrightarrow> queue_inv (queue_drain_deny reason q)"
proof -
  assume inv: "queue_inv q"
  then have "n \<notin> (pe_responder \<circ> snd) ` set (aq_pending q)" if "n \<ge> aq_next q" for n
    using that by (force simp: queue_inv_def record_ok_def)
  with inv show ?thesis
    by (auto simp: queue_inv_def queue_drain_deny_simps distinct_map_filter)
qed

lemma queue_inv_step: "queue_step q q' \<Longrightarrow> queue_inv q \<Longrightarrow> queue_inv q'"
  by (induction rule: queue_step.induct)
    (metis queue_inv_push snd_conv, metis queue_inv_respond snd_conv, simp_all add: queue_inv_timeout queue_inv_drain)

lemma queue_max_step: "queue_step q q' \<Longrightarrow> aq_max_pending q' = aq_max_pending q"
  by (induction rule: queue_step.induct)
    (auto simp: queue_push_def queue_respond_def queue_timeout_def queue_drain_deny_simps Let_def
      split: if_splits option.splits)

lemma queue_reach_inv: "queue_reach m q \<Longrightarrow> queue_inv q \<and> aq_max_pending q = m"
  by (induction rule: queue_reach.induct)
    (auto simp: queue_inv_new queue_inv_step queue_max_step, simp add: queue_new_def)

subsection \<open>What the queue promises\<close>

text \<open>
  C16. No request is lost. In every reachable state the queue holds at most \<open>max_pending\<close> requests
  under distinct ids, a waiter that has pushed is still waiting exactly when its request is
  pending, and every pending request has its own timer task asleep; when that timer fires the
  waiter gets \<open>Deny\<close> with the note \<open>timeout\<close> and the request leaves the queue.
\<close>

theorem queue_no_lost_request:
  assumes "queue_reach m q"
  shows "queue_size q \<le> m \<and> distinct (map fst (aq_pending q)) \<and>
    (\<forall>n<aq_next q. push_result n q = None \<longleftrightarrow> n \<in> (pe_responder \<circ> snd) ` set (aq_pending q)) \<and>
    (\<forall>key rec. map_of (aq_pending q) key = Some rec \<longrightarrow>
      (\<exists>t\<in>set (aq_timers q). tt_timeout_id t = key \<and> tt_number t = pe_timer rec \<and>
        push_result (pe_responder rec) (queue_timeout t q) = Some (Inr timeout_result) \<and>
        map_of (aq_pending (queue_timeout t q)) key = None))"
proof -
  have inv: "queue_inv q" "aq_max_pending q = m" using queue_reach_inv[OF assms] by auto
  have timer: "\<exists>t\<in>set (aq_timers q). tt_timeout_id t = key \<and> tt_number t = pe_timer rec \<and>
      push_result (pe_responder rec) (queue_timeout t q) = Some (Inr timeout_result) \<and>
      map_of (aq_pending (queue_timeout t q)) key = None"
    if "map_of (aq_pending q) key = Some rec" for key rec
  proof -
    have "\<lparr>tt_number = pe_timer rec, tt_timeout_id = key, tt_request = pe_request rec\<rparr> \<in> set (aq_timers q)"
      using inv(1) map_of_SomeD[OF that] by (auto simp: queue_inv_def record_ok_def)
    then show ?thesis
      using that by (intro bexI) (auto simp: queue_timeout_def push_result_def Let_def map_of_eq_None_iff set_map_remove)
  qed
  have "push_result n q = None \<longleftrightarrow> n \<in> (pe_responder \<circ> snd) ` set (aq_pending q)" if "n < aq_next q" for n
    using inv(1) that by (auto simp: queue_inv_def record_ok_def push_result_def split: waiter.splits)
  with inv timer show ?thesis by (simp add: queue_inv_def queue_size_def)
qed

definition sample_request :: "string \<Rightarrow> approval_request" where
  "sample_request i = \<lparr>rq_id = i, rq_actor = ''tf:actor:agent:x'', rq_action = ''db.drop'', rq_target = None,
     rq_danger_tags = None, rq_reason = [], rq_created_at = [], rq_expires_at = None\<rparr>"

lemma sample_reach: "queue_reach 2 (snd (queue_push (sample_request ''a'') (queue_new 2)))"
  by (rule queue_reach.step[OF queue_reach.start]) (rule queue_step.push, rule prod.collapse[symmetric])

theorem queue_no_lost_request_witness:
  "queue_size (snd (queue_push (sample_request ''a'') (queue_new 2))) \<le> 2"
  using queue_no_lost_request[OF sample_reach] by blast

text \<open>
  C33. Only a response approves. Whatever step the system takes, a waiter receives \<open>Approve\<close> in it only
  if the step is a \<open>respond\<close> with \<open>Approve\<close> for the id under which that waiter's request is pending;
  timers, drains and pushes never approve.
\<close>

theorem approve_only_by_respond:
  assumes "queue_step q q'" "aq_waiters q n \<noteq> Received r" "aq_waiters q' n = Received r"
    "ar_decision r = Approve"
  shows "\<exists>key rec. map_of (aq_pending q) key = Some rec \<and> pe_responder rec = n \<and>
    (True, q') = queue_respond key Approve (ar_note r) q"
  using assms
proof (induction rule: queue_step.induct)
  case (push request q r' q')
  then show ?case
    by (auto simp: queue_push_def Let_def split: if_splits option.splits)
next
  case (respond request_id dec nt q b q')
  then obtain rec where rec: "map_of (aq_pending q) request_id = Some rec"
    by (auto simp: queue_respond_def split: option.splits)
  then have "pe_responder rec = n" "dec = Approve" "nt = ar_note r" "b"
    using respond by (auto simp: queue_respond_def Let_def split: if_splits)
  then show ?case using rec respond.hyps by (intro exI[of _ request_id] exI[of _ rec]) auto
next
  case (fire t q)
  then show ?case
    by (auto simp: queue_timeout_def timeout_result_def Let_def split: if_splits option.splits)
next
  case (drain q reason)
  then show ?case by (auto simp: queue_drain_deny_simps split: if_splits)
qed

theorem approve_only_by_respond_witness:
  "\<exists>key rec. map_of (aq_pending (snd (queue_push (sample_request ''a'') (queue_new 2)))) key = Some rec \<and>
     pe_responder rec = 0"
proof -
  let ?q = "snd (queue_push (sample_request ''a'') (queue_new 2))"
  let ?q' = "snd (queue_respond ''a'' Approve None ?q)"
  have s: "queue_step ?q ?q'" by (rule queue_step.respond) (rule prod.collapse[symmetric])
  have "aq_waiters ?q 0 = Waiting" "aq_waiters ?q' 0 = Received \<lparr>ar_decision = Approve, ar_note = None\<rparr>"
    by (simp_all add: queue_push_def queue_new_def queue_respond_def sample_request_def map_remove_def Let_def)
  then show ?thesis
    using approve_only_by_respond[OF s, of 0 "\<lparr>ar_decision = Approve, ar_note = None\<rparr>"] by auto
qed

text \<open>
  Pushing an id again while it is pending breaks both waiters: the first gets \<open>ChannelClosed\<close>
  instead of a decision, and the timer it leaves behind denies the second request although the
  second request's own timer has not fired.
\<close>

lemma duplicate_id_early_timeout:
  "\<exists>q t. queue_reach 4 q \<and> t \<in> set (aq_timers q) \<and> aq_next q = 2 \<and>
     push_result 0 q = Some (Inl ChannelClosed) \<and> push_result 1 q = None \<and>
     push_result 1 (queue_timeout t q) = Some (Inr timeout_result) \<and>
     (\<exists>u\<in>set (aq_timers (queue_timeout t q)). tt_number u = 1)"
proof -
  let ?r = "sample_request ''a''"
  let ?q = "snd (queue_push ?r (snd (queue_push ?r (queue_new 4))))"
  let ?t = "\<lparr>tt_number = 0, tt_timeout_id = ''a'', tt_request = ?r\<rparr>"
  have "queue_reach 4 ?q"
    by (rule queue_reach.step[OF queue_reach.step[OF queue_reach.start]])
      (rule queue_step.push, rule prod.collapse[symmetric])+
  then show ?thesis
    by (intro exI[of _ ?q] exI[of _ ?t])
      (simp add: queue_push_def queue_new_def sample_request_def map_remove_def queue_timeout_def
        push_result_def Let_def)
qed

end
