(* ===== verification/Base64.thy ===== *)
theory Base64
  imports Envelope
begin

unbundle bit_operations_syntax

text \<open>
  \<open>crates/tf-types/src/encoding.rs\<close>: the base64 codec. An engine is an alphabet and a padding policy;
  the two constants are \<open>STANDARD\<close> and \<open>URL_SAFE_NO_PAD\<close>. Symbols are assembled in a \<open>u32\<close>, here a
  \<open>32 word\<close> with the same shifts and masks. Encoded text is a \<open>string\<close>, decoded data \<open>bytes\<close>.
\<close>

subsection \<open>The codec\<close>

datatype decode_error =
    InvalidByte nat byte
  | InvalidLength nat
  | InvalidPadding
  | InvalidTrailingBits

record engine =
  en_alphabet :: string
  en_padded :: bool

definition STD_ALPHABET :: string where
  "STD_ALPHABET = ''ABCDEFGHIJKLMNOPQRSTUVWXYZabcdefghijklmnopqrstuvwxyz0123456789+/''"

definition URL_ALPHABET :: string where
  "URL_ALPHABET = ''ABCDEFGHIJKLMNOPQRSTUVWXYZabcdefghijklmnopqrstuvwxyz0123456789-_''"

definition STANDARD :: engine where
  "STANDARD = \<lparr>en_alphabet = STD_ALPHABET, en_padded = True\<rparr>"

definition URL_SAFE_NO_PAD :: engine where
  "URL_SAFE_NO_PAD = \<lparr>en_alphabet = URL_ALPHABET, en_padded = False\<rparr>"

definition u32_of :: "byte \<Rightarrow> 32 word" where
  "u32_of b = ucast b"

text \<open>Three bytes and four symbols as one \<open>u32\<close>.\<close>

definition bytes24 :: "byte \<Rightarrow> byte \<Rightarrow> byte \<Rightarrow> 32 word" where
  "bytes24 a b c = push_bit 16 (u32_of a) OR push_bit 8 (u32_of b) OR u32_of c"

definition syms24 :: "32 word \<Rightarrow> 32 word \<Rightarrow> 32 word \<Rightarrow> 32 word \<Rightarrow> 32 word" where
  "syms24 p q r t = push_bit 18 p OR push_bit 12 q OR push_bit 6 r OR t"

text \<open>\<open>alphabet[(n >> k) as usize & 63]\<close>\<close>

definition symbol :: "string \<Rightarrow> 32 word \<Rightarrow> nat \<Rightarrow> char" where
  "symbol alphabet n k = alphabet ! unat (drop_bit k n AND 63)"

fun encode_chunks :: "engine \<Rightarrow> bytes \<Rightarrow> string" where
  "encode_chunks e (a # b # c # rest) =
     (let n = bytes24 a b c in
      [symbol (en_alphabet e) n 18, symbol (en_alphabet e) n 12, symbol (en_alphabet e) n 6,
       symbol (en_alphabet e) n 0] @ encode_chunks e rest)"
| "encode_chunks e [] = []"
| "encode_chunks e [a] =
     (let n = push_bit 16 (u32_of a) in
      [symbol (en_alphabet e) n 18, symbol (en_alphabet e) n 12] @ (if en_padded e then ''=='' else []))"
| "encode_chunks e [a, b] =
     (let n = push_bit 16 (u32_of a) OR push_bit 8 (u32_of b) in
      [symbol (en_alphabet e) n 18, symbol (en_alphabet e) n 12, symbol (en_alphabet e) n 6] @
      (if en_padded e then ''='' else []))"

definition base64_encode :: "engine \<Rightarrow> bytes \<Rightarrow> string" where
  "base64_encode e input = encode_chunks e input"

definition decode_symbol :: "string \<Rightarrow> char \<Rightarrow> nat option" where
  "decode_symbol alphabet c =
     (let b = of_char c in
      if 65 \<le> b \<and> b \<le> 90 then Some (b - 65)
      else if 97 \<le> b \<and> b \<le> 122 then Some (b - 97 + 26)
      else if 48 \<le> b \<and> b \<le> 57 then Some (b - 48 + 52)
      else if c = CHR ''+'' \<and> alphabet ! 62 = CHR ''+'' then Some 62
      else if c = CHR ''/'' \<and> alphabet ! 63 = CHR ''/'' then Some 63
      else if c = CHR ''-'' \<and> alphabet ! 62 = CHR ''-'' then Some 62
      else if c = CHR ''_'' \<and> alphabet ! 63 = CHR ''_'' then Some 63
      else None)"

definition sym :: "string \<Rightarrow> nat \<Rightarrow> char \<Rightarrow> decode_error + 32 word" where
  "sym alphabet offset c =
     (case decode_symbol alphabet c of
        Some v \<Rightarrow> Inr (of_nat v)
      | None \<Rightarrow> Inl (InvalidByte offset (of_char c)))"

text \<open>The loop over \<open>chunks_exact(4)\<close> and its remainder. A remainder of one symbol is
  \<open>unreachable!\<close> in the source: \<open>base64_decode\<close> has rejected its length before.\<close>

fun decode_chunks :: "string \<Rightarrow> nat \<Rightarrow> string \<Rightarrow> decode_error + bytes" where
  "decode_chunks al offset (a # b # c # d # rest) =
     rbind (sym al offset a) (\<lambda>s0.
     rbind (sym al (offset + 1) b) (\<lambda>s1.
     rbind (sym al (offset + 2) c) (\<lambda>s2.
     rbind (sym al (offset + 3) d) (\<lambda>s3.
       let n = syms24 s0 s1 s2 s3 in
       rbind (decode_chunks al (offset + 4) rest) (\<lambda>out.
         Inr ([ucast (drop_bit 16 n), ucast (drop_bit 8 n), ucast n] @ out))))))"
| "decode_chunks al offset [] = Inr []"
| "decode_chunks al offset [a, b] =
     rbind (sym al offset a) (\<lambda>s0.
     rbind (sym al (offset + 1) b) (\<lambda>s1.
       let n = push_bit 18 s0 OR push_bit 12 s1 in
       if n AND 0xFFFF \<noteq> 0 then Inl InvalidTrailingBits else Inr [ucast (drop_bit 16 n)]))"
| "decode_chunks al offset [a, b, c] =
     rbind (sym al offset a) (\<lambda>s0.
     rbind (sym al (offset + 1) b) (\<lambda>s1.
     rbind (sym al (offset + 2) c) (\<lambda>s2.
       let n = push_bit 18 s0 OR push_bit 12 s1 OR push_bit 6 s2 in
       if n AND 0xFF \<noteq> 0 then Inl InvalidTrailingBits
       else Inr [ucast (drop_bit 16 n), ucast (drop_bit 8 n)])))"
| "decode_chunks al offset [a] = Inl (InvalidLength (offset + 1))"

definition ends_with :: "string \<Rightarrow> string \<Rightarrow> bool" where
  "ends_with s suffix = (length suffix \<le> length s \<and> drop (length s - length suffix) s = suffix)"

definition strip_padding :: "string \<Rightarrow> string" where
  "strip_padding s =
     (if ends_with s ''=='' then take (length s - 2) s
      else if ends_with s ''='' then take (length s - 1) s
      else s)"

definition decode_symbols :: "engine \<Rightarrow> string \<Rightarrow> decode_error + bytes" where
  "decode_symbols e input =
     (if length input mod 4 = 1 then Inl (InvalidLength (length input))
      else decode_chunks (en_alphabet e) 0 input)"

definition base64_decode :: "engine \<Rightarrow> string \<Rightarrow> decode_error + bytes" where
  "base64_decode e input =
     (if en_padded e then
        if length input mod 4 \<noteq> 0 then
          Inl (if length input mod 4 = 1 \<and> CHR ''='' \<notin> set input
               then InvalidLength (length input) else InvalidPadding)
        else decode_symbols e (strip_padding input)
      else decode_symbols e input)"

text \<open>\<open>Display\<close> of a decode error.\<close>

fun decode_error_str :: "decode_error \<Rightarrow> string" where
  "decode_error_str (InvalidByte offset b) =
     ''invalid base64 byte 0x'' @ hex_byte b @ '' at offset '' @ show_nat offset"
| "decode_error_str (InvalidLength len) = ''invalid base64 length '' @ show_nat len"
| "decode_error_str InvalidPadding = ''invalid base64 padding''"
| "decode_error_str InvalidTrailingBits = ''non-canonical base64 trailing bits''"

subsection \<open>Symbols\<close>

definition good_alphabet :: "string \<Rightarrow> bool" where
  "good_alphabet al \<longleftrightarrow> al = STD_ALPHABET \<or> al = URL_ALPHABET"

lemma alphabet_specials [simp]:
  "STD_ALPHABET ! 62 = CHR ''+''" "STD_ALPHABET ! 63 = CHR ''/''"
  "URL_ALPHABET ! 62 = CHR ''-''" "URL_ALPHABET ! 63 = CHR ''_''"
  "length STD_ALPHABET = 64" "length URL_ALPHABET = 64"
  by (simp_all add: STD_ALPHABET_def URL_ALPHABET_def)

lemma alphabet_decodes:
  "map (decode_symbol STD_ALPHABET) STD_ALPHABET = map Some [0..<64]"
  "map (decode_symbol URL_ALPHABET) URL_ALPHABET = map Some [0..<64]"
proof -
  have "map (decode_symbol STD_ALPHABET)
      ''ABCDEFGHIJKLMNOPQRSTUVWXYZabcdefghijklmnopqrstuvwxyz0123456789+/'' = map Some [0..<64]"
    by (simp add: decode_symbol_def Let_def upt_rec)
  then show "map (decode_symbol STD_ALPHABET) STD_ALPHABET = map Some [0..<64]"
    by (simp only: STD_ALPHABET_def[symmetric])
  have "map (decode_symbol URL_ALPHABET)
      ''ABCDEFGHIJKLMNOPQRSTUVWXYZabcdefghijklmnopqrstuvwxyz0123456789-_'' = map Some [0..<64]"
    by (simp add: decode_symbol_def Let_def upt_rec)
  then show "map (decode_symbol URL_ALPHABET) URL_ALPHABET = map Some [0..<64]"
    by (simp only: URL_ALPHABET_def[symmetric])
qed

lemma length_alphabet: "good_alphabet al \<Longrightarrow> length al = 64"
  by (auto simp: good_alphabet_def)

lemma decode_symbol_nth:
  assumes "good_alphabet al" "i < 64" shows "decode_symbol al (al ! i) = Some i"
proof -
  have "map (decode_symbol al) al = map Some [0..<64]"
    using assms(1) alphabet_decodes by (auto simp: good_alphabet_def)
  then have "map (decode_symbol al) al ! i = map Some [0..<64] ! i" by simp
  then show ?thesis using assms by (simp add: length_alphabet)
qed

lemma letters_in_alphabet:
  "set (map char_of ([65..<91] @ [97..<123] @ [48..<(58::nat)])) \<subseteq> set STD_ALPHABET"
  "set (map char_of ([65..<91] @ [97..<123] @ [48..<(58::nat)])) \<subseteq> set URL_ALPHABET"
proof -
  have e: "map char_of ([65..<91] @ [97..<123] @ [48..<(58::nat)]) =
      ''ABCDEFGHIJKLMNOPQRSTUVWXYZabcdefghijklmnopqrstuvwxyz0123456789''"
    by (simp add: upt_rec char_of_def bit_0)
  show "set (map char_of ([65..<91] @ [97..<123] @ [48..<(58::nat)])) \<subseteq> set STD_ALPHABET"
    unfolding e STD_ALPHABET_def by auto
  show "set (map char_of ([65..<91] @ [97..<123] @ [48..<(58::nat)])) \<subseteq> set URL_ALPHABET"
    unfolding e URL_ALPHABET_def by auto
qed

lemma decode_symbol_Some:
  assumes al: "good_alphabet al" and c: "decode_symbol al c = Some i"
  shows "i < 64 \<and> al ! i = c"
proof -
  have "c \<in> set al"
  proof (cases "c \<in> {CHR ''+'', CHR ''/'', CHR ''-'', CHR ''_''}")
    case True
    with al c show ?thesis
      by (auto simp: good_alphabet_def decode_symbol_def STD_ALPHABET_def URL_ALPHABET_def)
  next
    case False
    then have "(of_char c :: nat) \<in> set ([65..<91] @ [97..<123] @ [48..<58])"
      unfolding set_append set_upt atLeastLessThan_iff Un_iff
      using c by (auto simp: decode_symbol_def Let_def split: if_splits)
    then have "char_of (of_char c :: nat) \<in> set (map char_of ([65..<91] @ [97..<123] @ [48..<(58::nat)]))"
      by (metis imageI list.set_map)
    then show ?thesis using al letters_in_alphabet by (auto simp: good_alphabet_def)
  qed
  then obtain j where "j < 64" "al ! j = c" by (metis al in_set_conv_nth length_alphabet)
  with decode_symbol_nth[OF al] c show ?thesis by auto
qed

lemma decode_symbol_eq: "good_alphabet al \<Longrightarrow> decode_symbol al c = Some i \<longleftrightarrow> i < 64 \<and> al ! i = c"
  using decode_symbol_nth decode_symbol_Some by blast

lemma decode_symbol_pad [simp]: "decode_symbol al (CHR ''='') = None"
  by (simp add: decode_symbol_def)

subsection \<open>Bits\<close>

lemma and_63: "(x :: 32 word) AND 63 = take_bit 6 x"
  by (simp add: take_bit_eq_mask mask_numeral)

lemma and_FF: "(x :: 32 word) AND 0xFF = take_bit 8 x"
  by (simp add: take_bit_eq_mask mask_numeral)

lemma and_FFFF: "(x :: 32 word) AND 0xFFFF = take_bit 16 x"
  by (simp add: take_bit_eq_mask mask_numeral)

text \<open>A symbol value is below 64, and reading the symbol gives it back.\<close>

lemma sym_symbol:
  assumes "good_alphabet al"
  shows "sym al off (symbol al n k) = Inr (take_bit 6 (drop_bit k n))"
proof -
  have lt: "unat (take_bit 6 (drop_bit k n)) < 64"
    using take_bit_nat_less_exp[of 6 "unat (drop_bit k n)"] by (simp add: unsigned_take_bit_eq)
  show ?thesis
    unfolding sym_def symbol_def and_63 decode_symbol_nth[OF assms lt] by simp
qed

lemma sym_Inr_iff:
  assumes "good_alphabet al"
  shows "sym al off c = Inr v \<longleftrightarrow> unat v < 64 \<and> al ! unat v = c"
proof
  assume "sym al off c = Inr v"
  then obtain i where i: "decode_symbol al c = Some i" "v = of_nat i"
    by (auto simp: sym_def split: option.splits)
  with decode_symbol_Some[OF assms i(1)] show "unat v < 64 \<and> al ! unat v = c" by (simp add: unat_of_nat)
next
  assume "unat v < 64 \<and> al ! unat v = c"
  then show "sym al off c = Inr v" using decode_symbol_nth[OF assms, of "unat v"] by (auto simp: sym_def)
qed

lemma bit_u32_of: "bit (u32_of b) i \<longleftrightarrow> i < 8 \<and> bit b i"
  by (auto simp: u32_of_def bit_ucast_iff dest: bit_imp_le_length)

lemma bit_bytes3:
  "bit (push_bit 16 (u32_of a) OR push_bit 8 (u32_of b) OR u32_of c) i \<longleftrightarrow>
   (16 \<le> i \<and> i < 24 \<and> bit a (i - 16)) \<or> (8 \<le> i \<and> i < 16 \<and> bit b (i - 8)) \<or> (i < 8 \<and> bit c i)"
  by (auto simp: bit_or_iff bit_push_bit_iff bit_u32_of)

lemma bit_below: "take_bit k (x :: 32 word) = x \<Longrightarrow> bit x j \<Longrightarrow> j < k"
  using bit_take_bit_iff by metis

lemma bit_push_symbol:
  "take_bit 6 (x :: 32 word) = x \<Longrightarrow> k \<le> 18 \<Longrightarrow> bit (push_bit k x) i \<longleftrightarrow> k \<le> i \<and> i < k + 6 \<and> bit x (i - k)"
  by (auto simp: bit_push_bit_iff dest: bit_below)

lemma bit_symbols4:
  fixes p q r t :: "32 word"
  assumes "take_bit 6 p = p" "take_bit 6 q = q" "take_bit 6 r = r" "take_bit 6 t = t"
  shows "bit (push_bit 18 p OR push_bit 12 q OR push_bit 6 r OR t) i \<longleftrightarrow>
   (18 \<le> i \<and> i < 24 \<and> bit p (i - 18)) \<or> (12 \<le> i \<and> i < 18 \<and> bit q (i - 12)) \<or>
   (6 \<le> i \<and> i < 12 \<and> bit r (i - 6)) \<or> (i < 6 \<and> bit t i)"
  using bit_below[OF assms(4), of i] assms by (auto simp: bit_or_iff bit_push_symbol)

lemma take_bit_split: "take_bit (k + m) (n :: 32 word) = push_bit k (take_bit m (drop_bit k n)) OR take_bit k n"
  by (rule bit_word_eqI) (auto simp: bit_simps)

lemma syms24_24:
  "take_bit 24 n = n \<Longrightarrow>
    syms24 (take_bit 6 (drop_bit 18 n)) (take_bit 6 (drop_bit 12 n)) (take_bit 6 (drop_bit 6 n))
      (take_bit 6 n) = n"
  unfolding syms24_def
  using take_bit_split[of 18 6 n] take_bit_split[of 12 6 n] take_bit_split[of 6 6 n] by simp

lemma bytes24_join [simp]:
  "take_bit 24 (bytes24 a b c) = bytes24 a b c" "ucast (drop_bit 16 (bytes24 a b c)) = a"
  "ucast (drop_bit 8 (bytes24 a b c)) = b" "ucast (bytes24 a b c) = c"
proof -
  have n: "bit (bytes24 a b c) i \<longleftrightarrow> (16 \<le> i \<and> i < 24 \<and> bit a (i - 16)) \<or> (8 \<le> i \<and> i < 16 \<and> bit b (i - 8)) \<or>
      (i < 8 \<and> bit c i)" for i unfolding bytes24_def by (rule bit_bytes3)
  show "take_bit 24 (bytes24 a b c) = bytes24 a b c" by (rule bit_word_eqI) (auto simp: n bit_take_bit_iff)
  show "ucast (drop_bit 16 (bytes24 a b c)) = a" "ucast (drop_bit 8 (bytes24 a b c)) = b"
      "ucast (bytes24 a b c) = c"
    by (rule bit_word_eqI, simp add: n bit_drop_bit_eq bit_ucast_iff)+
qed

lemma bytes24_split:
  assumes "take_bit 24 n = n"
  shows "bytes24 (ucast (drop_bit 16 n)) (ucast (drop_bit 8 n)) (ucast n) = n" (is "?m = n")
proof (rule bit_word_eqI)
  fix i :: nat
  note lt = bit_below[OF assms, of i]
  consider "i < 8" | "8 \<le> i \<and> i < 16" | "16 \<le> i" by linarith
  then show "bit ?m i = bit n i"
    unfolding bytes24_def
  proof cases
    case 1
    then show "bit (push_bit 16 (u32_of (ucast (drop_bit 16 n))) OR push_bit 8 (u32_of (ucast (drop_bit 8 n))) OR
      u32_of (ucast n)) i = bit n i" by (simp add: bit_bytes3 bit_ucast_iff)
  next
    case 2
    then show "bit (push_bit 16 (u32_of (ucast (drop_bit 16 n))) OR push_bit 8 (u32_of (ucast (drop_bit 8 n))) OR
      u32_of (ucast n)) i = bit n i" by (auto simp: bit_bytes3 bit_drop_bit_eq bit_ucast_iff)
  next
    case 3
    with lt show "bit (push_bit 16 (u32_of (ucast (drop_bit 16 n))) OR push_bit 8 (u32_of (ucast (drop_bit 8 n))) OR
      u32_of (ucast n)) i = bit n i" by (auto simp: bit_bytes3 bit_drop_bit_eq bit_ucast_iff)
  qed
qed

lemma syms24_join:
  assumes "take_bit 6 p = p" "take_bit 6 q = q" "take_bit 6 r = r" "take_bit 6 t = t"
  shows "take_bit 24 (syms24 p q r t) = syms24 p q r t" "take_bit 6 (drop_bit 18 (syms24 p q r t)) = p"
    "take_bit 6 (drop_bit 12 (syms24 p q r t)) = q" "take_bit 6 (drop_bit 6 (syms24 p q r t)) = r"
    "take_bit 6 (syms24 p q r t) = t"
proof -
  define n where "n = syms24 p q r t"
  have bits: "bit n i \<longleftrightarrow> (18 \<le> i \<and> i < 24 \<and> bit p (i - 18)) \<or> (12 \<le> i \<and> i < 18 \<and> bit q (i - 12)) \<or>
      (6 \<le> i \<and> i < 12 \<and> bit r (i - 6)) \<or> (i < 6 \<and> bit t i)" for i
    unfolding n_def syms24_def using assms(1-4) by (rule bit_symbols4)
  show "take_bit 24 (syms24 p q r t) = syms24 p q r t" unfolding n_def[symmetric]
    by (rule bit_word_eqI) (auto simp: bits bit_take_bit_iff)
  show "take_bit 6 (drop_bit 18 (syms24 p q r t)) = p" unfolding n_def[symmetric]
    by (rule bit_word_eqI, auto simp: bits bit_take_bit_iff bit_drop_bit_eq dest: bit_below[OF assms(1)])
  show "take_bit 6 (drop_bit 12 (syms24 p q r t)) = q" unfolding n_def[symmetric]
    by (rule bit_word_eqI, auto simp: bits bit_take_bit_iff bit_drop_bit_eq dest: bit_below[OF assms(2)])
  show "take_bit 6 (drop_bit 6 (syms24 p q r t)) = r" unfolding n_def[symmetric]
    by (rule bit_word_eqI, auto simp: bits bit_take_bit_iff bit_drop_bit_eq dest: bit_below[OF assms(3)])
  show "take_bit 6 (syms24 p q r t) = t" unfolding n_def[symmetric]
    by (rule bit_word_eqI, auto simp: bits bit_take_bit_iff bit_drop_bit_eq dest: bit_below[OF assms(4)])
qed

text \<open>The short groups are full groups with zeros.\<close>

lemma short_groups:
  "push_bit 16 (u32_of a) = bytes24 a 0 0" "push_bit 16 (u32_of a) OR push_bit 8 (u32_of b) = bytes24 a b 0"
  "push_bit 18 p OR push_bit 12 q = syms24 p q 0 0"
  "push_bit 18 p OR push_bit 12 q OR push_bit 6 r = syms24 p q r 0"
  by (simp_all add: bytes24_def syms24_def u32_of_def)

lemma short_symbols:
  "take_bit 6 (drop_bit 6 (bytes24 a 0 0)) = 0" "take_bit 6 (bytes24 a b 0) = 0"
  "take_bit 16 (bytes24 a 0 0) = 0" "take_bit 8 (bytes24 a b 0) = 0"
proof -
  have n: "bit (bytes24 a b c) i \<longleftrightarrow> (16 \<le> i \<and> i < 24 \<and> bit a (i - 16)) \<or> (8 \<le> i \<and> i < 16 \<and> bit b (i - 8)) \<or>
      (i < 8 \<and> bit c i)" for i a b c unfolding bytes24_def by (rule bit_bytes3)
  show "take_bit 6 (drop_bit 6 (bytes24 a 0 0)) = 0" "take_bit 6 (bytes24 a b 0) = 0"
    "take_bit 16 (bytes24 a 0 0) = 0" "take_bit 8 (bytes24 a b 0) = 0"
    by (rule bit_word_eqI, simp add: n bit_take_bit_iff bit_drop_bit_eq)+
qed

subsection \<open>Round trip and strictness\<close>

lemma take_bit_6_iff: "take_bit 6 (v :: 32 word) = v \<longleftrightarrow> unat v < 64"
  by (simp add: take_bit_eq_mod word_unat_eq_iff unat_mod) (metis mod_less_divisor mod_less zero_less_numeral)

abbreviation bare :: "string \<Rightarrow> engine" where
  "bare al \<equiv> \<lparr>en_alphabet = al, en_padded = False\<rparr>"

lemma decode_encode_chunks:
  assumes "good_alphabet al"
  shows "decode_chunks al off (encode_chunks (bare al) bs) = Inr bs"
proof (induction "bare al" bs arbitrary: off rule: encode_chunks.induct)
  case (1 a b c rest)
  then show ?case by (simp add: Let_def sym_symbol[OF assms] syms24_24)
next
  case (3 a)
  have "syms24 (take_bit 6 (drop_bit 18 (bytes24 a 0 0))) (take_bit 6 (drop_bit 12 (bytes24 a 0 0))) 0 0 =
      bytes24 a 0 0"
    using syms24_24[of "bytes24 a 0 0"] short_symbols(1,2)[of a] short_symbols(2)[of a 0] by simp
  then show ?case
    by (simp add: Let_def short_groups sym_symbol[OF assms] and_FFFF short_symbols)
next
  case (4 a b)
  have "syms24 (take_bit 6 (drop_bit 18 (bytes24 a b 0))) (take_bit 6 (drop_bit 12 (bytes24 a b 0)))
      (take_bit 6 (drop_bit 6 (bytes24 a b 0))) 0 = bytes24 a b 0"
    using syms24_24[of "bytes24 a b 0"] short_symbols(2)[of a b] by simp
  then show ?case
    by (simp add: Let_def short_groups(2-4) sym_symbol[OF assms] and_FF short_symbols)
qed simp

lemma sym_InrD:
  assumes "good_alphabet al" "sym al off c = Inr v"
  shows "take_bit 6 v = v" "al ! unat v = c"
  using assms by (simp_all add: sym_Inr_iff take_bit_6_iff)

lemma symbol_take: "symbol al n k = al ! unat (take_bit 6 (drop_bit k n))"
  by (simp add: symbol_def and_63)

lemma take_bit_0_bit: "take_bit k (n :: 32 word) = 0 \<Longrightarrow> i < k \<Longrightarrow> \<not> bit n i"
  by (metis bit_0_eq bit_take_bit_iff bot_apply bot_bool_def)

lemma low_byte_zero:
  "take_bit 8 (n :: 32 word) = 0 \<Longrightarrow> (ucast n :: byte) = 0"
  by (rule bit_word_eqI) (simp add: bit_ucast_iff take_bit_0_bit)

lemma low_bytes_zero:
  "take_bit 16 (n :: 32 word) = 0 \<Longrightarrow> (ucast (drop_bit 8 n) :: byte) = 0 \<and> (ucast n :: byte) = 0"
  by (intro conjI bit_word_eqI) (simp_all add: bit_ucast_iff bit_drop_bit_eq take_bit_0_bit)

lemma encode_decode_chunks:
  "good_alphabet al \<Longrightarrow> decode_chunks al off s = Inr bs \<Longrightarrow> encode_chunks (bare al) bs = s"
proof (induction al off s arbitrary: bs rule: decode_chunks.induct)
  case (1 al off a b c d rest)
  note al = 1(2)
  from 1(3) obtain s0 s1 s2 s3 out where
    s: "sym al off a = Inr s0" "sym al (off + 1) b = Inr s1" "sym al (off + 2) c = Inr s2"
      "sym al (off + 3) d = Inr s3" "decode_chunks al (off + 4) rest = Inr out"
    and bs: "bs = [ucast (drop_bit 16 (syms24 s0 s1 s2 s3)), ucast (drop_bit 8 (syms24 s0 s1 s2 s3)),
      ucast (syms24 s0 s1 s2 s3)] @ out"
    by (auto simp: Let_def rbind_Inr_iff)
  note t = s(1-4)[THEN sym_InrD(1)[OF al]] and c = s(1-4)[THEN sym_InrD(2)[OF al]]
  have "encode_chunks (bare al) out = rest" using 1 s by blast
  then show ?case
    unfolding bs by (simp add: bytes24_split syms24_join[OF t] symbol_take c Let_def)
next
  case (3 al off a b)
  note al = 3(1)
  from 3(2) obtain s0 s1 where s: "sym al off a = Inr s0" "sym al (off + 1) b = Inr s1"
    and z: "take_bit 16 (syms24 s0 s1 0 0) = 0" and bs: "bs = [ucast (drop_bit 16 (syms24 s0 s1 0 0))]"
    by (auto simp: Let_def rbind_Inr_iff short_groups and_FFFF split: if_splits)
  note t = s[THEN sym_InrD(1)[OF al]] and c = s[THEN sym_InrD(2)[OF al]]
  note j = syms24_join[OF t, of 0 0, simplified]
  have "bytes24 (ucast (drop_bit 16 (syms24 s0 s1 0 0))) 0 0 = syms24 s0 s1 0 0"
    using bytes24_split[OF j(1)] low_bytes_zero[OF z] by simp
  then show ?case unfolding bs by (simp add: Let_def short_groups symbol_take j c)
next
  case (4 al off a b c)
  note al = 4(1)
  from 4(2) obtain s0 s1 s2 where
    s: "sym al off a = Inr s0" "sym al (off + 1) b = Inr s1" "sym al (off + 2) c = Inr s2"
    and z: "take_bit 8 (syms24 s0 s1 s2 0) = 0"
    and bs: "bs = [ucast (drop_bit 16 (syms24 s0 s1 s2 0)), ucast (drop_bit 8 (syms24 s0 s1 s2 0))]"
    by (auto simp: Let_def rbind_Inr_iff short_groups(4) and_FF split: if_splits)
  note t = s[THEN sym_InrD(1)[OF al]] and c = s[THEN sym_InrD(2)[OF al]]
  note j = syms24_join[OF t, of 0, simplified]
  have "bytes24 (ucast (drop_bit 16 (syms24 s0 s1 s2 0))) (ucast (drop_bit 8 (syms24 s0 s1 s2 0))) 0 =
      syms24 s0 s1 s2 0"
    using bytes24_split[OF j(1)] low_byte_zero[OF z] by simp
  then show ?case unfolding bs by (simp add: Let_def short_groups(2) symbol_take j c)
qed simp_all

lemma decode_chunks_iff:
  "good_alphabet al \<Longrightarrow> decode_chunks al off s = Inr bs \<longleftrightarrow> s = encode_chunks (bare al) bs"
  using encode_decode_chunks decode_encode_chunks by blast

subsection \<open>Padding\<close>

lemma length_encode_chunks:
  "length (encode_chunks (bare al) bs) mod 4 = (if length bs mod 3 = 0 then 0 else length bs mod 3 + 1)"
  by (induction "bare al" bs rule: encode_chunks.induct) (auto simp: Let_def mod_Suc)

definition pad_count :: "string \<Rightarrow> nat" where
  "pad_count s = (4 - length s mod 4) mod 4"

lemma encode_chunks_padded:
  "encode_chunks \<lparr>en_alphabet = al, en_padded = True\<rparr> bs =
     encode_chunks (bare al) bs @ replicate (pad_count (encode_chunks (bare al) bs)) (CHR ''='')"
proof (induction "bare al" bs rule: encode_chunks.induct)
  case (1 a b c rest)
  have "Suc (Suc (Suc (Suc n))) mod 4 = n mod 4" for n :: nat
    by presburger
  with 1 show ?case by (simp add: Let_def pad_count_def)
qed (simp_all add: Let_def pad_count_def numeral_2_eq_2)

lemma symbol_in_alphabet: "good_alphabet al \<Longrightarrow> symbol al n k \<in> set al"
proof -
  assume al: "good_alphabet al"
  have "unat (take_bit 6 (drop_bit k n)) < 64"
    using take_bit_nat_less_exp[of 6 "unat (drop_bit k n)"] by (simp add: unsigned_take_bit_eq)
  then show ?thesis by (simp add: symbol_take length_alphabet[OF al])
qed

lemma no_pad_in_alphabet: "good_alphabet al \<Longrightarrow> CHR ''='' \<notin> set al"
  by (auto simp: good_alphabet_def STD_ALPHABET_def URL_ALPHABET_def)

lemma set_encode_chunks: "good_alphabet al \<Longrightarrow> set (encode_chunks (bare al) bs) \<subseteq> set al"
  by (induction "bare al" bs rule: encode_chunks.induct) (auto simp: Let_def symbol_in_alphabet)

lemma ends_with_iff: "ends_with s t \<longleftrightarrow> (\<exists>r. s = r @ t)"
  unfolding ends_with_def by (metis append_take_drop_id append_eq_conv_conj diff_le_self
      length_append le_add2 add_diff_cancel_right' append_eq_append_conv_if)

lemma strip_padding_split: "\<exists>j \<le> 2. s = strip_padding s @ replicate j (CHR ''='')"
proof (cases "ends_with s ''==''")
  case True
  then obtain r where "s = r @ ''==''" by (auto simp: ends_with_iff)
  with True show ?thesis by (intro exI[of _ 2]) (simp add: strip_padding_def numeral_2_eq_2)
next
  case False
  show ?thesis
  proof (cases "ends_with s ''=''")
    case True
    then obtain r where "s = r @ ''=''" by (auto simp: ends_with_iff)
    with True False show ?thesis by (intro exI[of _ 1]) (simp add: strip_padding_def)
  qed (use False in \<open>simp add: strip_padding_def exI[of _ 0]\<close>)
qed

lemma strip_padding_replicate:
  assumes "CHR ''='' \<notin> set core" "j \<le> 2"
  shows "strip_padding (core @ replicate j (CHR ''='')) = core"
proof -
  obtain i where i: "i \<le> 2" "core @ replicate j (CHR ''='') =
      strip_padding (core @ replicate j (CHR ''='')) @ replicate i (CHR ''='')"
    using strip_padding_split by blast
  have core: "\<not> ends_with core (t @ ''='')" for t using assms(1) by (auto simp: ends_with_iff)
  consider "j = 0" | "j = 1" | "j = 2" using assms(2) by linarith
  then show ?thesis
  proof cases
    case 1
    then show ?thesis using core[of "''=''"] core[of "[]"] by (simp add: strip_padding_def)
  next
    case 2
    have "\<not> ends_with (core @ ''='') ''==''"
    proof
      assume "ends_with (core @ ''='') ''==''"
      then obtain r where "core @ ''='' = r @ ''==''" by (auto simp: ends_with_iff)
      then have "core = r @ ''=''" by (metis append_assoc append_same_eq append_Cons append_Nil)
      with assms(1) show False by simp
    qed
    moreover have "ends_with (core @ ''='') ''=''" by (auto simp: ends_with_iff)
    ultimately show ?thesis using 2 by (simp add: strip_padding_def)
  next
    case 3
    have "ends_with (core @ ''=='') ''==''" by (auto simp: ends_with_iff)
    then show ?thesis using 3 by (simp add: strip_padding_def numeral_2_eq_2)
  qed
qed

lemma pad_arith:
  fixes n j :: nat
  assumes "n mod 4 \<noteq> 1"
  shows "(4 - n mod 4) mod 4 \<le> 2" "(n + (4 - n mod 4) mod 4) mod 4 = 0"
    "j \<le> 2 \<Longrightarrow> (n + j) mod 4 = 0 \<Longrightarrow> j = (4 - n mod 4) mod 4"
proof -
  have "n mod 4 < 4" by simp
  with assms consider "n mod 4 = 0" | "n mod 4 = 2" | "n mod 4 = 3" by linarith
  note c = this
  show "(4 - n mod 4) mod 4 \<le> 2" using c by cases simp_all
  show "(n + (4 - n mod 4) mod 4) mod 4 = 0" using c by cases (simp_all add: mod_Suc)
  assume "j \<le> 2" and s: "(n + j) mod 4 = 0"
  then have j: "j \<in> {0, 1, 2}" by auto
  have t: "(n mod 4 + j) mod 4 = 0" using s by (simp only: mod_add_left_eq)
  from c show "j = (4 - n mod 4) mod 4" by cases (use j t in \<open>auto simp flip: numeral_2_eq_2 numeral_3_eq_3\<close>)
qed

lemma base64_decode_iff:
  "base64_decode STANDARD s = Inr bs \<longleftrightarrow> s = base64_encode STANDARD bs"
  "base64_decode URL_SAFE_NO_PAD s = Inr bs \<longleftrightarrow> s = base64_encode URL_SAFE_NO_PAD bs"
proof -
  have std: "good_alphabet STD_ALPHABET" and url: "good_alphabet URL_ALPHABET"
    by (simp_all add: good_alphabet_def)
  have len: "length (encode_chunks (bare al) bs) mod 4 \<noteq> 1" for al
    by (simp add: length_encode_chunks)
  show "base64_decode URL_SAFE_NO_PAD s = Inr bs \<longleftrightarrow> s = base64_encode URL_SAFE_NO_PAD bs"
    using len[of URL_ALPHABET]
    by (auto simp: base64_decode_def base64_encode_def URL_SAFE_NO_PAD_def decode_symbols_def
        decode_chunks_iff[OF url])
  let ?core = "encode_chunks (bare STD_ALPHABET) bs"
  have enc: "base64_encode STANDARD bs = ?core @ replicate (pad_count ?core) (CHR ''='')"
    by (simp add: base64_encode_def STANDARD_def encode_chunks_padded)
  have count: "pad_count ?core \<le> 2" "(length ?core + pad_count ?core) mod 4 = 0"
    unfolding pad_count_def using pad_arith(1,2)[OF len] by blast+
  have nopad: "CHR ''='' \<notin> set ?core"
    using set_encode_chunks[OF std, of bs] no_pad_in_alphabet[OF std] by auto
  show "base64_decode STANDARD s = Inr bs \<longleftrightarrow> s = base64_encode STANDARD bs"
  proof
    assume "base64_decode STANDARD s = Inr bs"
    then have s: "length s mod 4 = 0" "strip_padding s = ?core"
      by (auto simp: base64_decode_def STANDARD_def decode_symbols_def decode_chunks_iff[OF std] split: if_splits)
    obtain j where j: "j \<le> 2" "s = ?core @ replicate j (CHR ''='')" using strip_padding_split[of s] s(2) by auto
    with s(1) have "(length ?core + j) mod 4 = 0" by (metis length_append length_replicate)
    then have "j = pad_count ?core" unfolding pad_count_def by (rule pad_arith(3)[OF len j(1)])
    with j enc show "s = base64_encode STANDARD bs" by simp
  next
    assume "s = base64_encode STANDARD bs"
    then have s: "s = ?core @ replicate (pad_count ?core) (CHR ''='')" by (simp only: enc)
    have "length s mod 4 = 0" "strip_padding s = ?core"
      unfolding s using count(2) strip_padding_replicate[OF nopad count(1)] by simp_all
    then show "base64_decode STANDARD s = Inr bs"
      using len[of STD_ALPHABET]
      by (simp add: base64_decode_def STANDARD_def decode_symbols_def decode_chunks_iff[OF std])
  qed
qed

lemma base64_decode_encode [simp]:
  "base64_decode STANDARD (base64_encode STANDARD bs) = Inr bs"
  "base64_decode URL_SAFE_NO_PAD (base64_encode URL_SAFE_NO_PAD bs) = Inr bs"
  by (simp_all add: base64_decode_iff)

lemma base64_encode_inject [simp]:
  "base64_encode STANDARD a = base64_encode STANDARD b \<longleftrightarrow> a = b"
  "base64_encode URL_SAFE_NO_PAD a = base64_encode URL_SAFE_NO_PAD b \<longleftrightarrow> a = b"
  by (metis Inr_inject base64_decode_encode)+

text \<open>
  C35. Base64 is a bijection between byte strings and the texts that decode, for both engines: decoding
  succeeds exactly on the encoder's output and gives back what was encoded. Missing, excess or
  misplaced padding, foreign bytes and non-zero trailing bits are all rejected, so no two texts
  decode to the same bytes.
\<close>

theorem base64_exact:
  "(base64_decode STANDARD s = Inr bs \<longleftrightarrow> s = base64_encode STANDARD bs) \<and>
   (base64_decode URL_SAFE_NO_PAD s = Inr bs \<longleftrightarrow> s = base64_encode URL_SAFE_NO_PAD bs)"
  by (simp add: base64_decode_iff)

text \<open>
  What the encoder produces passes the envelope check: a non-empty signature encoded with the
  standard engine is accepted by \<open>is_base64\<close>, so \<open>validate_envelope_shape\<close> does not flag it.
\<close>

lemma base64_encode_shape:
  assumes "bs \<noteq> []"
  shows "is_base64 (base64_encode STANDARD bs)"
proof -
  have std: "good_alphabet STD_ALPHABET" by (simp add: good_alphabet_def)
  let ?core = "encode_chunks (bare STD_ALPHABET) bs"
  have letters: "list_all (\<lambda>c. base64_letter (of_char c)) STD_ALPHABET"
    by (simp add: STD_ALPHABET_def base64_letter_def)
  have body: "base64_letter (of_char c)" if "c \<in> set ?core" for c
    using that letters set_encode_chunks[OF std, of bs] by (auto simp: list_all_iff)
  have enc: "base64_encode STANDARD bs = ?core @ replicate (pad_count ?core) (CHR ''='')"
    by (simp add: base64_encode_def STANDARD_def encode_chunks_padded)
  have count: "pad_count ?core \<le> 2"
    unfolding pad_count_def by (rule pad_arith(1)) (simp add: length_encode_chunks)
  have lt: "x < 128" if "base64_letter x" for x using that by (auto simp: base64_letter_def)
  have "str_chars (base64_encode STANDARD bs) = map of_char (base64_encode STANDARD bs)"
    unfolding str_chars_def by (subst utf8_decode_ascii) (auto simp: enc dest: body lt)
  also have "\<dots> = map of_char ?core @ replicate (pad_count ?core) 61"
    by (simp add: enc)
  finally have "is_base64_loop 0 (str_chars (base64_encode STANDARD bs))"
    unfolding is_base64_loop_iff using count body
    by (intro exI[of _ "map of_char ?core"] exI[of _ "pad_count ?core"]) (auto simp: list_all_iff)
  moreover have "?core \<noteq> []"
    using assms by (cases "(bare STD_ALPHABET, bs)" rule: encode_chunks.cases) (simp_all add: Let_def)
  ultimately show ?thesis by (simp add: is_base64_def enc)
qed

end
