(* ===== verification/Cbor.thy ===== *)
theory Cbor
  imports Canonical
begin

unbundle bit_operations_syntax

text \<open>
  \<open>crates/tf-types/src/cbor.rs\<close>: the CBOR codec of the wire formats. A decoder state is the input that
  is left, so every parser returns a value and a rest, and \<open>buf.len() - pos\<close> is the length of the
  rest. The recursion of \<open>value\<close> is on the nesting levels still allowed, \<open>MAX_DEPTH + 1 - depth\<close>:
  level zero is the source's \<open>depth > MAX_DEPTH\<close>. A float is the bits of its \<open>f64\<close>.
\<close>

subsection \<open>Values and errors\<close>

datatype cbor =
    CInteger int
  | CBytes bytes
  | CText string
  | CArray "cbor list"
  | CMap "(cbor \<times> cbor) list"
  | CTag "64 word" cbor
  | CBool bool
  | CNull
  | CFloat "64 word"

datatype cbor_error = Truncated | Invalid string | TooDeep | Unrepresentable string

fun cbor_error_str :: "cbor_error \<Rightarrow> string" where
  "cbor_error_str Truncated = ''truncated CBOR input''"
| "cbor_error_str (Invalid what) = ''invalid CBOR: '' @ what"
| "cbor_error_str TooDeep = ''CBOR nesting exceeds depth limit''"
| "cbor_error_str (Unrepresentable what) = ''unrepresentable in CBOR: '' @ what"

definition MAX_DEPTH :: nat where
  "MAX_DEPTH = 128"

definition find_map :: "('a \<Rightarrow> 'b option) \<Rightarrow> 'a list \<Rightarrow> 'b option" where
  "find_map f xs = (case List.map_filter f xs of [] \<Rightarrow> None | y # _ \<Rightarrow> Some y)"

definition map_get :: "cbor \<Rightarrow> string \<Rightarrow> cbor option" where
  "map_get m key = (case m of
      CMap entries \<Rightarrow> find_map (\<lambda>(k, v). case k of CText t \<Rightarrow> if t = key then Some v else None | _ \<Rightarrow> None) entries
    | _ \<Rightarrow> None)"

definition map_get_int :: "cbor \<Rightarrow> int \<Rightarrow> cbor option" where
  "map_get_int m key = (case m of
      CMap entries \<Rightarrow> find_map (\<lambda>(k, v). case k of CInteger i \<Rightarrow> if i = key then Some v else None | _ \<Rightarrow> None) entries
    | _ \<Rightarrow> None)"

subsection \<open>Encoding\<close>

definition initial_byte :: "nat \<Rightarrow> nat \<Rightarrow> byte" where
  "initial_byte major info = push_bit 5 (of_nat major) OR of_nat info"

definition put_header :: "nat \<Rightarrow> nat \<Rightarrow> bytes" where
  "put_header major arg =
     (if arg < 24 then [initial_byte major arg]
      else if arg \<le> 0xFF then initial_byte major 24 # be_bytes 1 arg
      else if arg \<le> 0xFFFF then initial_byte major 25 # be_bytes 2 arg
      else if arg \<le> 0xFFFFFFFF then initial_byte major 26 # be_bytes 4 arg
      else initial_byte major 27 # be_bytes 8 arg)"

definition encode_integer :: "int \<Rightarrow> cbor_error + bytes" where
  "encode_integer i =
     (if i \<ge> 0 then
        (if i < 2 ^ 64 then Inr (put_header 0 (nat i)) else Inl (Unrepresentable ''integer above u64::MAX''))
      else
        (if - i - 1 < 2 ^ 64 then Inr (put_header 1 (nat (- i - 1)))
         else Inl (Unrepresentable ''integer below -2^64'')))"

definition concat_results :: "('e + 'a list) list \<Rightarrow> 'e + 'a list" where
  "concat_results rs = rbind (collect rs) (\<lambda>xs. Inr (concat xs))"

fun encode_into :: "cbor \<Rightarrow> cbor_error + bytes" where
  "encode_into (CInteger i) = encode_integer i"
| "encode_into (CBytes b) = Inr (put_header 2 (length b) @ b)"
| "encode_into (CText t) = Inr (put_header 3 (length t) @ as_bytes t)"
| "encode_into (CArray items) =
     rbind (concat_results (map encode_into items)) (\<lambda>body. Inr (put_header 4 (length items) @ body))"
| "encode_into (CMap entries) =
     rbind (concat_results (map (\<lambda>(k, v).
         rbind (encode_into k) (\<lambda>ek. rbind (encode_into v) (\<lambda>ev. Inr (ek @ ev)))) entries))
       (\<lambda>body. Inr (put_header 5 (length entries) @ body))"
| "encode_into (CTag tag inner) = rbind (encode_into inner) (\<lambda>body. Inr (put_header 6 (unat tag) @ body))"
| "encode_into (CBool b) = Inr [if b then 0xf5 else 0xf4]"
| "encode_into CNull = Inr [0xf6]"
| "encode_into (CFloat f) = Inr (0xfb # be_bytes 8 (unat f))"

definition cbor_encode :: "cbor \<Rightarrow> cbor_error + bytes" where
  "cbor_encode v = encode_into v"

subsection \<open>Decoding\<close>

definition get_byte :: "bytes \<Rightarrow> cbor_error + (byte \<times> bytes)" where
  "get_byte bs = (case bs of [] \<Rightarrow> Inl Truncated | b # r \<Rightarrow> Inr (b, r))"

definition take_n :: "nat \<Rightarrow> bytes \<Rightarrow> cbor_error + (bytes \<times> bytes)" where
  "take_n n bs = (if n > length bs then Inl Truncated else Inr (take n bs, drop n bs))"

definition take_be :: "nat \<Rightarrow> bytes \<Rightarrow> cbor_error + (nat \<times> bytes)" where
  "take_be n bs = rbind (take_n n bs) (\<lambda>(x, r). Inr (be_nat x, r))"

definition arg :: "nat \<Rightarrow> bytes \<Rightarrow> cbor_error + (nat \<times> bytes)" where
  "arg info bs =
     (if info \<le> 23 then Inr (info, bs)
      else if info = 24 then take_be 1 bs
      else if info = 25 then take_be 2 bs
      else if info = 26 then take_be 4 bs
      else if info = 27 then take_be 8 bs
      else Inl (Invalid ''reserved additional-info value''))"

definition arg_as_len :: "nat \<Rightarrow> bytes \<Rightarrow> cbor_error + nat" where
  "arg_as_len n bs = (if n > length bs then Inl Truncated else Inr n)"

text \<open>The value of \<open>m * 2 ^ e\<close> as the bits of a double, for a small mantissa \<open>m\<close>.\<close>

fun ilog2 :: "nat \<Rightarrow> nat" where
  "ilog2 n = (if n \<le> 1 then 0 else Suc (ilog2 (n div 2)))"

definition f64_of_scaled :: "nat \<Rightarrow> int \<Rightarrow> nat" where
  "f64_of_scaled m e =
     (if m = 0 then 0
      else let k = ilog2 m in nat (e + int k + 1023) * 2 ^ 52 + (m - 2 ^ k) * 2 ^ (52 - k))"

definition half_to_f64 :: "nat \<Rightarrow> 64 word" where
  "half_to_f64 raw =
     (let ex = raw div 1024 mod 32; mant = raw mod 1024;
          magnitude = (if ex = 0 then f64_of_scaled mant (- 24)
            else if ex = 31 then (if mant = 0 then 0x7FF0000000000000 else 0x7FF8000000000000)
            else f64_of_scaled (mant + 1024) (int ex - 25))
      in of_nat (if raw div 32768 mod 2 = 1 then magnitude + 2 ^ 63 else magnitude))"

definition f32_to_f64 :: "nat \<Rightarrow> 64 word" where
  "f32_to_f64 raw =
     (let ex = raw div 2 ^ 23 mod 256; mant = raw mod 2 ^ 23;
          magnitude = (if ex = 0 then f64_of_scaled mant (- 149)
            else if ex = 255 then
              (if mant = 0 then 0x7FF0000000000000
               else 0x7FF8000000000000 + mant mod 2 ^ 22 * 2 ^ 29)
            else f64_of_scaled (mant + 2 ^ 23) (int ex - 150))
      in of_nat (if raw div 2 ^ 31 mod 2 = 1 then magnitude + 2 ^ 63 else magnitude))"

definition at_break :: "bytes \<Rightarrow> cbor_error + (bool \<times> bytes)" where
  "at_break bs = (case bs of [] \<Rightarrow> Inl Truncated | b # r \<Rightarrow> if b = 0xff then Inr (True, r) else Inr (False, bs))"

text \<open>A definite chunk: header argument, length check, bytes.\<close>

definition chunk :: "nat \<Rightarrow> bytes \<Rightarrow> cbor_error + (bytes \<times> bytes)" where
  "chunk info bs = rbind (arg info bs) (\<lambda>(n, r). rbind (arg_as_len n r) (\<lambda>len. take_n len r))"

text \<open>The loops run until a break byte. Every turn consumes input, so the length of the rest
  decreases; the comparison makes that explicit and never fails (\<open>until_break_progress\<close>).\<close>

function until_break :: "(bytes \<Rightarrow> cbor_error + ('a \<times> bytes)) \<Rightarrow> bytes \<Rightarrow> cbor_error + ('a list \<times> bytes)" where
  "until_break p bs =
     rbind (at_break bs) (\<lambda>(stop, r).
       if stop then Inr ([], r)
       else rbind (p r) (\<lambda>(x, r').
         if length r' < length bs then rbind (until_break p r') (\<lambda>(xs, r''). Inr (x # xs, r''))
         else Inl Truncated))"
  by pat_completeness auto
termination by (relation "measure (length \<circ> snd)") auto

declare until_break.simps [simp del]

definition string_chunk :: "nat \<Rightarrow> bytes \<Rightarrow> cbor_error + (bytes \<times> bytes)" where
  "string_chunk major bs =
     rbind (get_byte bs) (\<lambda>(initial, r).
       if unat (drop_bit 5 initial) \<noteq> major \<or> unat (initial AND 0x1f) = 31
       then Inl (Invalid ''bad chunk in indefinite string'')
       else chunk (unat (initial AND 0x1f)) r)"

text \<open>\<open>levels\<close> is the number of levels left below the string: \<open>depth + 1 > MAX_DEPTH\<close> is zero.\<close>

definition indefinite_string :: "nat \<Rightarrow> nat \<Rightarrow> bytes \<Rightarrow> cbor_error + (bytes \<times> bytes)" where
  "indefinite_string levels major bs =
     (if levels = 0 then Inl TooDeep
      else rbind (until_break (string_chunk major) bs) (\<lambda>(chunks, r). Inr (concat chunks, r)))"

fun repeat_n :: "nat \<Rightarrow> (bytes \<Rightarrow> cbor_error + ('a \<times> bytes)) \<Rightarrow> bytes \<Rightarrow> cbor_error + ('a list \<times> bytes)" where
  "repeat_n 0 p bs = Inr ([], bs)"
| "repeat_n (Suc n) p bs =
     rbind (p bs) (\<lambda>(x, r). rbind (repeat_n n p r) (\<lambda>(xs, r'). Inr (x # xs, r')))"

definition pair_of :: "(bytes \<Rightarrow> cbor_error + ('a \<times> bytes)) \<Rightarrow> bytes \<Rightarrow> cbor_error + (('a \<times> 'a) \<times> bytes)" where
  "pair_of p bs = rbind (p bs) (\<lambda>(k, r). rbind (p r) (\<lambda>(v, r'). Inr ((k, v), r')))"

definition simple_value :: "nat \<Rightarrow> bytes \<Rightarrow> cbor_error + (cbor \<times> bytes)" where
  "simple_value info bs =
     (if info = 20 then Inr (CBool False, bs)
      else if info = 21 then Inr (CBool True, bs)
      else if info = 22 then Inr (CNull, bs)
      else if info = 23 then Inr (CNull, bs)
      else if info = 24 then
        rbind (get_byte bs) (\<lambda>(b, r).
          if b < 32 then Inl (Invalid ''non-minimal simple value'') else Inr (CInteger (int (unat b)), r))
      else if info = 25 then rbind (take_be 2 bs) (\<lambda>(n, r). Inr (CFloat (half_to_f64 n), r))
      else if info = 26 then rbind (take_be 4 bs) (\<lambda>(n, r). Inr (CFloat (f32_to_f64 n), r))
      else if info = 27 then rbind (take_be 8 bs) (\<lambda>(n, r). Inr (CFloat (of_nat n), r))
      else if info = 31 then Inl (Invalid ''unexpected break'')
      else Inl (Invalid ''reserved simple value''))"

definition text_of :: "bytes \<times> bytes \<Rightarrow> cbor_error + (cbor \<times> bytes)" where
  "text_of br = (case br of (b, r) \<Rightarrow>
     if utf8_valid (of_bytes b) then Inr (CText (of_bytes b), r)
     else Inl (Invalid ''text string is not UTF-8''))"

fun decode_value :: "nat \<Rightarrow> bytes \<Rightarrow> cbor_error + (cbor \<times> bytes)" where
  "decode_value 0 bs = Inl TooDeep"
| "decode_value (Suc levels) bs =
     rbind (get_byte bs) (\<lambda>(initial, r).
       let major = unat (drop_bit 5 initial); info = unat (initial AND 0x1f) in
       if major = 0 then rbind (arg info r) (\<lambda>(n, r'). Inr (CInteger (int n), r'))
       else if major = 1 then rbind (arg info r) (\<lambda>(n, r'). Inr (CInteger (- 1 - int n), r'))
       else if major = 2 then
         rbind (if info = 31 then indefinite_string levels 2 r else chunk info r) (\<lambda>(b, r'). Inr (CBytes b, r'))
       else if major = 3 then
         rbind (if info = 31 then indefinite_string levels 3 r else chunk info r) text_of
       else if major = 4 then
         if info = 31 then
           rbind (until_break (decode_value levels) r) (\<lambda>(items, r'). Inr (CArray items, r'))
         else
           rbind (arg info r) (\<lambda>(n, r1). rbind (arg_as_len n r1) (\<lambda>len.
             rbind (repeat_n len (decode_value levels) r1) (\<lambda>(items, r'). Inr (CArray items, r'))))
       else if major = 5 then
         if info = 31 then
           rbind (until_break (pair_of (decode_value levels)) r) (\<lambda>(es, r'). Inr (CMap es, r'))
         else
           rbind (arg info r) (\<lambda>(count, r1).
             if count > length r1 div 2 then Inl Truncated
             else rbind (repeat_n count (pair_of (decode_value levels)) r1) (\<lambda>(es, r'). Inr (CMap es, r')))
       else if major = 6 then
         rbind (arg info r) (\<lambda>(tag, r1).
           rbind (decode_value levels r1) (\<lambda>(inner, r'). Inr (CTag (of_nat tag) inner, r')))
       else simple_value info r)"

definition cbor_decode :: "bytes \<Rightarrow> cbor_error + cbor" where
  "cbor_decode bs = rbind (decode_value (MAX_DEPTH + 1) bs) (\<lambda>(v, r). Inr v)"

subsection \<open>JSON bridge\<close>

text \<open>\<open>serde_json::Map\<close> is a \<open>BTreeMap\<close>: its entries are in key order and an insertion replaces.\<close>

fun obj_insert :: "string \<Rightarrow> json \<Rightarrow> (string \<times> json) list \<Rightarrow> (string \<times> json) list" where
  "obj_insert k v [] = [(k, v)]"
| "obj_insert k v ((k', v') # es) =
     (if k < k' then (k, v) # (k', v') # es
      else if k = k' then (k, v) # es
      else (k', v') # obj_insert k v es)"

definition number_from_int :: "int \<Rightarrow> json_number" where
  "number_from_int i = (if i < 0 then NegInt (of_int i) else PosInt (of_int i))"

fun from_json :: "json \<Rightarrow> cbor_error + cbor" where
  "from_json JNull = Inr CNull"
| "from_json (JBool b) = Inr (CBool b)"
| "from_json (JNumber n) =
     (case as_i64 n of
        Some i \<Rightarrow> Inr (CInteger i)
      | None \<Rightarrow> (case as_u64 n of
          Some u \<Rightarrow> Inr (CInteger (int u))
        | None \<Rightarrow> rbind (ok_or (Unrepresentable ''number'') (as_f64 n)) (\<lambda>f. Inr (CFloat f))))"
| "from_json (JString s) = Inr (CText s)"
| "from_json (JArray items) = rbind (collect (map from_json items)) (\<lambda>xs. Inr (CArray xs))"
| "from_json (JObject es) =
     rbind (collect (map (\<lambda>(k, v). rbind (from_json v) (\<lambda>c. Inr (CText k, c))) es)) (\<lambda>xs. Inr (CMap xs))"

fun to_json :: "cbor \<Rightarrow> cbor_error + json" where
  "to_json CNull = Inr JNull"
| "to_json (CBool b) = Inr (JBool b)"
| "to_json (CInteger i) =
     (if - (2 ^ 63) \<le> i \<and> i < 2 ^ 63 then Inr (JNumber (number_from_int i))
      else if 0 \<le> i \<and> i < 2 ^ 64 then Inr (JNumber (PosInt (of_int i)))
      else Inl (Unrepresentable ''integer outside JSON range''))"
| "to_json (CFloat f) =
     (if f64_is_finite f then Inr (JNumber (Float f)) else Inl (Unrepresentable ''non-finite float''))"
| "to_json (CText t) = Inr (JString t)"
| "to_json (CArray items) = rbind (collect (map to_json items)) (\<lambda>xs. Inr (JArray xs))"
| "to_json (CMap entries) =
     rbind (collect (map (\<lambda>(k, v). case k of
         CText key \<Rightarrow> rbind (to_json v) (\<lambda>j. Inr (key, j))
       | _ \<Rightarrow> Inl (Unrepresentable ''non-text map key in JSON'')) entries))
       (\<lambda>kvs. Inr (JObject (fold (\<lambda>(k, j). obj_insert k j) kvs [])))"
| "to_json (CTag t v) = Inl (Unrepresentable ''tag in JSON'')"
| "to_json (CBytes b) = Inl (Unrepresentable ''byte string in JSON'')"

subsection \<open>Parsers that consume their input\<close>

text \<open>The contract every decoding routine keeps: a parser that succeeds returns an admissible value
  and has consumed a prefix at least as long as the weight of the value.\<close>

locale consuming_parser =
  fixes p :: "bytes \<Rightarrow> cbor_error + ('a \<times> bytes)"
    and weight :: "'a \<Rightarrow> nat"
    and admissible :: "'a \<Rightarrow> bool"
  assumes consumes: "p bs = Inr (x, r) \<Longrightarrow> \<exists>pre. bs = pre @ r \<and> weight x \<le> length pre \<and> admissible x"
    and weight_pos: "0 < weight x"
begin

lemma shorter: "p bs = Inr (x, r) \<Longrightarrow> length r < length bs"
  using consumes[of bs x r] weight_pos[of x] by auto

lemma repeat_n_consumes:
  "repeat_n n p bs = Inr (xs, r) \<Longrightarrow>
     \<exists>pre. bs = pre @ r \<and> sum_list (map weight xs) \<le> length pre \<and> list_all admissible xs \<and> length xs = n"
proof (induction n arbitrary: bs xs r)
  case 0
  then show ?case by simp
next
  case (Suc n)
  then obtain x r1 ys where p: "p bs = Inr (x, r1)" and q: "repeat_n n p r1 = Inr (ys, r)" and xs: "xs = x # ys"
    by (auto simp: rbind_Inr_iff)
  from consumes[OF p] obtain pre1 where "bs = pre1 @ r1" "weight x \<le> length pre1" "admissible x" by blast
  moreover from Suc.IH[OF q] obtain pre2 where
    "r1 = pre2 @ r" "sum_list (map weight ys) \<le> length pre2" "list_all admissible ys" "length ys = n" by blast
  ultimately show ?case using xs by (intro exI[of _ "pre1 @ pre2"]) simp
qed

text \<open>The comparison in the loop never fails.\<close>

lemma until_break_progress:
  "until_break p bs =
     rbind (at_break bs) (\<lambda>(stop, r).
       if stop then Inr ([], r)
       else rbind (p r) (\<lambda>(x, r'). rbind (until_break p r') (\<lambda>(xs, r''). Inr (x # xs, r''))))"
  by (subst until_break.simps, cases "p bs"; cases bs) (auto simp: at_break_def dest: shorter)

lemma until_break_Nil: "until_break p [] = Inl Truncated"
  by (subst until_break_progress) (simp add: at_break_def)

lemma until_break_Cons:
  "until_break p (b # r) =
     (if b = 0xff then Inr ([], r)
      else rbind (p (b # r)) (\<lambda>(x, r'). rbind (until_break p r') (\<lambda>(xs, r''). Inr (x # xs, r''))))"
  by (subst until_break_progress) (simp add: at_break_def)

lemma until_break_consumes:
  "until_break p bs = Inr (xs, r) \<Longrightarrow>
     \<exists>pre. bs = pre @ r \<and> sum_list (map weight xs) < length pre \<and> list_all admissible xs"
proof (induction "length bs" arbitrary: bs xs r rule: less_induct)
  case less
  then obtain b bs' where bs: "bs = b # bs'"
    by (cases bs) (auto simp: until_break_Nil)
  show ?case
  proof (cases "b = 0xff")
    case True
    with less.prems bs have "xs = []" "r = bs'"
      by (auto simp: until_break_Cons)
    then show ?thesis using bs by (intro exI[of _ "[b]"]) simp
  next
    case False
    with less.prems bs obtain x r1 ys where p: "p bs = Inr (x, r1)" and q: "until_break p r1 = Inr (ys, r)"
      and xs: "xs = x # ys"
      by (auto simp: until_break_Cons rbind_Inr_iff)
    from consumes[OF p] obtain pre1 where "bs = pre1 @ r1" "weight x \<le> length pre1" "admissible x" by blast
    moreover from less.hyps[OF shorter[OF p] q] obtain pre2 where
      "r1 = pre2 @ r" "sum_list (map weight ys) < length pre2" "list_all admissible ys" by blast
    ultimately show ?thesis using xs by (intro exI[of _ "pre1 @ pre2"]) simp
  qed
qed

lemma pair_of_consumes:
  "pair_of p bs = Inr (kv, r) \<Longrightarrow>
     \<exists>pre. bs = pre @ r \<and> weight (fst kv) + weight (snd kv) \<le> length pre \<and> admissible (fst kv) \<and> admissible (snd kv)"
proof -
  assume "pair_of p bs = Inr (kv, r)"
  then obtain r1 where a: "p bs = Inr (fst kv, r1)" and b: "p r1 = Inr (snd kv, r)"
    by (auto simp: pair_of_def rbind_Inr_iff)
  from consumes[OF a] obtain pre1 where "bs = pre1 @ r1" "weight (fst kv) \<le> length pre1" "admissible (fst kv)"
    by blast
  moreover from consumes[OF b] obtain pre2 where
    "r1 = pre2 @ r" "weight (snd kv) \<le> length pre2" "admissible (snd kv)" by blast
  ultimately show ?thesis by (intro exI[of _ "pre1 @ pre2"]) simp
qed

lemma repeat_n_reads:
  assumes "list_all2 (\<lambda>x e. \<forall>r. p (e @ r) = Inr (x, r)) xs es"
  shows "repeat_n (length xs) p (concat es @ r) = Inr (xs, r)"
    and "sum_list (map weight xs) \<le> length (concat es)"
proof -
  show *: "repeat_n (length xs) p (concat es @ r) = Inr (xs, r)" for r
    using assms by (induction rule: list_all2_induct) auto
  from repeat_n_consumes[OF *[of "[]"]] show "sum_list (map weight xs) \<le> length (concat es)" by simp
qed

lemma pair_of_consuming:
  "consuming_parser (pair_of p) (\<lambda>kv. weight (fst kv) + weight (snd kv)) (\<lambda>kv. admissible (fst kv) \<and> admissible (snd kv))"
  by unfold_locales (auto dest: pair_of_consumes simp: weight_pos)

end

subsection \<open>What a decoded value is\<close>

text \<open>Nesting depth, number of nodes plus payload bytes, and the ranges of a decodable value.\<close>

fun cbor_depth :: "cbor \<Rightarrow> nat" where
  "cbor_depth (CArray items) = fold max (map (\<lambda>v. Suc (cbor_depth v)) items) 0"
| "cbor_depth (CMap entries) = fold max (map (\<lambda>(k, v). Suc (max (cbor_depth k) (cbor_depth v))) entries) 0"
| "cbor_depth (CTag t v) = Suc (cbor_depth v)"
| "cbor_depth _ = 0"

fun cbor_weight :: "cbor \<Rightarrow> nat" where
  "cbor_weight (CBytes b) = Suc (length b)"
| "cbor_weight (CText t) = Suc (length t)"
| "cbor_weight (CArray items) = Suc (sum_list (map cbor_weight items))"
| "cbor_weight (CMap entries) = Suc (sum_list (map (\<lambda>(k, v). cbor_weight k + cbor_weight v) entries))"
| "cbor_weight (CTag t v) = Suc (cbor_weight v)"
| "cbor_weight _ = 1"

fun cbor_ok :: "cbor \<Rightarrow> bool" where
  "cbor_ok (CInteger i) = (- (2 ^ 64) \<le> i \<and> i < 2 ^ 64)"
| "cbor_ok (CText t) = utf8_valid t"
| "cbor_ok (CArray items) = list_all cbor_ok items"
| "cbor_ok (CMap entries) = list_all (\<lambda>(k, v). cbor_ok k \<and> cbor_ok v) entries"
| "cbor_ok (CTag t v) = cbor_ok v"
| "cbor_ok _ = True"

definition decodable :: "nat \<Rightarrow> cbor \<Rightarrow> bool" where
  "decodable levels v = (cbor_depth v < levels \<and> cbor_ok v)"

lemma fold_max_less: "0 < (n::nat) \<Longrightarrow> fold max xs 0 < n \<longleftrightarrow> list_all (\<lambda>x. x < n) xs"
proof -
  assume n: "0 < n"
  have "fold max xs a < n \<longleftrightarrow> a < n \<and> list_all (\<lambda>x. x < n) xs" for a
    by (induction xs arbitrary: a) auto
  then show ?thesis using n by simp
qed

lemma cbor_weight_pos [simp]: "0 < cbor_weight v"
  by (cases v) auto

lemma decodable_Suc [simp]:
  "decodable (Suc d) (CArray items) \<longleftrightarrow> list_all (decodable d) items"
  "decodable (Suc d) (CMap entries) \<longleftrightarrow> list_all (\<lambda>kv. decodable d (fst kv) \<and> decodable d (snd kv)) entries"
  "decodable (Suc d) (CTag t v) \<longleftrightarrow> decodable d v"
  "decodable (Suc d) (CBytes b)" "decodable (Suc d) (CText s) \<longleftrightarrow> utf8_valid s"
  "decodable (Suc d) (CBool q)" "decodable (Suc d) CNull" "decodable (Suc d) (CFloat f)"
  "decodable (Suc d) (CInteger i) \<longleftrightarrow> - (2 ^ 64) \<le> i \<and> i < 2 ^ 64"
  by (auto simp: decodable_def fold_max_less list_all_iff)

lemma take_n_eq: "take_n n bs = Inr (x, r) \<longleftrightarrow> bs = x @ r \<and> length x = n"
  by (auto simp: take_n_def)

lemma take_be_consumes: "take_be n bs = Inr (m, r) \<Longrightarrow> \<exists>pre. bs = pre @ r \<and> m < 256 ^ n"
  using be_nat_less by (auto simp: take_be_def rbind_Inr_iff take_n_eq)

lemma arg_consumes: "arg info bs = Inr (n, r) \<Longrightarrow> \<exists>pre. bs = pre @ r \<and> n < 2 ^ 64"
proof -
  have pow: "256 ^ k \<le> (2::nat) ^ 64" if "k \<le> 8" for k
    using power_increasing[OF that, of "256::nat"] by simp
  assume "arg info bs = Inr (n, r)"
  then have "(n \<le> 23 \<and> r = bs) \<or> (\<exists>k \<le> 8. take_be k bs = Inr (n, r))"
    by (auto simp: arg_def split: if_splits intro: exI[of _ 8] exI[of _ 4] exI[of _ 2] exI[of _ "Suc 0"])
  then consider "n \<le> 23" "r = bs" | k where "k \<le> 8" "take_be k bs = Inr (n, r)" by blast
  then show ?thesis
  proof cases
    case (2 k)
    from take_be_consumes[OF 2(2)] pow[OF 2(1)] show ?thesis by (auto intro: less_le_trans)
  qed simp
qed

lemma chunk_consumes: "chunk info bs = Inr (b, r) \<Longrightarrow> \<exists>pre. bs = pre @ b @ r"
  using arg_consumes by (fastforce simp: chunk_def rbind_Inr_iff take_n_eq)

interpretation string_chunk: consuming_parser "string_chunk major" "Suc \<circ> length" "\<lambda>_. True" for major
proof
  fix bs x r
  assume "string_chunk major bs = Inr (x, r)"
  then obtain b r1 where "bs = b # r1" "chunk (unat (b AND 0x1f)) r1 = Inr (x, r)"
    by (auto simp: string_chunk_def get_byte_def rbind_Inr_iff split: list.splits if_splits)
  moreover from chunk_consumes[OF this(2)] obtain pre where "r1 = pre @ x @ r" ..
  ultimately show "\<exists>pre. bs = pre @ r \<and> (Suc \<circ> length) x \<le> length pre \<and> True"
    by (intro exI[of _ "b # pre @ x"]) simp
qed simp

lemma length_concat_le: "length (concat xs) \<le> sum_list (map (Suc \<circ> length) xs)"
  by (induction xs) auto

lemma indefinite_string_consumes:
  "indefinite_string d major bs = Inr (b, r) \<Longrightarrow> \<exists>pre. bs = pre @ r \<and> length b < length pre"
proof -
  assume "indefinite_string d major bs = Inr (b, r)"
  then obtain cs where "until_break (string_chunk major) bs = Inr (cs, r)" "b = concat cs"
    by (auto simp: indefinite_string_def rbind_Inr_iff split: if_splits)
  then show ?thesis
    using string_chunk.until_break_consumes[of major bs cs r] length_concat_le[of cs]
    by (meson le_less_trans)
qed

lemma string_payload_consumes:
  "(if i then indefinite_string d major bs else chunk info bs) = Inr (b, r) \<Longrightarrow>
     \<exists>pre. bs = pre @ r \<and> length b \<le> length pre"
  by (cases i) (force dest: indefinite_string_consumes chunk_consumes intro: exI[of _ "_ @ b"])+

lemma uint_byte_range: "0 \<le> uint (a :: byte)" "uint (a :: byte) < 256"
  using uint_bounded[of a] by simp_all

lemma simple_value_consumes:
  "simple_value info bs = Inr (v, r) \<Longrightarrow> \<exists>pre. bs = pre @ r \<and> cbor_weight v = 1 \<and> decodable (Suc d) v"
proof -
  have "- 18446744073709551616 \<le> uint b" "uint b < 18446744073709551616" for b :: byte
    using uint_byte_range[of b] by linarith+
  then show "simple_value info bs = Inr (v, r) \<Longrightarrow> ?thesis"
    by (auto simp: simple_value_def rbind_Inr_iff get_byte_def
        dest: take_be_consumes split: if_splits list.splits)
qed

text \<open>One level of the decoder, after the initial byte, given the contract of the level below.\<close>

definition body_ok :: "nat \<Rightarrow> bytes \<Rightarrow> cbor \<times> bytes \<Rightarrow> bool" where
  "body_ok d bs vr =
     (\<exists>pre. bs = pre @ snd vr \<and> cbor_weight (fst vr) \<le> Suc (length pre) \<and> decodable (Suc d) (fst vr))"

lemma body_okI: "bs = pre @ r \<Longrightarrow> cbor_weight v \<le> Suc (length pre) \<Longrightarrow> decodable (Suc d) v \<Longrightarrow> body_ok d bs (v, r)"
  by (auto simp: body_ok_def)

lemma array_body_ok:
  assumes cp: "consuming_parser (decode_value d) cbor_weight (decodable d)"
    and run: "(if info = 31 then rbind (until_break (decode_value d) bs) (\<lambda>(items, r'). Inr (CArray items, r'))
      else rbind (arg info bs) (\<lambda>(n, r1). rbind (arg_as_len n r1) (\<lambda>len.
        rbind (repeat_n len (decode_value d) r1) (\<lambda>(items, r'). Inr (CArray items, r'))))) = Inr (v, r)"
  shows "body_ok d bs (v, r)"
proof (cases "info = 31")
  case True
  with run obtain items where *: "until_break (decode_value d) bs = Inr (items, r)" "v = CArray items"
    by (auto simp: rbind_Inr_iff)
  from consuming_parser.until_break_consumes[OF cp *(1)] obtain pre where
    "bs = pre @ r" "sum_list (map cbor_weight items) < length pre" "list_all (decodable d) items" by blast
  then show ?thesis by (simp add: * body_ok_def)
next
  case False
  with run obtain n r1 len items where *: "arg info bs = Inr (n, r1)"
    "repeat_n len (decode_value d) r1 = Inr (items, r)" "v = CArray items"
    by (auto simp: rbind_Inr_iff)
  from arg_consumes[OF *(1)] obtain pre1 where "bs = pre1 @ r1" by blast
  moreover from consuming_parser.repeat_n_consumes[OF cp *(2)] obtain pre2 where
    "r1 = pre2 @ r" "sum_list (map cbor_weight items) \<le> length pre2" "list_all (decodable d) items" by blast
  ultimately show ?thesis by (intro body_okI[of _ "pre1 @ pre2"]) (simp_all add: *)
qed

lemma map_body_ok:
  assumes cp: "consuming_parser (decode_value d) cbor_weight (decodable d)"
    and run: "(if info = 31 then rbind (until_break (pair_of (decode_value d)) bs) (\<lambda>(es, r'). Inr (CMap es, r'))
      else rbind (arg info bs) (\<lambda>(count, r1).
        if count > length r1 div 2 then Inl Truncated
        else rbind (repeat_n count (pair_of (decode_value d)) r1) (\<lambda>(es, r'). Inr (CMap es, r')))) = Inr (v, r)"
  shows "body_ok d bs (v, r)"
proof (cases "info = 31")
  note cpp = consuming_parser.pair_of_consuming[OF cp]
  case True
  with run obtain es where *: "until_break (pair_of (decode_value d)) bs = Inr (es, r)" "v = CMap es"
    by (auto simp: rbind_Inr_iff)
  from consuming_parser.until_break_consumes[OF cpp *(1)] show ?thesis
    by (auto simp: * body_ok_def case_prod_beta')
next
  case False
  with run obtain n r1 es where *: "arg info bs = Inr (n, r1)"
    "repeat_n n (pair_of (decode_value d)) r1 = Inr (es, r)" "v = CMap es"
    by (auto simp: rbind_Inr_iff split: if_splits)
  from arg_consumes[OF *(1)] obtain pre1 where "bs = pre1 @ r1" by blast
  moreover from consuming_parser.repeat_n_consumes[OF consuming_parser.pair_of_consuming[OF cp] *(2)] obtain pre2 where "r1 = pre2 @ r"
    "sum_list (map (\<lambda>kv. cbor_weight (fst kv) + cbor_weight (snd kv)) es) \<le> length pre2"
    "list_all (\<lambda>kv. decodable d (fst kv) \<and> decodable d (snd kv)) es" by blast
  ultimately show ?thesis by (intro body_okI[of _ "pre1 @ pre2"]) (simp_all add: * case_prod_beta')
qed

lemma tag_body_ok:
  assumes cp: "consuming_parser (decode_value d) cbor_weight (decodable d)"
    and run: "rbind (arg info bs) (\<lambda>(tag, r1).
        rbind (decode_value d r1) (\<lambda>(inner, r'). Inr (CTag (of_nat tag) inner, r'))) = Inr (v, r)"
  shows "body_ok d bs (v, r)"
proof -
  from run obtain n r1 w where *: "arg info bs = Inr (n, r1)" "decode_value d r1 = Inr (w, r)" "v = CTag (of_nat n) w"
    by (auto simp: rbind_Inr_iff)
  from arg_consumes[OF *(1)] obtain pre1 where "bs = pre1 @ r1" by blast
  moreover from consuming_parser.consumes[OF cp *(2)] obtain pre2 where
    "r1 = pre2 @ r" "cbor_weight w \<le> length pre2" "decodable d w" by blast
  ultimately show ?thesis by (intro body_okI[of _ "pre1 @ pre2"]) (simp_all add: *)
qed

lemma integer_body_ok:
  assumes run: "rbind (arg info bs) (\<lambda>(n, r'). Inr (CInteger (f n), r')) = Inr (v, r)"
    and f: "\<And>n. n < 2 ^ 64 \<Longrightarrow> - (2 ^ 64) \<le> f n \<and> f n < 2 ^ 64"
  shows "body_ok d bs (v, r)"
proof -
  from run obtain n where *: "arg info bs = Inr (n, r)" "v = CInteger (f n)" by (auto simp: rbind_Inr_iff)
  from arg_consumes[OF *(1)] obtain pre where "bs = pre @ r" "n < 2 ^ 64" by blast
  with f[of n] show ?thesis by (intro body_okI[of _ pre]) (simp_all add: *)
qed

lemma string_body_ok:
  assumes run: "rbind (if i then indefinite_string d m bs else chunk info bs) k = Inr (v, r)"
    and k: "k = text_of \<or> k = (\<lambda>(b, r'). Inr (CBytes b, r'))"
  shows "body_ok d bs (v, r)"
proof -
  from run obtain b r1 where "(if i then indefinite_string d m bs else chunk info bs) = Inr (b, r1)" "k (b, r1) = Inr (v, r)"
    unfolding rbind_Inr_iff by auto
  with string_payload_consumes[OF this(1)] k show ?thesis
    by (auto simp: text_of_def body_ok_def split: if_split_asm)
qed

lemma decode_value_consumes:
  "decode_value d bs = Inr (v, r) \<Longrightarrow> \<exists>pre. bs = pre @ r \<and> cbor_weight v \<le> length pre \<and> decodable d v"
proof (induction d arbitrary: bs v r)
  case 0
  then show ?case by simp
next
  case (Suc d)
  have cp: "consuming_parser (decode_value d) cbor_weight (decodable d)"
    by unfold_locales (use Suc.IH in auto)
  from Suc.prems obtain b r0 where bs: "bs = b # r0"
    by (cases bs) (auto simp: get_byte_def)
  note step = Suc.prems[unfolded bs decode_value.simps get_byte_def list.case rbind.simps prod.case Let_def]
  let ?m = "unat (drop_bit 5 b)"
  consider "?m = 0" | "?m = 1" | "?m = 2" | "?m = 3" | "?m = 4" | "?m = 5" | "?m = 6" | "7 \<le> ?m" by linarith
  then have "body_ok d r0 (v, r)"
  proof cases
    case 1
    from step have "rbind (arg (unat (b AND 0x1f)) r0) (\<lambda>(n, r'). Inr (CInteger (int n), r')) = Inr (v, r)"
      unfolding 1 by simp
    then show ?thesis by (rule integer_body_ok) simp
  next
    case 2
    from step have "rbind (arg (unat (b AND 0x1f)) r0) (\<lambda>(n, r'). Inr (CInteger (- 1 - int n), r')) = Inr (v, r)"
      unfolding 2 by simp
    then show ?thesis by (rule integer_body_ok) simp
  next
    case 3
    show ?thesis by (rule string_body_ok[OF step[unfolded 3, simplified]]) simp
  next
    case 4
    show ?thesis by (rule string_body_ok[OF step[unfolded 4, simplified]]) simp
  next
    case 5
    show ?thesis by (rule array_body_ok[OF cp step[unfolded 5, simplified]])
  next
    case 6
    show ?thesis by (rule map_body_ok[OF cp step[unfolded 6, simplified]])
  next
    case 7
    show ?thesis by (rule tag_body_ok[OF cp step[unfolded 7, simplified]])
  next
    case 8
    with step have "simple_value (unat (b AND 0x1f)) r0 = Inr (v, r)" by auto
    from simple_value_consumes[OF this, of d] show ?thesis by (auto simp: body_ok_def)
  qed
  then obtain pre where "r0 = pre @ r" "cbor_weight v \<le> Suc (length pre)" "decodable (Suc d) v"
    by (auto simp: body_ok_def)
  then show ?case using bs by (intro exI[of _ "b # pre"]) simp
qed

interpretation cbor_value: consuming_parser "decode_value d" cbor_weight "decodable d" for d
  by unfold_locales (use decode_value_consumes in auto)

interpretation cbor_pair: consuming_parser "pair_of (decode_value d)"
    "\<lambda>kv. cbor_weight (fst kv) + cbor_weight (snd kv)" "\<lambda>kv. decodable d (fst kv) \<and> decodable d (snd kv)" for d
  by (rule cbor_value.pair_of_consuming)

subsection \<open>Round trip\<close>

lemma initial_byte_table:
  "list_all (\<lambda>m. list_all (\<lambda>i. unat (drop_bit 5 (initial_byte m i)) = m \<and> unat (initial_byte m i AND 0x1f) = i)
     [0..<32]) [0..<8]"
  by code_simp

lemma initial_byte_fields:
  assumes "m < 8" "i < 32"
  shows "unat (drop_bit 5 (initial_byte m i)) = m" "unat (initial_byte m i AND 0x1f) = i"
  using initial_byte_table assms by (auto simp: list_all_iff)

lemma take_be_be_bytes: "n < 256 ^ k \<Longrightarrow> take_be k (be_bytes k n @ r) = Inr (n, r)"
  by (simp add: take_be_def take_n_def be_nat_be_bytes)

text \<open>Reading back a header: its major type, and its argument in whatever width it was written.\<close>

lemma put_header_read:
  assumes "major < 8" "n < 2 ^ 64"
  obtains b info r where "put_header major n = b # r" "unat (drop_bit 5 b) = major" "unat (b AND 0x1f) = info"
    "info \<noteq> 31" "\<And>rest. arg info (r @ rest) = Inr (n, rest)"
proof -
  have fields: "unat (drop_bit 5 (initial_byte major i)) = major \<and> unat (initial_byte major i AND 0x1f) = i" if "i < 32" for i
    using initial_byte_fields[OF assms(1) that] by blast
  consider "n < 24" | "24 \<le> n" "n \<le> 0xFF" | "0xFF < n" "n \<le> 0xFFFF" | "0xFFFF < n" "n \<le> 0xFFFFFFFF" | "0xFFFFFFFF < n"
    by linarith
  then show ?thesis
  proof cases
    case 1
    then show ?thesis using fields[of n] by (intro that[of "initial_byte major n" "[]" n]) (simp_all add: put_header_def arg_def)
  next
    case 2
    then show ?thesis using fields[of 24] take_be_be_bytes[of n 1]
      by (intro that[of "initial_byte major 24" "be_bytes 1 n" 24]) (simp_all add: put_header_def arg_def)
  next
    case 3
    then show ?thesis using fields[of 25] take_be_be_bytes[of n 2]
      by (intro that[of "initial_byte major 25" "be_bytes 2 n" 25]) (simp_all add: put_header_def arg_def)
  next
    case 4
    then show ?thesis using fields[of 26] take_be_be_bytes[of n 4]
      by (intro that[of "initial_byte major 26" "be_bytes 4 n" 26]) (simp_all add: put_header_def arg_def)
  next
    case 5
    then show ?thesis using fields[of 27] take_be_be_bytes[of n 8] assms(2)
      by (intro that[of "initial_byte major 27" "be_bytes 8 n" 27]) (simp_all add: put_header_def arg_def)
  qed
qed

lemma decode_put_header:
  assumes "n < 2 ^ 64"
  shows "decode_value (Suc d) (put_header 0 n @ rest) = Inr (CInteger (int n), rest)"
    and "decode_value (Suc d) (put_header 1 n @ rest) = Inr (CInteger (- 1 - int n), rest)"
    and "length b = n \<Longrightarrow> decode_value (Suc d) (put_header 2 n @ b @ rest) = Inr (CBytes b, rest)"
    and "length b = n \<Longrightarrow> utf8_valid (of_bytes b) \<Longrightarrow>
      decode_value (Suc d) (put_header 3 n @ b @ rest) = Inr (CText (of_bytes b), rest)"
    and "n \<le> length rest \<Longrightarrow> decode_value (Suc d) (put_header 4 n @ rest) =
      rbind (repeat_n n (decode_value d) rest) (\<lambda>(items, r'). Inr (CArray items, r'))"
    and "n \<le> length rest div 2 \<Longrightarrow> decode_value (Suc d) (put_header 5 n @ rest) =
      rbind (repeat_n n (pair_of (decode_value d)) rest) (\<lambda>(es, r'). Inr (CMap es, r'))"
    and "decode_value (Suc d) (put_header 6 n @ rest) =
      rbind (decode_value d rest) (\<lambda>(inner, r'). Inr (CTag (of_nat n) inner, r'))"
proof -
  have chunks: "chunk info (r @ b @ rest) = Inr (b, rest)"
    if "\<And>rest. arg info (r @ rest) = Inr (n, rest)" "length b = n" for info r b rest
    using that(2) that(1)[of "b @ rest"] by (simp add: chunk_def arg_as_len_def take_n_def)
  show "decode_value (Suc d) (put_header 0 n @ rest) = Inr (CInteger (int n), rest)"
    using put_header_read[OF _ assms, of 0] by (fastforce simp: get_byte_def)
  show "decode_value (Suc d) (put_header 1 n @ rest) = Inr (CInteger (- 1 - int n), rest)"
    using put_header_read[OF _ assms, of 1] by (fastforce simp: get_byte_def)
  show "length b = n \<Longrightarrow> decode_value (Suc d) (put_header 2 n @ b @ rest) = Inr (CBytes b, rest)"
    using put_header_read[OF _ assms, of 2] by (fastforce simp: get_byte_def chunks)
  show "length b = n \<Longrightarrow> utf8_valid (of_bytes b) \<Longrightarrow>
      decode_value (Suc d) (put_header 3 n @ b @ rest) = Inr (CText (of_bytes b), rest)"
    using put_header_read[OF _ assms, of 3] by (fastforce simp: get_byte_def chunks text_of_def)
  show "n \<le> length rest \<Longrightarrow> decode_value (Suc d) (put_header 4 n @ rest) =
      rbind (repeat_n n (decode_value d) rest) (\<lambda>(items, r'). Inr (CArray items, r'))"
    using put_header_read[OF _ assms, of 4] by (fastforce simp: get_byte_def arg_as_len_def)
  show "n \<le> length rest div 2 \<Longrightarrow> decode_value (Suc d) (put_header 5 n @ rest) =
      rbind (repeat_n n (pair_of (decode_value d)) rest) (\<lambda>(es, r'). Inr (CMap es, r'))"
    using put_header_read[OF _ assms, of 5] by (fastforce simp: get_byte_def)
  show "decode_value (Suc d) (put_header 6 n @ rest) =
      rbind (decode_value d rest) (\<lambda>(inner, r'). Inr (CTag (of_nat n) inner, r'))"
    using put_header_read[OF _ assms, of 6] by (fastforce simp: get_byte_def)
qed

declare decode_value.simps(2) [simp del]

lemma collect_map_Inr:
  "collect (map f xs) = Inr es \<Longrightarrow> list_all2 (\<lambda>x e. f x = Inr e) xs es"
  by (induction xs arbitrary: es) (auto simp: rbind_Inr_iff)

lemma concat_results_Inr:
  assumes "concat_results (map f xs) = Inr body"
  obtains es where "list_all2 (\<lambda>x e. f x = Inr e) xs es" "body = concat es"
  using assms by (auto simp: concat_results_def rbind_Inr_iff dest: collect_map_Inr)

lemma weight_le_sum: "x \<in> set xs \<Longrightarrow> f x \<le> sum_list (map f xs)" for f :: "'a \<Rightarrow> nat"
  by (induction xs) auto

lemma length_le_sum: "(\<And>x. k \<le> f x) \<Longrightarrow> k * length xs \<le> sum_list (map f xs)" for f :: "'a \<Rightarrow> nat"
  by (induction xs) (auto intro: add_mono)

definition reads_back :: "nat \<Rightarrow> cbor \<Rightarrow> bool" where
  "reads_back d v = (\<forall>bs r. encode_into v = Inr bs \<longrightarrow> decode_value d (bs @ r) = Inr (v, r))"

lemma reads_back_array:
  assumes "list_all (reads_back d) items" "length items < 2 ^ 64"
  shows "reads_back (Suc d) (CArray items)"
  unfolding reads_back_def
proof (intro allI impI)
  fix bs r
  assume "encode_into (CArray items) = Inr bs"
  then obtain es where es: "list_all2 (\<lambda>x e. encode_into x = Inr e) items es"
    and bs: "bs = put_header 4 (length items) @ concat es"
    by (auto simp: rbind_Inr_iff elim: concat_results_Inr)
  from es assms(1) have reads: "list_all2 (\<lambda>x e. \<forall>r. decode_value d (e @ r) = Inr (x, r)) items es"
    by (auto simp: list_all_iff reads_back_def elim!: list.rel_mono_strong)
  have "length items \<le> length (concat es)"
    using cbor_value.repeat_n_reads(2)[OF reads] length_le_sum[of 1 cbor_weight items] by (simp add: Suc_le_eq)
  then show "decode_value (Suc d) (bs @ r) = Inr (CArray items, r)"
    using cbor_value.repeat_n_reads(1)[OF reads] assms(2) by (simp add: bs decode_put_header)
qed

lemma reads_back_map:
  assumes "list_all (\<lambda>kv. reads_back d (fst kv) \<and> reads_back d (snd kv)) entries" "length entries < 2 ^ 64"
  shows "reads_back (Suc d) (CMap entries)"
  unfolding reads_back_def
proof (intro allI impI)
  fix bs r
  assume "encode_into (CMap entries) = Inr bs"
  then obtain es where es: "list_all2 (\<lambda>(k, v) e. rbind (encode_into k) (\<lambda>ek. rbind (encode_into v) (\<lambda>ev. Inr (ek @ ev)))
      = Inr e) entries es"
    and bs: "bs = put_header 5 (length entries) @ concat es"
    by (auto simp: rbind_Inr_iff case_prod_unfold elim: concat_results_Inr)
  from es assms(1) have reads: "list_all2 (\<lambda>x e. \<forall>r. pair_of (decode_value d) (e @ r) = Inr (x, r)) entries es"
    by (fastforce simp: list_all_iff reads_back_def pair_of_def rbind_Inr_iff elim!: list.rel_mono_strong)
  have "2 \<le> cbor_weight k + cbor_weight v" for k v
    using cbor_weight_pos[of k] cbor_weight_pos[of v] by linarith
  then have "2 * length entries \<le> sum_list (map (\<lambda>kv. cbor_weight (fst kv) + cbor_weight (snd kv)) entries)"
    by (intro length_le_sum)
  with cbor_pair.repeat_n_reads(2)[OF reads] have "2 * length entries \<le> length (concat es)" by linarith
  then show "decode_value (Suc d) (bs @ r) = Inr (CMap entries, r)"
    using cbor_pair.repeat_n_reads(1)[OF reads] assms(2) by (simp add: bs decode_put_header)
qed

lemma unat_u64: "unat (w :: 64 word) < 2 ^ 64"
  using unsigned_less[of w, where ?'a = nat] by simp

lemma reads_back_tag: "reads_back d v \<Longrightarrow> reads_back (Suc d) (CTag t v)"
  using unat_u64[of t] by (auto simp: reads_back_def rbind_Inr_iff decode_put_header)

lemma reads_back_text: "utf8_valid t \<Longrightarrow> length t < 2 ^ 64 \<Longrightarrow> reads_back (Suc d) (CText t)"
  using decode_put_header(4)[where ?b = "as_bytes t" and ?n = "length t" and ?d = d] by (simp add: reads_back_def)

lemma reads_back_integer: "reads_back (Suc d) (CInteger i)"
  by (auto simp: reads_back_def encode_integer_def decode_put_header simp del: One_nat_def split: if_splits)

lemma reads_back_simple: "reads_back (Suc d) (CBool b)" "reads_back (Suc d) CNull" "reads_back (Suc d) (CFloat f)"
proof -
  have bits: "unat (drop_bit 5 (0xf4 :: byte)) = 7" "unat (drop_bit 5 (0xf5 :: byte)) = 7" "unat (drop_bit 5 (0xf6 :: byte)) = 7"
    "unat (drop_bit 5 (0xfb :: byte)) = 7" "unat (0xf4 AND 0x1f :: byte) = 20" "unat (0xf5 AND 0x1f :: byte) = 21"
    "unat (0xf6 AND 0x1f :: byte) = 22" "unat (0xfb AND 0x1f :: byte) = 27"
    by simp_all
  have f: "take_be 8 (be_bytes 8 (unat f) @ r) = Inr (unat f, r)" for r
    using unat_u64[of f] by (intro take_be_be_bytes) simp
  show "reads_back (Suc d) (CBool b)" "reads_back (Suc d) CNull" "reads_back (Suc d) (CFloat f)"
    by (auto simp: reads_back_def decode_value.simps get_byte_def bits simple_value_def f)
qed

lemma weight_bounds:
  "x \<in> set items \<Longrightarrow> cbor_weight x < cbor_weight (CArray items)"
  "kv \<in> set entries \<Longrightarrow> cbor_weight (fst kv) < cbor_weight (CMap entries) \<and> cbor_weight (snd kv) < cbor_weight (CMap entries)"
  "length items < cbor_weight (CArray items)"
  "length entries < cbor_weight (CMap entries)"
proof -
  show "x \<in> set items \<Longrightarrow> cbor_weight x < cbor_weight (CArray items)"
    using weight_le_sum[of x items cbor_weight] by simp
  show "length items < cbor_weight (CArray items)"
    using length_le_sum[of 1 cbor_weight items] by (simp add: Suc_le_eq)
  show "kv \<in> set entries \<Longrightarrow> cbor_weight (fst kv) < cbor_weight (CMap entries) \<and> cbor_weight (snd kv) < cbor_weight (CMap entries)"
    using weight_le_sum[of kv entries "\<lambda>(k, v). cbor_weight k + cbor_weight v"] by (auto simp: case_prod_unfold)
  show "length entries < cbor_weight (CMap entries)"
    using length_le_sum[of 1 "\<lambda>(k, v). cbor_weight k + cbor_weight v" entries] by (auto simp: Suc_le_eq)
qed

lemma decode_encode:
  "decodable d v \<Longrightarrow> cbor_weight v < 2 ^ 64 \<Longrightarrow> reads_back d v"
proof (induction v arbitrary: d)
  case (CArray items)
  then obtain d' where d: "d = Suc d'" by (cases d) (auto simp: decodable_def)
  have "reads_back d' x" if "x \<in> set items" for x
    using CArray.IH[OF that] CArray.prems weight_bounds(1)[OF that] that by (simp add: d list_all_iff)
  then show ?case using CArray.prems(2) weight_bounds(3)[of items]
    by (simp only: d) (intro reads_back_array; simp add: list_all_iff)
next
  case (CMap entries)
  then obtain d' where d: "d = Suc d'" by (cases d) (auto simp: decodable_def)
  have "reads_back d' (fst kv) \<and> reads_back d' (snd kv)" if "kv \<in> set entries" for kv
  proof -
    have "decodable d' (fst kv) \<and> decodable d' (snd kv)" using CMap.prems(1) that by (simp add: d list_all_iff)
    with CMap.prems(2) weight_bounds(2)[OF that] CMap.IH(1)[OF that, of "fst kv" d'] CMap.IH(2)[OF that, of "snd kv" d']
    show ?thesis by (cases kv) simp
  qed
  then show ?case using CMap.prems(2) weight_bounds(4)[of entries]
    by (simp only: d) (intro reads_back_map; simp add: list_all_iff)
next
  case (CTag t v)
  then show ?case by (cases d) (auto simp: decodable_def[of 0] intro: reads_back_tag)
next
  case (CBytes b)
  then show ?case by (cases d) (auto simp: decodable_def[of 0] reads_back_def decode_put_header)
next
  case (CText t)
  then show ?case by (cases d) (simp_all add: decodable_def[of 0] reads_back_text)
next
  case (CInteger i)
  then show ?case by (cases d) (simp_all add: decodable_def[of 0] reads_back_integer)
next
  case (CBool b)
  then show ?case by (cases d) (simp_all add: decodable_def[of 0] reads_back_simple)
next
  case CNull
  then show ?case by (cases d) (simp_all add: decodable_def[of 0] reads_back_simple)
next
  case (CFloat f)
  then show ?case by (cases d) (simp_all add: decodable_def[of 0] reads_back_simple)
qed

lemma collect_Inr_ex: "(\<And>x. x \<in> set xs \<Longrightarrow> \<exists>y. f x = Inr y) \<Longrightarrow> \<exists>ys. collect (map f xs) = Inr ys"
proof (induction xs)
  case (Cons x xs)
  then obtain y ys where "f x = Inr y" "collect (map f xs) = Inr ys" by (metis list.set_intros)
  then show ?case by simp
qed simp

lemma encode_total: "cbor_ok v \<Longrightarrow> \<exists>bs. encode_into v = Inr bs"
proof (induction v)
  case (CArray items)
  then have "\<exists>ys. collect (map encode_into items) = Inr ys" by (intro collect_Inr_ex) (auto simp: list_all_iff)
  then show ?case by (auto simp: concat_results_def)
next
  case (CMap entries)
  let ?f = "\<lambda>(k, v). rbind (encode_into k) (\<lambda>ek. rbind (encode_into v) (\<lambda>ev. Inr (ek @ ev)))"
  have "\<exists>y. ?f kv = Inr y" if "kv \<in> set entries" for kv
  proof -
    have "cbor_ok (fst kv) \<and> cbor_ok (snd kv)" using CMap.prems that by (auto simp: list_all_iff)
    with CMap.IH(1)[OF that, of "fst kv"] CMap.IH(2)[OF that, of "snd kv"] show ?thesis by (cases kv) auto
  qed
  then have "\<exists>ys. collect (map ?f entries) = Inr ys" by (rule collect_Inr_ex)
  then show ?case by (auto simp: concat_results_def)
qed (auto simp: encode_integer_def)

subsection \<open>The codec\<close>

lemma cbor_encode_decode:
  assumes "cbor_depth v \<le> MAX_DEPTH" "cbor_ok v" "cbor_weight v < 2 ^ 64"
  shows "\<exists>bs. cbor_encode v = Inr bs \<and> cbor_decode (bs @ rest) = Inr v"
proof -
  from encode_total[OF assms(2)] obtain bs where bs: "encode_into v = Inr bs" ..
  have "decodable (MAX_DEPTH + 1) v" using assms by (simp add: decodable_def)
  from decode_encode[OF this assms(3)] bs have "decode_value (MAX_DEPTH + 1) (bs @ rest) = Inr (v, rest)"
    unfolding reads_back_def by blast
  with bs show ?thesis by (simp add: cbor_encode_def cbor_decode_def)
qed

text \<open>
  C28. Decoding inverts encoding: every value nested at most 128 deep, with integers in the range of
  the two CBOR integer types, has an encoding, and decoding it gives the value back whatever bytes
  follow. (The weight bound says that lengths fit the \<open>u64\<close> of a header; texts are UTF-8 as every
  Rust \<open>String\<close> is.)
\<close>

theorem cbor_roundtrip:
  assumes "cbor_depth v \<le> MAX_DEPTH" "cbor_ok v" "cbor_weight v < 2 ^ 64"
  shows "\<exists>bs. cbor_encode v = Inr bs \<and> cbor_decode (bs @ rest) = Inr v"
  by (rule cbor_encode_decode[OF assms])

theorem cbor_roundtrip_witness:
  "\<exists>bs. cbor_encode (CMap [(CText ''k'', CArray [CInteger (- 5), CBytes [1, 2]]), (CInteger 7, CTag 24 CNull)]) = Inr bs \<and>
     cbor_decode (bs @ [0xff]) =
       Inr (CMap [(CText ''k'', CArray [CInteger (- 5), CBytes [1, 2]]), (CInteger 7, CTag 24 CNull)])"
  by (rule cbor_roundtrip) (simp_all add: MAX_DEPTH_def utf8_valid_def)

text \<open>
  C29. Hostile input cannot make the decoder allocate or recurse beyond its input: a decoded value is
  nested at most 128 deep, its number of nodes plus payload bytes is at most the length of the
  input, and it is well formed, so that encoding it again succeeds.
\<close>

theorem cbor_decode_bounded:
  assumes "cbor_decode bs = Inr v"
  shows "cbor_depth v \<le> MAX_DEPTH \<and> cbor_weight v \<le> length bs \<and> (\<exists>bs'. cbor_encode v = Inr bs')"
proof -
  from assms obtain r where "decode_value (MAX_DEPTH + 1) bs = Inr (v, r)"
    by (auto simp: cbor_decode_def rbind_Inr_iff)
  from cbor_value.consumes[OF this] obtain pre where
    "bs = pre @ r" "cbor_weight v \<le> length pre" "decodable (MAX_DEPTH + 1) v" by blast
  then show ?thesis using encode_total[of v] by (auto simp: decodable_def cbor_encode_def)
qed

theorem cbor_decode_bounded_witness:
  "cbor_decode [0x82, 0x01, 0x61, 0x78] = Inr (CArray [CInteger 1, CText ''x'']) \<and>
     cbor_weight (CArray [CInteger 1, CText ''x'']) \<le> 4"
proof -
  have d: "cbor_decode [0x82, 0x01, 0x61, 0x78] = Inr (CArray [CInteger 1, CText ''x''])" by code_simp
  from cbor_decode_bounded[OF d] d show ?thesis by simp
qed

subsection \<open>JSON through CBOR\<close>

text \<open>The values \<open>serde_json\<close> builds: UTF-8 strings, keys in strict order, negative integers in the
  negative representation, finite floats.\<close>

fun number_wf :: "json_number \<Rightarrow> bool" where
  "number_wf (PosInt u) = True"
| "number_wf (NegInt i) = (sint i < 0)"
| "number_wf (Float f) = f64_is_finite f"

fun json_wf :: "json \<Rightarrow> bool" where
  "json_wf (JNumber n) = number_wf n"
| "json_wf (JString s) = utf8_valid s"
| "json_wf (JArray xs) = list_all json_wf xs"
| "json_wf (JObject es) = (sorted_wrt (<) (map fst es) \<and> list_all (\<lambda>(k, v). utf8_valid k \<and> json_wf v) es)"
| "json_wf _ = True"

fun json_depth :: "json \<Rightarrow> nat" where
  "json_depth (JArray xs) = fold max (map (\<lambda>v. Suc (json_depth v)) xs) 0"
| "json_depth (JObject es) = fold max (map (\<lambda>(k, v). Suc (json_depth v)) es) 0"
| "json_depth _ = 0"

fun json_weight :: "json \<Rightarrow> nat" where
  "json_weight (JString s) = Suc (length s)"
| "json_weight (JArray xs) = Suc (sum_list (map json_weight xs))"
| "json_weight (JObject es) = Suc (sum_list (map (\<lambda>(k, v). Suc (length k) + json_weight v) es))"
| "json_weight _ = 1"

lemma obj_insert_last: "list_all (\<lambda>e. fst e < k) es \<Longrightarrow> obj_insert k v es = es @ [(k, v)]"
  by (induction es) auto

lemma obj_inserts_sorted: "sorted_wrt (<) (map fst es) \<Longrightarrow> fold (\<lambda>(k, j). obj_insert k j) es [] = es"
proof (induction es rule: rev_induct)
  case (snoc e es)
  then show ?case by (cases e) (simp add: sorted_wrt_append list_all_iff obj_insert_last)
qed simp

definition bridges :: "json \<Rightarrow> cbor \<Rightarrow> bool" where
  "bridges j c = (from_json j = Inr c \<and> to_json c = Inr j \<and> cbor_ok c \<and> cbor_depth c = json_depth j \<and> cbor_weight c = json_weight j)"

lemma bridges_number:
  assumes "number_wf n"
  shows "\<exists>c. bridges (JNumber n) c"
proof (cases n)
  case (PosInt u)
  have "0 \<le> uint u" by simp
  moreover have "uint u < 18446744073709551616" using uint_bounded[of u] by simp
  moreover have "- 18446744073709551616 \<le> uint u" "- 9223372036854775808 \<le> uint u"
    by (rule order_trans[OF _ \<open>0 \<le> uint u\<close>], simp)+
  moreover have "unat u < 9223372036854775808 \<longleftrightarrow> uint u < 9223372036854775808"
    using of_nat_less_iff[of "unat u" 9223372036854775808, where ?'a = int] by simp
  ultimately show ?thesis
    by (intro exI[of _ "CInteger (uint u)"])
      (auto simp: bridges_def PosInt as_i64_def as_u64_def number_from_int_def)
next
  case (NegInt i)
  have "- (2 ^ 63) \<le> sint i" "sint i < 2 ^ 63" using sint_ge[of i] sint_lt[of i] by simp_all
  with assms NegInt show ?thesis
    by (intro exI[of _ "CInteger (sint i)"]) (simp add: bridges_def as_i64_def number_from_int_def)
next
  case (Float f)
  with assms show ?thesis
    by (intro exI[of _ "CFloat f"]) (simp add: bridges_def as_i64_def as_u64_def as_f64_def)
qed

lemma bridges_list: "(\<And>x. x \<in> set xs \<Longrightarrow> \<exists>c. bridges x c) \<Longrightarrow> \<exists>cs. list_all2 bridges xs cs"
proof (induction xs)
  case (Cons x xs)
  then obtain c cs where "bridges x c" "list_all2 bridges xs cs" by (metis list.set_intros)
  then show ?case by (intro exI[of _ "c # cs"]) simp
qed (auto intro: exI[of _ "[]"])

lemma bridges_array: "list_all2 bridges xs cs \<Longrightarrow> bridges (JArray xs) (CArray cs)"
proof -
  assume bs: "list_all2 bridges xs cs"
  then have "collect (map from_json xs) = Inr cs" "collect (map to_json cs) = Inr xs" "list_all cbor_ok cs"
    "map (\<lambda>v. Suc (cbor_depth v)) cs = map (\<lambda>v. Suc (json_depth v)) xs" "map cbor_weight cs = map json_weight xs"
    by (induction rule: list_all2_induct) (auto simp: bridges_def)
  then show ?thesis by (simp add: bridges_def)
qed

definition entry_bridges :: "string \<times> json \<Rightarrow> cbor \<times> cbor \<Rightarrow> bool" where
  "entry_bridges e ce = (utf8_valid (fst e) \<and> fst ce = CText (fst e) \<and> bridges (snd e) (snd ce))"

lemma bridges_object:
  "sorted_wrt (<) (map fst es) \<Longrightarrow> list_all2 entry_bridges es ces \<Longrightarrow> bridges (JObject es) (CMap ces)"
proof -
  assume srt: "sorted_wrt (<) (map fst es)" and bs: "list_all2 entry_bridges es ces"
  from bs have "collect (map (\<lambda>(k, v). rbind (from_json v) (\<lambda>c. Inr (CText k, c))) es) = Inr ces"
    and "collect (map (\<lambda>(k, v). case k of CText key \<Rightarrow> rbind (to_json v) (\<lambda>j. Inr (key, j))
       | _ \<Rightarrow> Inl (Unrepresentable ''non-text map key in JSON'')) ces) = Inr es"
    and "list_all (\<lambda>(k, v). cbor_ok k \<and> cbor_ok v) ces"
    and "map (\<lambda>(k, v). Suc (max (cbor_depth k) (cbor_depth v))) ces = map (\<lambda>(k, v). Suc (json_depth v)) es"
    and "map (\<lambda>(k, v). cbor_weight k + cbor_weight v) ces = map (\<lambda>(k, v). Suc (length k) + json_weight v) es"
    by (induction rule: list_all2_induct) (auto simp: bridges_def entry_bridges_def split: prod.splits)
  with srt show ?thesis by (simp add: bridges_def obj_inserts_sorted)
qed

lemma bridges_entries:
  "(\<And>e. e \<in> set es \<Longrightarrow> utf8_valid (fst e) \<and> (\<exists>c. bridges (snd e) c)) \<Longrightarrow> \<exists>ces. list_all2 entry_bridges es ces"
proof (induction es)
  case (Cons e es)
  then obtain c ces where "utf8_valid (fst e)" "bridges (snd e) c" "list_all2 entry_bridges es ces" by (metis list.set_intros)
  then show ?case by (intro exI[of _ "(CText (fst e), c) # ces"]) (simp add: entry_bridges_def[of e])
qed (auto intro: exI[of _ "[]"])

lemma bridges_leaf:
  "bridges JNull CNull" "bridges (JBool b) (CBool b)" "utf8_valid s \<Longrightarrow> bridges (JString s) (CText s)"
  by (simp_all add: bridges_def)

lemma json_bridges: "json_wf j \<Longrightarrow> \<exists>c. bridges j c"
proof (induction j)
  case (JArray xs)
  then show ?case using bridges_list[of xs] by (auto simp: list_all_iff intro: bridges_array)
next
  case (JObject es)
  have "\<exists>ces. list_all2 entry_bridges es ces"
  proof (rule bridges_entries)
    fix e assume e: "e \<in> set es"
    with JObject.prems have "utf8_valid (fst e) \<and> json_wf (snd e)" by (auto simp: list_all_iff)
    with JObject.IH[OF e, of "snd e"] show "utf8_valid (fst e) \<and> (\<exists>c. bridges (snd e) c)" by (cases e) simp
  qed
  with JObject.prems show ?case by (auto intro: bridges_object)
next
  case (JNumber n)
  then show ?case by (simp add: bridges_number)
qed (auto intro: bridges_leaf)

text \<open>
  JSON travels through CBOR unchanged: a JSON document as \<open>serde_json\<close> builds it, nested at most
  128 deep, converts to a CBOR value that encodes, and decoding and converting back gives the same
  document, entry order, number representations and strings included.
\<close>

lemma json_cbor_roundtrip:
  assumes "json_wf j" "json_depth j \<le> MAX_DEPTH" "json_weight j < 2 ^ 64"
  shows "\<exists>bs. rbind (from_json j) cbor_encode = Inr bs \<and> rbind (cbor_decode bs) to_json = Inr j"
proof -
  from json_bridges[OF assms(1)] obtain c where c: "bridges j c" ..
  with assms have "decodable (MAX_DEPTH + 1) c" "cbor_weight c < 2 ^ 64" "cbor_ok c"
    by (simp_all add: bridges_def decodable_def)
  from decode_encode[OF this(1,2)] encode_total[OF this(3)] obtain bs where
    "encode_into c = Inr bs" "decode_value (MAX_DEPTH + 1) (bs @ []) = Inr (c, [])"
    unfolding reads_back_def by blast
  with c show ?thesis by (intro exI[of _ bs]) (simp add: bridges_def cbor_encode_def cbor_decode_def)
qed

end
