(* ===== verification/Crypto.thy ===== *)
theory Crypto
  imports Base64 Canonical
begin

text \<open>
  \<open>crates/tf-types/src/crypto.rs\<close> and the signature check that the signed documents share. The crates
  behind it (ed25519-dalek, sha2, flate2, unicode-normalization, serde_json's parser, chacha20poly1305,
  hkdf, x25519-dalek) are one record of functions, the argument \<open>C\<close> of every definition that calls
  them; what the code relies on is stated by the predicates at the end of the theory.
\<close>

subsection \<open>The crates\<close>

record crates =
  cr_nfc :: "string \<Rightarrow> string"
  cr_fmt_f64 :: "64 word \<Rightarrow> string"
  cr_sha256 :: "bytes \<Rightarrow> bytes"
  cr_sign :: "bytes \<Rightarrow> bytes \<Rightarrow> bytes"
  cr_public :: "bytes \<Rightarrow> bytes"
  cr_sig_error :: "bytes \<Rightarrow> string option"
  cr_key_error :: "bytes \<Rightarrow> string option"
  cr_verify :: "bytes \<Rightarrow> bytes \<Rightarrow> bytes \<Rightarrow> bool"
  cr_deflate :: "bytes \<Rightarrow> bytes"
  cr_inflate :: "bytes \<Rightarrow> bytes option"
  cr_json_parse :: "bytes \<Rightarrow> string + json"
  cr_x25519 :: "bytes \<Rightarrow> bytes \<Rightarrow> bytes"
  cr_x25519_public :: "bytes \<Rightarrow> bytes"
  cr_hkdf :: "bytes \<Rightarrow> bytes \<Rightarrow> bytes \<Rightarrow> nat \<Rightarrow> bytes"
  cr_aead_encrypt :: "bytes \<Rightarrow> bytes \<Rightarrow> bytes \<Rightarrow> bytes \<Rightarrow> bytes"
  cr_aead_decrypt :: "bytes \<Rightarrow> bytes \<Rightarrow> bytes \<Rightarrow> bytes \<Rightarrow> bytes option"

definition canon :: "crates \<Rightarrow> json \<Rightarrow> canonical_json_error + string" where
  "canon C v = canonicalize (cr_nfc C) (cr_fmt_f64 C) v"

text \<open>\<open>Display\<close> of the one canonicalisation error, with the text of a non-finite float.\<close>

definition f64_nonfinite_str :: "64 word \<Rightarrow> string" where
  "f64_nonfinite_str f = (if f64_frac f \<noteq> 0 then ''NaN'' else if f64_sign f then ''-inf'' else ''inf'')"

fun canonical_error_str :: "canonical_json_error \<Rightarrow> string" where
  "canonical_error_str (NonFinite f) = ''cannot canonicalize non-finite number: '' @ f64_nonfinite_str f"

subsection \<open>crypto.rs\<close>

datatype crypto_error =
    PrivateKeyLength nat
  | PublicKeyLength nat
  | SignatureLength nat
  | BadSignature
  | BadPublicKey
  | BadBase64 string
  | UnknownAlgorithm string
  | Generic string

fun crypto_error_str :: "crypto_error \<Rightarrow> string" where
  "crypto_error_str (PrivateKeyLength n) = ''invalid ed25519 private key: expected 32 raw bytes, got '' @ show_nat n"
| "crypto_error_str (PublicKeyLength n) = ''invalid ed25519 public key: expected 32 raw bytes, got '' @ show_nat n"
| "crypto_error_str (SignatureLength n) = ''invalid ed25519 signature: expected 64 raw bytes, got '' @ show_nat n"
| "crypto_error_str BadSignature = ''signature verification failed''"
| "crypto_error_str BadPublicKey = ''invalid public key encoding''"
| "crypto_error_str (BadBase64 s) = ''invalid base64: '' @ s"
| "crypto_error_str (UnknownAlgorithm s) = ''unknown algorithm: '' @ s"
| "crypto_error_str (Generic s) = s"

definition ed25519_verify :: "crates \<Rightarrow> bytes \<Rightarrow> bytes \<Rightarrow> bytes \<Rightarrow> crypto_error + unit" where
  "ed25519_verify C public_key msg signature =
     (if length public_key \<noteq> 32 then Inl (PublicKeyLength (length public_key))
      else if length signature \<noteq> 64 then Inl (SignatureLength (length signature))
      else if cr_key_error C public_key \<noteq> None then Inl BadPublicKey
      else if cr_verify C public_key msg signature then Inr () else Inl BadSignature)"

definition sha256_hashref :: "crates \<Rightarrow> bytes \<Rightarrow> string" where
  "sha256_hashref C bs = ''sha256:'' @ hex_lower (cr_sha256 C bs)"

definition from_hex :: "char \<Rightarrow> nat option" where
  "from_hex c =
     (let b = of_char c in
      if 48 \<le> b \<and> b \<le> 57 then Some (b - 48)
      else if 97 \<le> b \<and> b \<le> 102 then Some (b - 97 + 10)
      else if 65 \<le> b \<and> b \<le> 70 then Some (b - 65 + 10)
      else None)"

fun parse_hex :: "string \<Rightarrow> crypto_error + bytes" where
  "parse_hex [] = Inr []"
| "parse_hex [c] = Inl (BadBase64 ''odd hex length'')"
| "parse_hex (c # d # cs) =
     rbind (ok_or (BadBase64 ''non-hex char'') (from_hex c)) (\<lambda>hi.
     rbind (ok_or (BadBase64 ''non-hex char'') (from_hex d)) (\<lambda>lo.
     rbind (parse_hex cs) (\<lambda>out. Inr (of_nat (hi * 16 + lo) # out))))"

definition parse_hashref :: "string \<Rightarrow> crypto_error + (string \<times> bytes)" where
  "parse_hashref s =
     (case str_find CHR '':'' s of
        None \<Rightarrow> Inl (UnknownAlgorithm s)
      | Some i \<Rightarrow> rbind (parse_hex (drop (Suc i) s)) (\<lambda>out. Inr (take i s, out)))"

definition b64decode :: "string \<Rightarrow> crypto_error + bytes" where
  "b64decode s = map_err (\<lambda>e. BadBase64 (decode_error_str e)) (base64_decode STANDARD s)"

subsection \<open>The signature check\<close>

text \<open>The verifiers of the signed documents decode the base64 text of the signature, parse it, parse
  the key and verify, in this order; they differ in what they report.\<close>

datatype sig_check = SigBase64 decode_error | SigParse string | SigKey string | SigBad | SigOk

definition check_signature :: "crates \<Rightarrow> bytes \<Rightarrow> bytes \<Rightarrow> string \<Rightarrow> sig_check" where
  "check_signature C pk msg text =
     (case base64_decode STANDARD text of
        Inl e \<Rightarrow> SigBase64 e
      | Inr sig \<Rightarrow>
     (case cr_sig_error C sig of
        Some e \<Rightarrow> SigParse e
      | None \<Rightarrow>
     (case cr_key_error C pk of
        Some e \<Rightarrow> SigKey e
      | None \<Rightarrow> if cr_verify C pk msg sig then SigOk else SigBad)))"

definition sign_text :: "crates \<Rightarrow> bytes \<Rightarrow> bytes \<Rightarrow> string" where
  "sign_text C seed msg = base64_encode STANDARD (cr_sign C seed msg)"

subsection \<open>What the code relies on\<close>

text \<open>A signature made with a key verifies under its public key, and both parse.\<close>

definition ed25519_ok :: "crates \<Rightarrow> bool" where
  "ed25519_ok C = (\<forall>seed m. cr_sig_error C (cr_sign C seed m) = None \<and> cr_key_error C (cr_public C seed) = None \<and>
     cr_verify C (cr_public C seed) m (cr_sign C seed m))"

text \<open>Inflating a deflated string gives it back.\<close>

definition deflate_ok :: "crates \<Rightarrow> bool" where
  "deflate_ok C = (\<forall>b. cr_inflate C (cr_deflate C b) = Some b)"

text \<open>Normalisation leaves ASCII alone.\<close>

definition is_ascii :: "string \<Rightarrow> bool" where
  "is_ascii s = list_all (\<lambda>c. of_char c < (128 :: nat)) s"

definition nfc_ok :: "crates \<Rightarrow> bool" where
  "nfc_ok C = (\<forall>s. is_ascii s \<longrightarrow> cr_nfc C s = s)"

text \<open>A SHA-256 digest has 32 bytes.\<close>

definition digest_ok :: "crates \<Rightarrow> bool" where
  "digest_ok C = (\<forall>b. length (cr_sha256 C b) = 32)"

lemma check_signature_sign_text:
  "ed25519_ok C \<Longrightarrow> check_signature C (cr_public C seed) m (sign_text C seed m) = SigOk"
  by (simp add: check_signature_def sign_text_def ed25519_ok_def)

lemma check_signature_SigOk:
  "check_signature C pk m text = SigOk \<longleftrightarrow>
     (\<exists>sig. text = base64_encode STANDARD sig \<and> cr_sig_error C sig = None \<and> cr_key_error C pk = None \<and> cr_verify C pk m sig)"
  by (auto simp: check_signature_def base64_decode_iff split: sum.splits option.splits if_splits)

subsection \<open>Hash references\<close>

lemma from_hex_hex_digit: "d < 16 \<Longrightarrow> from_hex (hex_digit d) = Some d"
  by (auto simp: from_hex_def hex_digit_def Let_def)

lemma parse_hex_hex_lower: "parse_hex (hex_lower bs) = Inr bs"
proof (induction bs)
  case (Cons b bs)
  have b: "unat b < 256" using unsigned_less[of b, where ?'a = nat] by simp
  then have "from_hex (hex_digit (unat b div 16)) = Some (unat b div 16)"
    "from_hex (hex_digit (unat b mod 16)) = Some (unat b mod 16)"
    by (simp_all add: from_hex_hex_digit)
  moreover have "of_nat (unat b div 16 * 16 + unat b mod 16) = b"
    unfolding div_mult_mod_eq by simp
  ultimately show ?case using Cons by (simp add: hex_lower_def hex_byte_def del: of_nat_add of_nat_mult)
qed (simp add: hex_lower_def)

lemma parse_hashref_sha256: "parse_hashref (sha256_hashref C bs) = Inr (''sha256'', cr_sha256 C bs)"
  by (simp add: parse_hashref_def sha256_hashref_def parse_hex_hex_lower)

lemma sha256_hashref_eq: "sha256_hashref C a = sha256_hashref C b \<longleftrightarrow> cr_sha256 C a = cr_sha256 C b"
  by (metis Inr_inject parse_hashref_sha256 prod.inject sha256_hashref_def)

text \<open>Crates for the examples: an identity "cipher" and a signature that repeats key and message.\<close>

definition raw_prefix :: string where
  "raw_prefix = CHR 0x7B # CHR 0x22 # ''raw'' @ [CHR 0x22, CHR '':'', CHR 0x22]"

definition sample_crates :: crates where
  "sample_crates = \<lparr>cr_nfc = (\<lambda>s. s), cr_fmt_f64 = (\<lambda>_. []), cr_sha256 = (\<lambda>b. take 32 (b @ replicate 32 0)),
     cr_sign = (\<lambda>seed m. seed @ m), cr_public = (\<lambda>seed. seed), cr_sig_error = (\<lambda>_. None), cr_key_error = (\<lambda>_. None),
     cr_verify = (\<lambda>pk m s. s = pk @ m), cr_deflate = (\<lambda>b. b), cr_inflate = Some,
     cr_json_parse = (\<lambda>b. case strip_prefix raw_prefix (of_bytes b) of
         Some r \<Rightarrow> Inr (JObject [(''raw'', JString (take (length r - 2) r))]) | None \<Rightarrow> Inl []),
     cr_x25519 = (\<lambda>a b. map2 (+) a b), cr_x25519_public = (\<lambda>a. a),
     cr_hkdf = (\<lambda>k salt info n. take n (k @ salt @ info @ replicate n 0)),
     cr_aead_encrypt = (\<lambda>k n aad p. p), cr_aead_decrypt = (\<lambda>k n aad c. Some c)\<rparr>"

lemma sample_crates_ok: "ed25519_ok sample_crates" "deflate_ok sample_crates" "nfc_ok sample_crates"
  by (simp_all add: sample_crates_def ed25519_ok_def deflate_ok_def nfc_ok_def)

end
