(* ===== verification/Signed.thy ===== *)
theory Signed
  imports Crypto
begin

text \<open>
  The documents the code signs (packets, receipts, revocation lists, relay authorities, permission
  grants, migrations) share one scheme: the derived serialiser writes the struct as a JSON object, the
  entry \<open>signature\<close> is removed, the rest is canonicalised, possibly hashed, and signed. The contract of
  such a document is the locale \<open>signed_document\<close>; each component interprets it on its own struct and
  gets the two facts every protocol step relies on: a sealed document verifies, and a signature binds
  every field. (\<open>plain\<close> are the documents without fractional numbers, whose text a parameter decides.)
\<close>

definition unwrap_or_default :: "'e + string \<Rightarrow> string" where
  "unwrap_or_default r = (case r of Inr s \<Rightarrow> s | Inl _ \<Rightarrow> [])"

lemma unwrap_or_default_Inr [simp]: "unwrap_or_default (Inr s) = s"
  by (simp add: unwrap_or_default_def)

subsection \<open>Structs as objects\<close>

lemma filter_sort_entries: "filter (\<lambda>e. P (fst e)) (sort_entries es) = sort_entries (filter (\<lambda>e. P (fst e)) es)"
  by (simp add: sort_entries_def filter_sort)

lemma without_key_present:
  assumes "k \<notin> set (map fst t)"
  shows "without_key k (JObject (sort_entries (present (t @ [(k, Some v)])))) = JObject (sort_entries (present t))"
proof -
  have "filter (\<lambda>e. fst e \<noteq> k) (present t) = present t"
    using assms fst_present[of t] by (auto simp: filter_id_conv)
  then show ?thesis by (simp add: filter_sort_entries[where P = "\<lambda>l. l \<noteq> k"])
qed

lemma distinct_sort_entries: "distinct (map fst (sort_entries es)) \<longleftrightarrow> distinct (map fst es)"
proof -
  have "mset (map fst (sort_entries es)) = mset (map fst es)" by (simp add: sort_entries_def)
  then show ?thesis by (rule mset_eq_imp_distinct_iff)
qed

lemma map_of_sort_entries: "distinct (map fst es) \<Longrightarrow> map_of (sort_entries es) = map_of es"
  by (intro map_of_inject_set[THEN iffD2]) (simp_all add: distinct_sort_entries)

definition norm_entries :: "(string \<Rightarrow> string) \<Rightarrow> (string \<times> json) list \<Rightarrow> (string \<times> njson) list" where
  "norm_entries nfc es = map (\<lambda>(k, v). (nfc k, json_norm nfc v)) es"

lemma map_of_norm_entries:
  "(\<And>k. k \<in> fst ` set es \<Longrightarrow> nfc k = k) \<Longrightarrow> map_of (norm_entries nfc es) k = map_option (json_norm nfc) (map_of es k)"
  by (induction es) (auto simp: norm_entries_def)

lemma struct_norm_eq:
  assumes keys: "map fst t = map fst u" "distinct (map fst t)" "\<And>k. k \<in> set (map fst t) \<Longrightarrow> nfc k = k"
    and eq: "json_norm nfc (JObject (sort_entries (present t))) = json_norm nfc (JObject (sort_entries (present u)))"
  shows "map (map_option (json_norm nfc) \<circ> snd) t = map (map_option (json_norm nfc) \<circ> snd) u"
proof -
  have lookup: "map_of (sort_entries (norm_entries nfc (sort_entries (present s)))) k =
      map_option (json_norm nfc) (Option.bind (map_of s k) (\<lambda>v. v))" if s: "map fst s = map fst t" for s k
  proof -
    from s keys have d: "distinct (map fst s)" by simp
    have sub: "fst ` set (present s) \<subseteq> set (map fst t)" using fst_present[of s] by (simp flip: s)
    have n: "nfc k = k" if "k \<in> fst ` set (sort_entries (present s))" for k
      using that sub by (intro keys(3)) (simp only: set_sort_entries, blast)
    have dp: "distinct (map fst (present s))" by (rule distinct_present[OF d])
    have "map fst (norm_entries nfc (sort_entries (present s))) = map fst (sort_entries (present s))"
      using n by (force simp: norm_entries_def)
    then have "distinct (map fst (norm_entries nfc (sort_entries (present s))))"
      using dp by (simp add: distinct_sort_entries)
    note sorted = map_of_sort_entries[OF this]
    have "map_of (norm_entries nfc (sort_entries (present s))) k =
        map_option (json_norm nfc) (map_of (sort_entries (present s)) k)"
      by (rule map_of_norm_entries) (rule n)
    with sorted show ?thesis by (simp add: map_of_sort_entries[OF dp] map_of_present[OF d])
  qed
  from eq have "map_of (sort_entries (norm_entries nfc (sort_entries (present t)))) =
      map_of (sort_entries (norm_entries nfc (sort_entries (present u))))"
    by (simp add: norm_entries_def)
  then have eqs: "map_option (json_norm nfc) (Option.bind (map_of t k) (\<lambda>v. v)) =
      map_option (json_norm nfc) (Option.bind (map_of u k) (\<lambda>v. v))" for k
    using lookup[of t k] lookup[of u k] keys(1) by simp
  have len: "length t = length u" using keys(1) by (metis length_map)
  show ?thesis
  proof (rule nth_equalityI)
    fix i assume "i < length (map (map_option (json_norm nfc) \<circ> snd) t)"
    then have i: "i < length t" "i < length u" using len by simp_all
    have fst: "fst (t ! i) = fst (u ! i)" using keys(1) i by (metis nth_map)
    have "map_of t (fst (t ! i)) = Some (snd (t ! i))" "map_of u (fst (u ! i)) = Some (snd (u ! i))"
      using i keys by (simp_all add: map_of_eq_Some_iff)
    with eqs[of "fst (t ! i)"] fst i
    show "map (map_option (json_norm nfc) \<circ> snd) t ! i = map (map_option (json_norm nfc) \<circ> snd) u ! i" by simp
  qed (simp add: len)
qed

subsection \<open>Fields\<close>

definition u32_json :: "32 word \<Rightarrow> json" where
  "u32_json w = JNumber (PosInt (ucast w))"

text \<open>Fields that agree after normalisation are equal when their strings are in normal form.\<close>

lemma norm_opt_string_eq:
  assumes "\<And>s. a = Some s \<Longrightarrow> nfc s = s" "\<And>s. b = Some s \<Longrightarrow> nfc s = s"
  shows "map_option (json_norm nfc) (map_option JString a) = map_option (json_norm nfc) (map_option JString b) \<longleftrightarrow> a = b"
  using assms by (cases a; cases b) auto

lemma norm_opt_u32_eq:
  "map_option (json_norm nfc) (map_option u32_json a) = map_option (json_norm nfc) (map_option u32_json b) \<longleftrightarrow> a = b"
proof -
  have "uint (ucast w :: 64 word) = uint w" for w :: "32 word"
    using uint_bounded[of w] by (simp add: unsigned_ucast_eq take_bit_int_eq_self)
  then show ?thesis by (cases a; cases b) (auto simp: u32_json_def word_uint_eq_iff)
qed

lemma norm_strings_inject:
  assumes "map (\<lambda>s. NStr (nfc s)) xs = map (\<lambda>s. NStr (nfc s)) ys"
    "\<And>s. s \<in> set xs \<Longrightarrow> nfc s = s" "\<And>s. s \<in> set ys \<Longrightarrow> nfc s = s"
  shows "xs = ys"
proof -
  have "map nfc xs = map nfc ys" using assms(1) by (auto simp: list_eq_iff_nth_eq)
  moreover have "map nfc xs = xs" "map nfc ys = ys" using assms(2,3) by (auto intro: map_idI)
  ultimately show ?thesis by simp
qed

lemma norm_opt_strings_eq:
  assumes a: "\<And>xs s. a = Some xs \<Longrightarrow> s \<in> set xs \<Longrightarrow> nfc s = s"
    and b: "\<And>xs s. b = Some xs \<Longrightarrow> s \<in> set xs \<Longrightarrow> nfc s = s"
  shows "map_option (json_norm nfc) (map_option strings_json a) = map_option (json_norm nfc) (map_option strings_json b) \<longleftrightarrow> a = b"
proof (cases a; cases b)
  fix xs ys
  assume xy: "a = Some xs" "b = Some ys"
  show ?thesis
    using norm_strings_inject[of nfc xs ys] a[OF xy(1)] b[OF xy(2)] xy by (auto simp: strings_json_def comp_def)
qed (simp_all add: strings_json_def)

subsection \<open>The contract\<close>

definition struct_text :: "crates \<Rightarrow> (string \<times> json option) list \<Rightarrow> string" where
  "struct_text C t = unwrap_or_default (canon C (JObject (sort_entries (present t))))"

definition frac_free_table :: "(string \<times> json option) list \<Rightarrow> bool" where
  "frac_free_table t = list_all (\<lambda>(k, v). case v of None \<Rightarrow> True | Some j \<Rightarrow> frac_free j) t"

lemma frac_free_struct: "frac_free_table t \<Longrightarrow> frac_free (JObject (sort_entries (present t)))"
  by (fastforce simp: frac_free_table_def list_all_iff set_present)

lemma canon_struct: "frac_free_table t \<Longrightarrow> canon C (JObject (sort_entries (present t))) = Inr (struct_text C t)"
  using canonicalize_eq_iff(1)[OF frac_free_struct frac_free_struct, of t t "cr_nfc C" "cr_fmt_f64 C"]
  by (simp add: struct_text_def canon_def)

definition collision :: "(bytes \<Rightarrow> bytes) \<Rightarrow> bytes \<Rightarrow> bytes \<Rightarrow> bool" where
  "collision h a b = (a \<noteq> b \<and> h a = h b)"

locale signed_document =
  fixes fields :: "'d \<Rightarrow> (string \<times> json option) list"
    and hash :: "crates \<Rightarrow> bytes \<Rightarrow> bytes"
    and signing_bytes :: "crates \<Rightarrow> 'd \<Rightarrow> bytes"
    and sig_text :: "'d \<Rightarrow> string"
    and set_sig :: "string \<Rightarrow> 'd \<Rightarrow> 'd"
    and plain :: "'d \<Rightarrow> bool"
  assumes signing_bytes_def: "signing_bytes C d = hash C (as_bytes (struct_text C (fields d)))"
    and fields_set_sig: "fields (set_sig s d) = fields d"
    and sig_text_set_sig: "sig_text (set_sig s d) = s"
    and same_keys: "map fst (fields d) = map fst (fields e)"
    and keys_ok: "distinct (map fst (fields d)) \<and> list_all is_ascii (map fst (fields d))"
    and no_fractions: "plain d \<Longrightarrow> frac_free_table (fields d)"
begin

lemma sealed_verifies:
  "ed25519_ok C \<Longrightarrow>
     check_signature C (cr_public C key)
       (signing_bytes C (set_sig (sign_text C key (signing_bytes C d)) d))
       (sig_text (set_sig (sign_text C key (signing_bytes C d)) d)) = SigOk"
  by (simp add: signing_bytes_def fields_set_sig sig_text_set_sig check_signature_sign_text)

text \<open>Equal signing bytes: every field agrees up to the normalisation of strings, or the texts of the
  two documents collide under the hash.\<close>

lemma signature_binds:
  assumes "nfc_ok C" "plain d" "plain e" "signing_bytes C d = signing_bytes C e"
  shows "map (map_option (json_norm (cr_nfc C)) \<circ> snd) (fields d) = map (map_option (json_norm (cr_nfc C)) \<circ> snd) (fields e)
    \<or> collision (hash C) (as_bytes (struct_text C (fields d))) (as_bytes (struct_text C (fields e)))"
proof (cases "struct_text C (fields d) = struct_text C (fields e)")
  case True
  let ?o = "\<lambda>d. JObject (sort_entries (present (fields d)))"
  have ff: "frac_free (?o d)" "frac_free (?o e)" by (rule frac_free_struct[OF no_fractions[OF assms(2)]], rule frac_free_struct[OF no_fractions[OF assms(3)]])
  have ct: "canonicalize (cr_nfc C) (cr_fmt_f64 C) (?o x) = Inr (struct_text C (fields x))" if "plain x" for x
    using canon_struct[OF no_fractions[OF that], of C] by (simp add: canon_def)
  have "json_norm (cr_nfc C) (?o d) = json_norm (cr_nfc C) (?o e)"
    using canonicalize_eq_iff(2)[OF ff, of "cr_nfc C" "cr_fmt_f64 C"] True unfolding ct[OF assms(2)] ct[OF assms(3)] by blast
  moreover have "cr_nfc C k = k" if "k \<in> set (map fst (fields d))" for k
    using that keys_ok[of d] assms(1) by (auto simp: nfc_ok_def list_all_iff)
  ultimately show ?thesis
    using struct_norm_eq[OF same_keys[of d e] conjunct1[OF keys_ok[of d]]] by blast
next
  case False
  with assms(4) show ?thesis by (simp add: collision_def signing_bytes_def)
qed

end

text \<open>Structs with different keys have different texts: a key that one has and the other cannot have tells them apart.\<close>

lemma struct_norm_keys:
  assumes "json_norm nfc (JObject (sort_entries (present t))) = json_norm nfc (JObject (sort_entries (present u)))"
  shows "nfc ` fst ` set (present t) = nfc ` fst ` set (present u)"
proof -
  let ?f = "\<lambda>(k, v). (nfc k, json_norm nfc v)"
  have fst: "fst ` ?f ` A = nfc ` fst ` A" for A by force
  from assms have "sort_entries (map ?f (sort_entries (present t))) = sort_entries (map ?f (sort_entries (present u)))" by simp
  then have "?f ` set (present t) = ?f ` set (present u)" by (drule_tac arg_cong[where f = set]) simp
  then show ?thesis using fst[of "set (present t)"] fst[of "set (present u)"] by simp
qed

lemma struct_text_norm:
  assumes "frac_free_table t" "frac_free_table u" "struct_text C t = struct_text C u"
  shows "json_norm (cr_nfc C) (JObject (sort_entries (present t))) = json_norm (cr_nfc C) (JObject (sort_entries (present u)))"
proof -
  have "canon C (JObject (sort_entries (present t))) = canon C (JObject (sort_entries (present u)))"
    by (simp add: canon_struct assms)
  then show ?thesis
    unfolding canon_def by (rule canonicalize_eq_iff(2)[OF frac_free_struct[OF assms(1)] frac_free_struct[OF assms(2)], THEN iffD1])
qed

lemma struct_text_key:
  assumes "frac_free_table t" "frac_free_table u" "list_all (\<lambda>k. cr_nfc C k = k) (map fst t @ map fst u)"
    and "(k, Some v) \<in> set t" "k \<notin> set (map fst u)"
  shows "struct_text C t \<noteq> struct_text C u"
proof
  assume "struct_text C t = struct_text C u"
  note n = struct_text_norm[OF assms(1,2) this]
  have nfc: "cr_nfc C k' = k'" if "k' \<in> fst ` set t \<union> fst ` set u" for k'
    using assms(3) that by (auto simp: list_all_iff)
  have kt: "k \<in> fst ` set t" using assms(4) by (rule rev_image_eqI) simp
  have "(k, v) \<in> set (present t)" using assms(4) by (simp add: set_present)
  then have "k \<in> fst ` set (present t)" by (rule rev_image_eqI) simp
  then have "cr_nfc C k \<in> cr_nfc C ` fst ` set (present u)" unfolding struct_norm_keys[OF n, symmetric] by (rule imageI)
  then obtain k' where "k' \<in> fst ` set (present u)" "cr_nfc C k = cr_nfc C k'" by auto
  moreover from this(1) fst_present[of u] have "k' \<in> fst ` set u" by blast
  ultimately show False using assms(5) nfc[of k] nfc[of k'] kt by simp
qed

end
