(* ===== verification/Packet.thy ===== *)
theory Packet
  imports Signed Cbor Validity Clock
begin

text \<open>
  \<open>crates/tf-types/src/packet.rs\<close>: packets for store-and-forward links. \<open>sign_packet\<close> wraps the payload
  in an envelope (CBOR or canonical JSON), optionally deflates it and signs the digest of the
  canonical JSON of every field but the signature; \<open>verify_packet\<close> undoes it. \<open>fragment_packet\<close> cuts a
  payload at the MTU and \<open>reassemble_fragments\<close> puts it together. A panic (a division by an MTU of
  zero, an index outside the fragment vector) is \<open>None\<close>.
\<close>

subsection \<open>Packets\<close>

record packet_signature =
  ps_algorithm :: string
  ps_signer :: string
  ps_signature :: string

record fragment_header =
  fh_fragment_id :: string
  fh_index :: "32 word"
  fh_count :: "32 word"
  fh_total_payload_bytes :: "32 word"
  fh_payload_digest :: string

record packet =
  pk_version :: string
  pk_id :: string
  pk_source :: string
  pk_destination :: string
  pk_priority :: string
  pk_emergency :: "bool option"
  pk_created_at :: string
  pk_expires_at :: "string option"
  pk_ttl_hops :: "32 word option"
  pk_route_constraints :: "string list option"
  pk_encoding :: "string option"
  pk_compression :: "string option"
  pk_payload :: string
  pk_session_ref :: "string option"
  pk_fragment :: "fragment_header option"
  pk_signature :: packet_signature

record sign_packet_args =
  sa_packet_id :: string
  sa_source :: string
  sa_destination :: string
  sa_priority :: string
  sa_payload :: bytes
  sa_encoding :: "string option"
  sa_compression :: "string option"
  sa_emergency :: bool
  sa_expires_at :: "string option"
  sa_ttl_hops :: "32 word option"
  sa_route_constraints :: "string list option"
  sa_session_ref :: "string option"
  sa_private_key :: bytes
  sa_signer :: string
  sa_created_at :: "string option"

subsection \<open>Signing bytes\<close>

definition fragment_json :: "fragment_header \<Rightarrow> json" where
  "fragment_json h = JObject (sort_entries
     [(''fragment_id'', JString (fh_fragment_id h)), (''index'', u32_json (fh_index h)),
      (''count'', u32_json (fh_count h)), (''total_payload_bytes'', u32_json (fh_total_payload_bytes h)),
      (''payload_digest'', JString (fh_payload_digest h))])"

definition signature_json :: "packet_signature \<Rightarrow> json" where
  "signature_json s = JObject (sort_entries
     [(''algorithm'', JString (ps_algorithm s)), (''signer'', JString (ps_signer s)),
      (''signature'', JString (ps_signature s))])"

definition unsigned_fields :: "packet \<Rightarrow> (string \<times> json option) list" where
  "unsigned_fields p =
     [(''packet_version'', Some (JString (pk_version p))), (''packet_id'', Some (JString (pk_id p))),
      (''source'', Some (JString (pk_source p))), (''destination'', Some (JString (pk_destination p))),
      (''priority'', Some (JString (pk_priority p))), (''emergency'', map_option JBool (pk_emergency p)),
      (''created_at'', Some (JString (pk_created_at p))), (''expires_at'', map_option JString (pk_expires_at p)),
      (''ttl_hops'', map_option u32_json (pk_ttl_hops p)),
      (''route_constraints'', map_option strings_json (pk_route_constraints p)),
      (''encoding'', map_option JString (pk_encoding p)), (''compression'', map_option JString (pk_compression p)),
      (''payload'', Some (JString (pk_payload p))), (''session_ref'', map_option JString (pk_session_ref p)),
      (''fragment'', map_option fragment_json (pk_fragment p))]"

definition packet_json :: "packet \<Rightarrow> json" where
  "packet_json p = JObject (sort_entries
     (present (unsigned_fields p @ [(''signature'', Some (signature_json (pk_signature p)))])))"

definition packet_signing_bytes :: "crates \<Rightarrow> packet \<Rightarrow> bytes" where
  "packet_signing_bytes C p =
     cr_sha256 C (as_bytes (unwrap_or_default (canon C (without_key ''signature'' (packet_json p)))))"

subsection \<open>Envelopes\<close>

text \<open>The encoder does not fail on this value (\<open>cbor_envelope_decode\<close>), so \<open>expect\<close> does not panic.\<close>

definition serde_cbor_envelope :: "bytes \<Rightarrow> bytes" where
  "serde_cbor_envelope raw =
     (case cbor_encode (CMap [(CText ''raw'', CBytes raw)]) of Inr bs \<Rightarrow> bs | Inl _ \<Rightarrow> [])"

fun envelope_scan :: "(cbor \<times> cbor) list \<Rightarrow> string + bytes" where
  "envelope_scan [] = Inl ''cbor envelope missing raw''"
| "envelope_scan ((k, v) # es) =
     (if k = CText ''raw''
      then (case v of CBytes b \<Rightarrow> Inr b | _ \<Rightarrow> envelope_scan es)
      else envelope_scan es)"

definition decode_cbor_envelope :: "bytes \<Rightarrow> string + bytes" where
  "decode_cbor_envelope bs =
     rbind (map_err (\<lambda>e. ''cbor: '' @ cbor_error_str e) (cbor_decode bs)) (\<lambda>value.
       case value of CMap entries \<Rightarrow> envelope_scan entries | _ \<Rightarrow> Inl ''cbor envelope not a map'')"

subsection \<open>Signing and verification\<close>

definition seal_packet :: "crates \<Rightarrow> bytes \<Rightarrow> packet \<Rightarrow> packet" where
  "seal_packet C key draft =
     draft\<lparr>pk_signature := (pk_signature draft)\<lparr>ps_signature := sign_text C key (packet_signing_bytes C draft)\<rparr>\<rparr>"

definition packet_draft :: "int \<Rightarrow> sign_packet_args \<Rightarrow> string \<Rightarrow> string \<Rightarrow> bytes \<Rightarrow> packet" where
  "packet_draft secs a encoding compression final_bytes =
     \<lparr>pk_version = ''1'', pk_id = sa_packet_id a, pk_source = sa_source a,
      pk_destination = sa_destination a, pk_priority = sa_priority a,
      pk_emergency = (if sa_emergency a then Some True else None),
      pk_created_at = unwrap_or (sa_created_at a) (now_iso8601 secs),
      pk_expires_at = sa_expires_at a, pk_ttl_hops = sa_ttl_hops a,
      pk_route_constraints = (case sa_route_constraints a of Some [] \<Rightarrow> None | r \<Rightarrow> r),
      pk_encoding = Some encoding, pk_compression = Some compression,
      pk_payload = base64_encode STANDARD final_bytes, pk_session_ref = sa_session_ref a,
      pk_fragment = None,
      pk_signature = \<lparr>ps_algorithm = ''ed25519'', ps_signer = sa_signer a, ps_signature = []\<rparr>\<rparr>"

definition wrap_payload :: "crates \<Rightarrow> string \<Rightarrow> bytes \<Rightarrow> string + bytes" where
  "wrap_payload C encoding payload =
     (if encoding = ''cbor'' then Inr (serde_cbor_envelope payload)
      else rbind (map_err (\<lambda>e. ''canonicalize: '' @ canonical_error_str e)
             (canon C (JObject [(''raw'', JString (base64_encode STANDARD payload))])))
           (\<lambda>canonical. Inr (as_bytes canonical)))"

definition sign_packet :: "crates \<Rightarrow> int \<Rightarrow> sign_packet_args \<Rightarrow> string + packet" where
  "sign_packet C secs a =
     (if sa_priority a = ''P0'' \<and> \<not> sa_emergency a
      then Inl ''P0 priority is reserved for emergency packets''
      else
        let encoding = unwrap_or (sa_encoding a) ''cbor'';
            compression = unwrap_or (sa_compression a) ''none''
        in rbind (wrap_payload C encoding (sa_payload a)) (\<lambda>payload_bytes.
             let final_bytes = (if compression = ''deflate'' then cr_deflate C payload_bytes else payload_bytes)
             in Inr (seal_packet C (sa_private_key a) (packet_draft secs a encoding compression final_bytes))))"

record verify_packet_result =
  vp_ok :: bool
  vp_reason :: "string option"
  vp_payload :: "bytes option"

definition rejected :: "string \<Rightarrow> verify_packet_result" where
  "rejected r = \<lparr>vp_ok = False, vp_reason = Some r, vp_payload = None\<rparr>"

definition accepted :: "bytes \<Rightarrow> verify_packet_result" where
  "accepted payload = \<lparr>vp_ok = True, vp_reason = None, vp_payload = Some payload\<rparr>"

definition packet_expired :: "packet \<Rightarrow> string \<Rightarrow> bool" where
  "packet_expired p now =
     (case pk_expires_at p of
        Some e \<Rightarrow> \<not> is_within_window (default_window\<lparr>w_valid_until := Some e\<rparr>) now
      | None \<Rightarrow> False)"

definition decode_json_envelope :: "crates \<Rightarrow> bytes \<Rightarrow> string + bytes" where
  "decode_json_envelope C b =
     (case cr_json_parse C b of
        Inl e \<Rightarrow> Inl (''json decode: '' @ e)
      | Inr v \<Rightarrow> (case get_str v ''raw'' of
          Some b64 \<Rightarrow> map_err (\<lambda>_. ''payload base64 inner'') (base64_decode STANDARD b64)
        | None \<Rightarrow> Inl ''json envelope missing raw''))"

definition decode_payload :: "crates \<Rightarrow> packet \<Rightarrow> string + bytes" where
  "decode_payload C p =
     rbind (map_err (\<lambda>e. ''payload base64: '' @ decode_error_str e) (base64_decode STANDARD (pk_payload p))) (\<lambda>wire.
     rbind (if pk_compression p = Some ''deflate''
            then ok_or ''deflate inflate failed'' (cr_inflate C wire) else Inr wire) (\<lambda>decompressed.
       case pk_encoding p of
         None \<Rightarrow> decode_json_envelope C decompressed
       | Some enc \<Rightarrow>
           if enc = ''json'' then decode_json_envelope C decompressed
           else if enc = ''cbor'' then map_err (\<lambda>e. ''cbor decode: '' @ e) (decode_cbor_envelope decompressed)
           else Inl (''unknown encoding '' @ enc)))"

definition verify_packet :: "crates \<Rightarrow> packet \<Rightarrow> bytes \<Rightarrow> string \<Rightarrow> verify_packet_result" where
  "verify_packet C p public_key now =
     (if pk_version p \<noteq> ''1'' then rejected (''unsupported packet_version '' @ pk_version p)
      else if ps_signer (pk_signature p) \<noteq> pk_source p then rejected ''signature signer does not match source''
      else if pk_priority p = ''P0'' \<and> pk_emergency p \<noteq> Some True then rejected ''P0 reserved for emergency packets''
      else if packet_expired p now then rejected ''packet expired''
      else
        (case check_signature C public_key (packet_signing_bytes C p) (ps_signature (pk_signature p)) of
           SigBase64 e \<Rightarrow> rejected (''signature base64 decode: '' @ decode_error_str e)
         | SigParse e \<Rightarrow> rejected (''signature parse: '' @ e)
         | SigKey e \<Rightarrow> rejected (''verifying key: '' @ e)
         | SigBad \<Rightarrow> rejected ''signature verification failed''
         | SigOk \<Rightarrow> (case decode_payload C p of Inl r \<Rightarrow> rejected r | Inr payload \<Rightarrow> accepted payload)))"

subsection \<open>Fragmentation\<close>

definition sha256_hex :: "crates \<Rightarrow> bytes \<Rightarrow> string" where
  "sha256_hex C b = hex_lower (cr_sha256 C b)"

definition div_ceil :: "nat \<Rightarrow> nat \<Rightarrow> nat" where
  "div_ceil n k = n div k + (if n mod k = 0 then 0 else 1)"

definition fragment_draft :: "crates \<Rightarrow> packet \<Rightarrow> bytes \<Rightarrow> nat \<Rightarrow> nat \<Rightarrow> nat \<Rightarrow> packet" where
  "fragment_draft C src original mtu cnt i =
     (let start = i * mtu; stop = min (start + mtu) (length original)
      in src\<lparr>pk_version := ''1'', pk_id := pk_id src @ ''-'' @ show_nat i,
          pk_payload := base64_encode STANDARD (take (stop - start) (drop start original)),
          pk_fragment := Some \<lparr>fh_fragment_id = ''frag-'' @ pk_id src, fh_index = of_nat i, fh_count = of_nat cnt,
             fh_total_payload_bytes = of_nat (length original),
             fh_payload_digest = ''sha256:'' @ sha256_hex C original\<rparr>,
          pk_signature := \<lparr>ps_algorithm = ''ed25519'', ps_signer = pk_source src, ps_signature = []\<rparr>\<rparr>)"

definition fragment_packet :: "crates \<Rightarrow> packet \<Rightarrow> bytes \<Rightarrow> nat option \<Rightarrow> packet list option" where
  "fragment_packet C src key mtu_opt =
     (let mtu = unwrap_or mtu_opt 256;
          original = (case base64_decode STANDARD (pk_payload src) of Inr b \<Rightarrow> b | Inl _ \<Rightarrow> []);
          total = length original
      in if total \<le> mtu then Some [src]
         else if mtu = 0 then None
         else let cnt = div_ceil total mtu
              in Some (map (\<lambda>i. seal_packet C key (fragment_draft C src original mtu cnt i)) [0..<cnt]))"

record reassemble_result =
  rr_ok :: bool
  rr_reason :: "string option"
  rr_packet_id :: "string option"
  rr_payload :: "bytes option"

definition rr_rejected :: "string \<Rightarrow> reassemble_result" where
  "rr_rejected r = \<lparr>rr_ok = False, rr_reason = Some r, rr_packet_id = None, rr_payload = None\<rparr>"

text \<open>The loop that fills the slots: \<open>None\<close> is the panic of an index outside \<open>ordered\<close>.\<close>

fun place_fragments ::
    "fragment_header \<Rightarrow> packet list \<Rightarrow> packet option list \<Rightarrow> (string + packet option list) option" where
  "place_fragments header [] ordered = Some (Inr ordered)"
| "place_fragments header (f # fs) ordered =
     (case pk_fragment f of
        None \<Rightarrow> Some (Inl ''fragment missing header'')
      | Some h \<Rightarrow>
          if fh_fragment_id h \<noteq> fh_fragment_id header then Some (Inl ''mismatched fragment_id'')
          else if fh_count h \<noteq> fh_count header then Some (Inl ''mismatched fragment count'')
          else if unat (fh_index h) \<ge> length ordered then None
          else if ordered ! unat (fh_index h) \<noteq> None
            then Some (Inl (''duplicate fragment index '' @ show_nat (unat (fh_index h))))
          else place_fragments header fs (ordered[unat (fh_index h) := Some f]))"

fun join_slots :: "packet option list \<Rightarrow> string + bytes" where
  "join_slots [] = Inr []"
| "join_slots (None # slots) = Inl ''missing fragment slot''"
| "join_slots (Some p # slots) =
     rbind (map_err (\<lambda>e. ''base64: '' @ decode_error_str e) (base64_decode STANDARD (pk_payload p))) (\<lambda>b.
     rbind (join_slots slots) (\<lambda>out. Inr (b @ out)))"

definition finish_reassembly :: "crates \<Rightarrow> fragment_header \<Rightarrow> bytes \<Rightarrow> reassemble_result" where
  "finish_reassembly C header out =
     (if length out \<noteq> unat (fh_total_payload_bytes header)
      then rr_rejected (''assembled '' @ show_nat (length out) @ '' bytes, expected '' @
             show_nat (unat (fh_total_payload_bytes header)))
      else if ''sha256:'' @ sha256_hex C out \<noteq> fh_payload_digest header
        then rr_rejected ''reassembled payload digest mismatch''
      else \<lparr>rr_ok = True, rr_reason = None, rr_packet_id = Some (fh_fragment_id header), rr_payload = Some out\<rparr>)"

definition reassemble_fragments :: "crates \<Rightarrow> packet list \<Rightarrow> reassemble_result option" where
  "reassemble_fragments C fragments =
     (case fragments of
        [] \<Rightarrow> Some (rr_rejected ''no fragments'')
      | f0 # _ \<Rightarrow>
     (case pk_fragment f0 of
        None \<Rightarrow> Some (rr_rejected ''first fragment missing fragment header'')
      | Some header \<Rightarrow>
          if length fragments \<noteq> unat (fh_count header)
          then Some (rr_rejected (''expected '' @ show_nat (unat (fh_count header)) @ '' fragments, got '' @
                 show_nat (length fragments)))
          else (case place_fragments header fragments (replicate (unat (fh_count header)) None) of
              None \<Rightarrow> None
            | Some (Inl r) \<Rightarrow> Some (rr_rejected r)
            | Some (Inr ordered) \<Rightarrow>
                (case join_slots ordered of
                   Inl r \<Rightarrow> Some (rr_rejected r)
                 | Inr out \<Rightarrow> Some (finish_reassembly C header out)))))"

subsection \<open>The signing bytes ignore the signature\<close>

lemma packet_json_unsigned:
  "without_key ''signature'' (packet_json p) = JObject (sort_entries (present (unsigned_fields p)))"
  unfolding packet_json_def by (rule without_key_present) (simp add: unsigned_fields_def)

lemma packet_signing_bytes_signature [simp]:
  "packet_signing_bytes C (p\<lparr>pk_signature := s\<rparr>) = packet_signing_bytes C p"
  by (simp add: packet_signing_bytes_def packet_json_unsigned unsigned_fields_def)

subsection \<open>Signing, then verifying\<close>

lemma cbor_envelope_decode:
  assumes "length raw + 6 < 2 ^ 64"
  shows "decode_cbor_envelope (serde_cbor_envelope raw) = Inr raw"
proof -
  let ?v = "CMap [(CText ''raw'', CBytes raw)]"
  have "utf8_valid ''raw''" by (simp add: utf8_valid_def)
  with assms have "cbor_depth ?v \<le> MAX_DEPTH" "cbor_ok ?v" "cbor_weight ?v < 2 ^ 64"
    by (simp_all add: MAX_DEPTH_def)
  from cbor_encode_decode[OF this, of "[]"] obtain bs where "cbor_encode ?v = Inr bs" "cbor_decode bs = Inr ?v" by auto
  then show ?thesis by (simp add: serde_cbor_envelope_def decode_cbor_envelope_def)
qed

text \<open>What the JSON reader is relied on for: the one-field object around a base64 text.\<close>

definition json_raw_ok :: "crates \<Rightarrow> bool" where
  "json_raw_ok C = (\<forall>b. cr_json_parse C (as_bytes (raw_prefix @ base64_encode STANDARD b @ [CHR 0x22, CHR 0x7D])) =
     Inr (JObject [(''raw'', JString (base64_encode STANDARD b))]))"

lemma base64_encode_chars:
  "c \<in> set (base64_encode STANDARD b) \<Longrightarrow> escape_char c = [c] \<and> of_char c < (128 :: nat)"
proof -
  assume "c \<in> set (base64_encode STANDARD b)"
  then have "c \<in> set STD_ALPHABET \<or> c = CHR ''=''"
    by (auto simp: base64_encode_def STANDARD_def encode_chunks_padded
        dest!: set_encode_chunks[of STD_ALPHABET, THEN subsetD, rotated] simp: good_alphabet_def split: if_splits)
  moreover have "list_all (\<lambda>c. escape_char c = [c] \<and> of_char c < (128 :: nat)) (CHR ''='' # STD_ALPHABET)"
    by (simp add: STD_ALPHABET_def escape_char_def)
  ultimately show ?thesis by (auto simp: list_all_iff)
qed

lemma write_json_string_base64:
  "write_json_string (base64_encode STANDARD b) = CHR 0x22 # base64_encode STANDARD b @ [CHR 0x22]"
proof -
  have "concat (map escape_char s) = s" if "\<forall>c \<in> set s. escape_char c = [c]" for s
    using that by (induction s) auto
  then show ?thesis using base64_encode_chars by (simp add: write_json_string_def)
qed

lemma canon_raw:
  assumes "nfc_ok C"
  shows "canon C (JObject [(''raw'', JString (base64_encode STANDARD b))]) =
    Inr (raw_prefix @ base64_encode STANDARD b @ [CHR 0x22, CHR 0x7D])"
proof -
  have "is_ascii (base64_encode STANDARD b)" "is_ascii ''raw''"
    using base64_encode_chars by (auto simp: is_ascii_def list_all_iff)
  with assms have "cr_nfc C (base64_encode STANDARD b) = base64_encode STANDARD b" "cr_nfc C ''raw'' = ''raw''"
    by (simp_all add: nfc_ok_def)
  moreover have "write_json_string ''raw'' = CHR 0x22 # ''raw'' @ [CHR 0x22]"
    by (simp add: write_json_string_def escape_char_def)
  ultimately show ?thesis
    by (simp add: canon_def canonicalize_def sort_entries_def write_json_string_base64 raw_prefix_def)
qed

lemma json_envelope_decode:
  "json_raw_ok C \<Longrightarrow>
     decode_json_envelope C (as_bytes (raw_prefix @ base64_encode STANDARD b @ [CHR 0x22, CHR 0x7D])) = Inr b"
  by (simp add: decode_json_envelope_def json_raw_ok_def get_str_def)

text \<open>What the code relies on when it packs a payload.\<close>

definition packet_crates_ok :: "crates \<Rightarrow> bool" where
  "packet_crates_ok C = (ed25519_ok C \<and> deflate_ok C \<and> nfc_ok C \<and> json_raw_ok C)"

text \<open>The arguments that \<open>sign_packet\<close> and then \<open>verify_packet\<close> at time \<open>now\<close> accept.\<close>

definition sendable :: "sign_packet_args \<Rightarrow> string \<Rightarrow> bool" where
  "sendable a now =
     (sa_signer a = sa_source a \<and> unwrap_or (sa_encoding a) ''cbor'' \<in> {''cbor'', ''json''} \<and>
      (sa_emergency a \<or> sa_priority a \<noteq> ''P0'') \<and>
      (case sa_expires_at a of None \<Rightarrow> True | Some e \<Rightarrow> now \<le> e) \<and> length (sa_payload a) + 6 < 2 ^ 64)"

lemma packed_payload:
  assumes C: "packet_crates_ok C" and len: "length (sa_payload a) + 6 < 2 ^ 64"
    and enc: "unwrap_or (sa_encoding a) ''cbor'' \<in> {''cbor'', ''json''}"
    and prio: "sa_emergency a \<or> sa_priority a \<noteq> ''P0''"
  shows "\<exists>p. sign_packet C secs a = Inr p \<and> decode_payload C p = Inr (sa_payload a) \<and>
    pk_version p = ''1'' \<and> pk_source p = sa_source a \<and> pk_priority p = sa_priority a \<and>
    pk_emergency p = (if sa_emergency a then Some True else None) \<and> pk_expires_at p = sa_expires_at a \<and>
    ps_signer (pk_signature p) = sa_signer a \<and>
    ps_signature (pk_signature p) = sign_text C (sa_private_key a) (packet_signing_bytes C p)"
proof -
  let ?enc = "unwrap_or (sa_encoding a) ''cbor''" and ?comp = "unwrap_or (sa_compression a) ''none''"
  from C have infl: "cr_inflate C (cr_deflate C b) = Some b" for b by (simp add: packet_crates_ok_def deflate_ok_def)
  obtain w where w: "wrap_payload C ?enc (sa_payload a) = Inr w"
    and unwrap: "?enc = ''cbor'' \<Longrightarrow> decode_cbor_envelope w = Inr (sa_payload a)"
      "?enc = ''json'' \<Longrightarrow> decode_json_envelope C w = Inr (sa_payload a)"
    using enc C cbor_envelope_decode[OF len]
    by (auto simp: wrap_payload_def canon_raw json_envelope_decode packet_crates_ok_def)
  let ?p = "seal_packet C (sa_private_key a)
    (packet_draft secs a ?enc ?comp (if ?comp = ''deflate'' then cr_deflate C w else w))"
  have "sign_packet C secs a = Inr ?p" using w prio by (auto simp: sign_packet_def Let_def)
  moreover have "decode_payload C ?p = Inr (sa_payload a)"
    using enc unwrap by (auto simp: decode_payload_def seal_packet_def packet_draft_def infl)
  moreover have "pk_signature ?p = \<lparr>ps_algorithm = ''ed25519'', ps_signer = sa_signer a,
      ps_signature = sign_text C (sa_private_key a) (packet_signing_bytes C ?p)\<rparr>"
    unfolding seal_packet_def packet_signing_bytes_signature by (simp add: packet_draft_def)
  ultimately show ?thesis
    by (intro exI[of _ ?p]) (simp add: seal_packet_def packet_draft_def)
qed

text \<open>
  C3. A signed packet arrives: for every sendable packet the signer succeeds, and the verifier with the
  signer's public key accepts the result and returns the payload that was sent, for both envelope
  encodings and with or without compression.
\<close>

theorem packet_sign_verify:
  assumes "packet_crates_ok C" "sendable a now"
  shows "\<exists>p. sign_packet C secs a = Inr p \<and>
    verify_packet C p (cr_public C (sa_private_key a)) now = accepted (sa_payload a)"
proof -
  from assms(2) have "length (sa_payload a) + 6 < 2 ^ 64" "unwrap_or (sa_encoding a) ''cbor'' \<in> {''cbor'', ''json''}"
    "sa_emergency a \<or> sa_priority a \<noteq> ''P0''" and signer: "sa_signer a = sa_source a"
    and fresh: "case sa_expires_at a of None \<Rightarrow> True | Some e \<Rightarrow> now \<le> e"
    by (simp_all add: sendable_def)
  from packed_payload[OF assms(1) this(1,2,3), of secs] obtain p where p: "sign_packet C secs a = Inr p"
    "decode_payload C p = Inr (sa_payload a)" "pk_version p = ''1''" "pk_source p = sa_source a"
    "pk_priority p = sa_priority a" "pk_emergency p = (if sa_emergency a then Some True else None)"
    "pk_expires_at p = sa_expires_at a" "ps_signer (pk_signature p) = sa_signer a"
    "ps_signature (pk_signature p) = sign_text C (sa_private_key a) (packet_signing_bytes C p)" by blast
  from fresh have "\<not> packet_expired p now"
    by (auto simp: packet_expired_def p(7) is_within_window_iff default_window_def split: option.splits)
  moreover have "pk_priority p = ''P0'' \<Longrightarrow> pk_emergency p = Some True"
    using \<open>sa_emergency a \<or> sa_priority a \<noteq> ''P0''\<close> p(5,6) by auto
  ultimately show ?thesis
    using assms(1) p signer
    by (auto simp: verify_packet_def check_signature_sign_text packet_crates_ok_def)
qed

definition sample_args :: sign_packet_args where
  "sample_args = \<lparr>sa_packet_id = ''pkt-1'', sa_source = ''tf:actor:agent:example.com/x'',
     sa_destination = ''tf:actor:service:example.com/d'', sa_priority = ''P3'', sa_payload = [0x68, 0x69],
     sa_encoding = Some ''json'', sa_compression = Some ''deflate'', sa_emergency = False,
     sa_expires_at = Some ''2026-04-30'', sa_ttl_hops = None, sa_route_constraints = None, sa_session_ref = None,
     sa_private_key = replicate 32 7, sa_signer = ''tf:actor:agent:example.com/x'', sa_created_at = None\<rparr>"

lemma sample_packet_crates: "packet_crates_ok sample_crates"
  by (simp add: packet_crates_ok_def sample_crates_ok json_raw_ok_def) (simp add: sample_crates_def)

theorem packet_sign_verify_witness:
  "\<exists>p. sign_packet sample_crates 0 sample_args = Inr p \<and>
    verify_packet sample_crates p (cr_public sample_crates (sa_private_key sample_args)) ''2026-04-24'' =
      accepted (sa_payload sample_args)"
  by (rule packet_sign_verify[OF sample_packet_crates]) (simp add: sendable_def sample_args_def)

subsection \<open>What a signature binds\<close>

text \<open>The strings of a packet are in normal form.\<close>

definition packet_normal :: "crates \<Rightarrow> packet \<Rightarrow> bool" where
  "packet_normal C p =
     (list_all (\<lambda>s. cr_nfc C s = s)
        ([pk_version p, pk_id p, pk_source p, pk_destination p, pk_priority p, pk_created_at p, pk_payload p] @
         concat (map (\<lambda>x. case x of None \<Rightarrow> [] | Some s \<Rightarrow> [s])
           [pk_expires_at p, pk_encoding p, pk_compression p, pk_session_ref p,
            map_option fh_fragment_id (pk_fragment p), map_option fh_payload_digest (pk_fragment p)]) @
         unwrap_or (pk_route_constraints p) []))"

interpretation packet_document: signed_document unsigned_fields cr_sha256 packet_signing_bytes
  "ps_signature \<circ> pk_signature" "\<lambda>s p. p\<lparr>pk_signature := (pk_signature p)\<lparr>ps_signature := s\<rparr>\<rparr>" "\<lambda>_. True"
proof
  fix C and d e :: packet and s
  show "packet_signing_bytes C d = cr_sha256 C (as_bytes (struct_text C (unsigned_fields d)))"
    by (simp add: packet_signing_bytes_def packet_json_unsigned struct_text_def)
  show "unsigned_fields (d\<lparr>pk_signature := (pk_signature d)\<lparr>ps_signature := s\<rparr>\<rparr>) = unsigned_fields d"
    by (simp add: unsigned_fields_def)
  show "map fst (unsigned_fields d) = map fst (unsigned_fields e)" by (simp add: unsigned_fields_def)
  show "distinct (map fst (unsigned_fields d)) \<and> list_all is_ascii (map fst (unsigned_fields d))"
    by (simp add: unsigned_fields_def is_ascii_def)
  show "frac_free_table (unsigned_fields d)"
    by (auto simp: unsigned_fields_def frac_free_table_def u32_json_def strings_json_def fragment_json_def list_all_iff
        split: option.splits)
qed simp

lemma fragment_json_eq:
  assumes "\<And>h. a = Some h \<Longrightarrow> nfc (fh_fragment_id h) = fh_fragment_id h \<and> nfc (fh_payload_digest h) = fh_payload_digest h"
    and "\<And>h. b = Some h \<Longrightarrow> nfc (fh_fragment_id h) = fh_fragment_id h \<and> nfc (fh_payload_digest h) = fh_payload_digest h"
    and keys: "\<And>s. is_ascii s \<Longrightarrow> nfc s = s"
    and eq: "map_option (json_norm nfc) (map_option fragment_json a) = map_option (json_norm nfc) (map_option fragment_json b)"
  shows "a = b"
proof (cases a; cases b)
  fix g h
  assume gh: "a = Some g" "b = Some h"
  have u: "json_norm nfc (u32_json v) = json_norm nfc (u32_json w) \<longleftrightarrow> v = w" for v w
    using norm_opt_u32_eq[of nfc "Some v" "Some w"] by simp
  have k: "nfc ''fragment_id'' = ''fragment_id''" "nfc ''index'' = ''index''" "nfc ''count'' = ''count''"
    "nfc ''total_payload_bytes'' = ''total_payload_bytes''" "nfc ''payload_digest'' = ''payload_digest''"
    by (simp_all add: keys is_ascii_def)
  from eq assms(1)[OF gh(1)] assms(2)[OF gh(2)] show "a = b"
    by (simp add: gh fragment_json_def sort_entries_def k u)
qed (use eq in auto)

lemma packet_fields_eq:
  assumes "nfc_ok C" "packet_normal C p" "packet_normal C q"
    and eq: "map (map_option (json_norm (cr_nfc C)) \<circ> snd) (unsigned_fields p) =
      map (map_option (json_norm (cr_nfc C)) \<circ> snd) (unsigned_fields q)"
  shows "p\<lparr>pk_signature := pk_signature q\<rparr> = q"
proof -
  let ?n = "map_option (json_norm (cr_nfc C))"
  have o: "?n (map_option JString (pk_expires_at p)) = ?n (map_option JString (pk_expires_at q))"
    "?n (map_option JString (pk_encoding p)) = ?n (map_option JString (pk_encoding q))"
    "?n (map_option JString (pk_compression p)) = ?n (map_option JString (pk_compression q))"
    "?n (map_option JString (pk_session_ref p)) = ?n (map_option JString (pk_session_ref q))"
    "?n (map_option u32_json (pk_ttl_hops p)) = ?n (map_option u32_json (pk_ttl_hops q))"
    "?n (map_option strings_json (pk_route_constraints p)) = ?n (map_option strings_json (pk_route_constraints q))"
    "?n (map_option fragment_json (pk_fragment p)) = ?n (map_option fragment_json (pk_fragment q))"
    using eq by (simp_all only: unsigned_fields_def list.map comp_apply snd_conv list.inject simp_thms)
  have "pk_version p = pk_version q" "pk_id p = pk_id q" "pk_source p = pk_source q" "pk_destination p = pk_destination q"
    "pk_priority p = pk_priority q" "pk_created_at p = pk_created_at q" "pk_payload p = pk_payload q"
    using eq assms(2,3) by (simp_all add: unsigned_fields_def packet_normal_def)
  moreover have "pk_emergency p = pk_emergency q"
    using eq by (cases "pk_emergency p"; cases "pk_emergency q") (simp_all add: unsigned_fields_def)
  moreover have "pk_ttl_hops p = pk_ttl_hops q"
    using o(5) by (simp only: norm_opt_u32_eq)
  moreover have "pk_expires_at p = pk_expires_at q"
    by (rule norm_opt_string_eq[THEN iffD1, OF _ _ o(1)]) (use assms(2,3) in \<open>auto simp: packet_normal_def\<close>)
  moreover have "pk_encoding p = pk_encoding q"
    by (rule norm_opt_string_eq[THEN iffD1, OF _ _ o(2)]) (use assms(2,3) in \<open>auto simp: packet_normal_def\<close>)
  moreover have "pk_compression p = pk_compression q"
    by (rule norm_opt_string_eq[THEN iffD1, OF _ _ o(3)]) (use assms(2,3) in \<open>auto simp: packet_normal_def\<close>)
  moreover have "pk_session_ref p = pk_session_ref q"
    by (rule norm_opt_string_eq[THEN iffD1, OF _ _ o(4)]) (use assms(2,3) in \<open>auto simp: packet_normal_def\<close>)
  moreover have "pk_route_constraints p = pk_route_constraints q"
    by (rule norm_opt_strings_eq[THEN iffD1, OF _ _ o(6)])
      (use assms(2,3) in \<open>auto simp: packet_normal_def list_all_iff\<close>)
  moreover have "pk_fragment p = pk_fragment q"
    by (rule fragment_json_eq[OF _ _ _ o(7)]) (use assms(1,2,3) in \<open>auto simp: packet_normal_def nfc_ok_def\<close>)
  ultimately show ?thesis by simp
qed

text \<open>
  A packet signature binds the whole packet: two packets in Unicode normal form with the same signing
  bytes are equal in every field but the signature, unless their canonical texts are a collision of
  SHA-256.
\<close>

lemma packet_signature_binds:
  assumes "nfc_ok C" "packet_normal C p" "packet_normal C q"
    and "packet_signing_bytes C p = packet_signing_bytes C q"
  shows "p\<lparr>pk_signature := pk_signature q\<rparr> = q \<or>
    collision (cr_sha256 C) (as_bytes (struct_text C (unsigned_fields p))) (as_bytes (struct_text C (unsigned_fields q)))"
  using packet_document.signature_binds[OF assms(1) TrueI TrueI assms(4)] packet_fields_eq[OF assms(1-3)] by blast

subsection \<open>Fragmentation\<close>

lemma concat_chunks: "concat (map (\<lambda>i. take k (drop (i * k) xs)) [0..<n]) = take (n * k) xs"
proof (induction n)
  case (Suc n)
  have "take (Suc n * k) xs = take (n * k) xs @ take k (drop (n * k) xs)"
    by (simp only: mult_Suc add.commute[of k] take_add)
  with Suc show ?case by simp
qed simp

lemma div_ceil_bounds:
  assumes "0 < k"
  shows "n \<le> div_ceil n k * k" "div_ceil n k \<le> n"
proof -
  have n: "n = n div k * k + n mod k" by simp
  have "n mod k \<le> k" using assms by (simp add: less_imp_le)
  with n have "n \<le> (n div k + 1) * k" unfolding add_mult_distrib by linarith
  moreover have "n mod k = 0 \<Longrightarrow> n = n div k * k" using n by linarith
  ultimately show "n \<le> div_ceil n k * k" by (simp add: div_ceil_def)
  have "n div k \<le> n div k * k" using assms by simp
  with n have "n mod k \<noteq> 0 \<Longrightarrow> n div k + 1 \<le> n" by linarith
  then show "div_ceil n k \<le> n" by (simp add: div_ceil_def)
qed

definition slot_of :: "packet \<Rightarrow> nat" where
  "slot_of f = (case pk_fragment f of Some h \<Rightarrow> unat (fh_index h) | None \<Rightarrow> 0)"

definition belongs :: "fragment_header \<Rightarrow> nat \<Rightarrow> packet \<Rightarrow> bool" where
  "belongs header n f = (\<exists>h. pk_fragment f = Some h \<and> fh_fragment_id h = fh_fragment_id header \<and>
     fh_count h = fh_count header \<and> unat (fh_index h) < n)"

text \<open>Fragments of one packet with distinct indices fill the slots, in whatever order they come.\<close>

lemma place_fragments_fill:
  assumes "list_all (belongs header (length ordered)) fs" "distinct (map slot_of fs)"
    and "list_all (\<lambda>f. ordered ! slot_of f = None) fs"
  shows "place_fragments header fs ordered =
    Some (Inr (map (\<lambda>i. case find (\<lambda>f. slot_of f = i) fs of Some f \<Rightarrow> Some f | None \<Rightarrow> ordered ! i) [0..<length ordered]))"
  using assms
proof (induction fs arbitrary: ordered)
  case Nil
  then show ?case by (simp add: map_nth)
next
  case (Cons f fs)
  from Cons.prems(1) obtain h where h: "pk_fragment f = Some h" "fh_fragment_id h = fh_fragment_id header"
    "fh_count h = fh_count header" "unat (fh_index h) < length ordered" by (auto simp: belongs_def)
  let ?o = "ordered[slot_of f := Some f]"
  have slot: "slot_of f = unat (fh_index h)" by (simp add: slot_of_def h)
  have "list_all (\<lambda>g. ?o ! slot_of g = None) fs"
    using Cons.prems by (auto simp: list_all_iff nth_list_update_neq image_iff)
  then have IH: "place_fragments header fs ?o = Some (Inr (map (\<lambda>i. case find (\<lambda>f. slot_of f = i) fs of
      Some f \<Rightarrow> Some f | None \<Rightarrow> ?o ! i) [0..<length ordered]))"
    using Cons.IH[of ?o] Cons.prems by simp
  have free: "find (\<lambda>g. slot_of g = slot_of f) fs = None"
  proof -
    have "slot_of f \<notin> slot_of ` set fs" using Cons.prems(2) by simp
    then have "\<not> (\<exists>g. g \<in> set fs \<and> slot_of g = slot_of f)" by (metis imageI)
    then show ?thesis by (simp add: find_None_iff)
  qed
  have "place_fragments header (f # fs) ordered = place_fragments header fs ?o"
    using h Cons.prems(3) by (simp add: slot list_all_iff)
  also note IH
  also have "map (\<lambda>i. case find (\<lambda>f. slot_of f = i) fs of Some f \<Rightarrow> Some f | None \<Rightarrow> ?o ! i) [0..<length ordered] =
      map (\<lambda>i. case find (\<lambda>f. slot_of f = i) (f # fs) of Some f \<Rightarrow> Some f | None \<Rightarrow> ordered ! i) [0..<length ordered]"
    using free h(4) by (auto simp: slot nth_list_update split: option.splits)
  finally show ?case .
qed

definition fragment :: "crates \<Rightarrow> packet \<Rightarrow> bytes \<Rightarrow> bytes \<Rightarrow> nat \<Rightarrow> nat \<Rightarrow> packet" where
  "fragment C src key original mtu i =
     seal_packet C key (fragment_draft C src original mtu (div_ceil (length original) mtu) i)"

lemma fragment_fields:
  "pk_fragment (fragment C src key original mtu i) =
     Some \<lparr>fh_fragment_id = ''frag-'' @ pk_id src, fh_index = of_nat i, fh_count = of_nat (div_ceil (length original) mtu),
       fh_total_payload_bytes = of_nat (length original), fh_payload_digest = ''sha256:'' @ sha256_hex C original\<rparr>"
  "pk_payload (fragment C src key original mtu i) = base64_encode STANDARD (take mtu (drop (i * mtu) original))"
proof -
  have "take (min (i * mtu + mtu) (length original) - i * mtu) (drop (i * mtu) original) = take mtu (drop (i * mtu) original)"
    by (simp add: min_def)
  then show "pk_payload (fragment C src key original mtu i) = base64_encode STANDARD (take mtu (drop (i * mtu) original))"
    by (simp add: fragment_def seal_packet_def fragment_draft_def Let_def)
qed (simp add: fragment_def seal_packet_def fragment_draft_def Let_def)

lemma unat_of_nat_u32: "n < 2 ^ 32 \<Longrightarrow> unat (of_nat n :: 32 word) = n"
  by (simp add: unat_of_nat take_bit_nat_eq_self)

lemma join_slots_payloads:
  "list_all2 (\<lambda>p b. pk_payload p = base64_encode STANDARD b) ps bs \<Longrightarrow> join_slots (map Some ps) = Inr (concat bs)"
  by (induction rule: list_all2_induct) simp_all

lemma reassemble_fragments_any_order:
  assumes big: "length original < 2 ^ 32" and mtu: "0 < mtu" and ne: "original \<noteq> []"
    and perm: "mset fs = mset (map (fragment C src key original mtu) [0..<div_ceil (length original) mtu])"
  shows "reassemble_fragments C fs = Some \<lparr>rr_ok = True, rr_reason = None,
    rr_packet_id = Some (''frag-'' @ pk_id src), rr_payload = Some original\<rparr>"
proof -
  let ?n = "div_ceil (length original) mtu" and ?f = "fragment C src key original mtu"
  have n: "?n < 2 ^ 32" "?n \<noteq> 0" "length original \<le> ?n * mtu"
    using div_ceil_bounds[OF mtu, of "length original"] big ne by (auto intro: le_less_trans gr0I)
  have slot: "slot_of (?f i) = i" if "i < ?n" for i
    using that n(1) by (simp add: slot_of_def fragment_fields unat_of_nat_u32)
  have sets: "set fs = ?f ` {0..<?n}" using perm by (metis atLeastLessThan_upt set_map set_mset_mset)
  have len: "length fs = ?n" using perm by (metis diff_zero length_map length_upt size_mset)
  obtain f0 rest where fs: "fs = f0 # rest" using len n(2) by (cases fs) auto
  then obtain i0 where "f0 = ?f i0" using sets by auto
  then obtain header where h0: "pk_fragment f0 = Some header" "fh_fragment_id header = ''frag-'' @ pk_id src"
    "fh_count header = of_nat ?n" "fh_total_payload_bytes header = of_nat (length original)"
    "fh_payload_digest header = ''sha256:'' @ sha256_hex C original" by (simp add: fragment_fields)
  have cnt: "unat (fh_count header) = ?n" using n(1) by (simp only: h0 unat_of_nat_u32)
  have "distinct (map slot_of (map ?f [0..<?n]))" using slot by (simp add: distinct_map inj_on_def)
  then have dist: "distinct (map slot_of fs)" using perm by (metis mset_eq_imp_distinct_iff mset_map)
  have bel: "list_all (belongs header ?n) fs"
    using sets n(1) by (auto simp: list_all_iff belongs_def fragment_fields h0 unat_of_nat_u32)
  have find: "find (\<lambda>f. slot_of f = i) fs = Some (?f i)" if i: "i < ?n" for i
  proof -
    have "?f i \<in> set fs" using sets i by simp
    then have "find (\<lambda>f. slot_of f = i) fs \<noteq> None" using slot[OF i] by (auto simp: find_None_iff)
    then have "\<exists>f. find (\<lambda>f. slot_of f = i) fs = Some f" by blast
    then obtain f where f: "find (\<lambda>f. slot_of f = i) fs = Some f" ..
    then have "f \<in> set fs" "slot_of f = i" by (auto dest: find_SomeD)
    with sets slot f show ?thesis by auto
  qed
  have free: "list_all (\<lambda>f. replicate ?n (None :: packet option) ! slot_of f = None) fs"
    using sets slot by (auto simp: list_all_iff)
  have "place_fragments header fs (replicate ?n None) = Some (Inr (map Some (map ?f [0..<?n])))"
    using place_fragments_fill[of header "replicate ?n None" fs] bel dist free find by (simp cong: map_cong)
  moreover have "join_slots (map Some (map ?f [0..<?n])) = Inr original"
  proof -
    have "list_all2 (\<lambda>p b. pk_payload p = base64_encode STANDARD b) (map ?f [0..<?n])
        (map (\<lambda>i. take mtu (drop (i * mtu) original)) [0..<?n])"
      by (simp add: list_all2_conv_all_nth fragment_fields)
    from join_slots_payloads[OF this] show ?thesis using n(3) by (simp add: concat_chunks)
  qed
  ultimately have "reassemble_fragments C fs = Some (finish_reassembly C header original)"
    using fs h0(1) len cnt by (simp add: reassemble_fragments_def)
  then show ?thesis using big by (simp add: finish_reassembly_def h0 unat_of_nat_u32)
qed

lemma fragment_packet_fragments:
  assumes "pk_payload src = base64_encode STANDARD original" "0 < mtu" "mtu < length original"
  shows "fragment_packet C src key (Some mtu) =
    Some (map (fragment C src key original mtu) [0..<div_ceil (length original) mtu])"
  using assms by (simp add: fragment_packet_def fragment_def[abs_def] Let_def)

text \<open>
  C25. Fragmentation loses nothing: a packet whose payload is longer than the MTU is cut into fragments
  of at most the MTU, and reassembling them in any order succeeds and returns exactly the payload
  bytes of the packet.
\<close>

theorem fragment_reassemble:
  assumes "pk_payload src = base64_encode STANDARD original" "0 < mtu" "mtu < length original" "length original < 2 ^ 32"
  shows "\<exists>fs. fragment_packet C src key (Some mtu) = Some fs \<and>
    list_all (\<lambda>f. \<exists>b. pk_payload f = base64_encode STANDARD b \<and> length b \<le> mtu) fs \<and>
    (\<forall>gs. mset gs = mset fs \<longrightarrow> reassemble_fragments C gs = Some \<lparr>rr_ok = True, rr_reason = None,
       rr_packet_id = Some (''frag-'' @ pk_id src), rr_payload = Some original\<rparr>)"
proof -
  let ?fs = "map (fragment C src key original mtu) [0..<div_ceil (length original) mtu]"
  have "original \<noteq> []" using assms(3) by auto
  then have "reassemble_fragments C gs = Some \<lparr>rr_ok = True, rr_reason = None,
       rr_packet_id = Some (''frag-'' @ pk_id src), rr_payload = Some original\<rparr>" if "mset gs = mset ?fs" for gs
    using reassemble_fragments_any_order[OF assms(4,2) _ that] by blast
  moreover have "list_all (\<lambda>f. \<exists>b. pk_payload f = base64_encode STANDARD b \<and> length b \<le> mtu) ?fs"
    by (auto simp: list_all_iff fragment_fields)
  ultimately show ?thesis using fragment_packet_fragments[OF assms(1-3)] by blast
qed

definition sample_packet :: packet where
  "sample_packet = packet_draft 0 sample_args ''cbor'' ''none'' [1, 2, 3, 4, 5]"

theorem fragment_reassemble_witness:
  "\<exists>fs. fragment_packet sample_crates sample_packet [7] (Some 2) = Some fs \<and>
    list_all (\<lambda>f. \<exists>b. pk_payload f = base64_encode STANDARD b \<and> length b \<le> 2) fs \<and>
    (\<forall>gs. mset gs = mset fs \<longrightarrow> reassemble_fragments sample_crates gs = Some \<lparr>rr_ok = True, rr_reason = None,
       rr_packet_id = Some (''frag-'' @ pk_id sample_packet), rr_payload = Some [1, 2, 3, 4, 5]\<rparr>)"
  by (rule fragment_reassemble) (simp_all add: sample_packet_def packet_draft_def)

text \<open>
  A hostile fragment crashes the reassembler: a list of the declared length whose only fragment names
  an index at or beyond its count makes \<open>reassemble_fragments\<close> index outside its vector and panic,
  instead of rejecting the list.
\<close>

lemma reassemble_index_panic:
  assumes "pk_fragment f = Some h" "fh_count h = 1" "fh_index h \<noteq> 0"
  shows "reassemble_fragments C [f] = None"
proof -
  have "unat (fh_index h) \<noteq> 0" using assms(3) by (simp add: unat_eq_zero)
  with assms(1,2) show ?thesis by (simp add: reassemble_fragments_def)
qed

end
