(* ===== verification/Replay.thy ===== *)
theory Replay
  imports Packet
begin

text \<open>
  The three replay-protected receivers: \<open>PacketReceiver\<close> of \<open>crates/tf-types/src/constrained.rs\<close> (a deque and
  an index) and the two of \<open>crates/tf-core-no-std/src/nonce_cache.rs\<close> (a bounded \<open>VecDeque\<close> with the
  \<open>alloc\<close> feature, a fixed-capacity \<open>heapless::Deque\<close> without). Timestamps are compared as strings. Their
  common contract, a window of the most recently accepted ids, is the locale \<open>replay_window\<close>.
\<close>

subsection \<open>The std receiver\<close>

datatype packet_reject_reason = Replay | Expired | FutureDated

datatype receiver_decision = Accept | Reject packet_reject_reason

record packet_receiver =
  rx_seen :: "(string \<times> string) list"
  rx_index :: "string set"
  rx_window_size :: nat

definition receiver_new :: "nat option \<Rightarrow> packet_receiver" where
  "receiver_new window_size =
     \<lparr>rx_seen = [], rx_index = {}, rx_window_size = unwrap_or window_size 4096\<rparr>"

definition expired_at :: "string option \<Rightarrow> string \<Rightarrow> bool" where
  "expired_at expires now = (case expires of Some e \<Rightarrow> e < now | None \<Rightarrow> False)"

definition evict :: "packet_receiver \<Rightarrow> packet_receiver" where
  "evict r =
     (if length (rx_seen r) \<ge> rx_window_size r
      then (case rx_seen r of
          [] \<Rightarrow> r
        | (oldest, _) # rest \<Rightarrow> r\<lparr>rx_seen := rest, rx_index := rx_index r - {oldest}\<rparr>)
      else r)"

definition observe :: "packet \<Rightarrow> string \<Rightarrow> packet_receiver \<Rightarrow> receiver_decision \<times> packet_receiver" where
  "observe p now r =
     (if expired_at (pk_expires_at p) now then (Reject Expired, r)
      else if pk_created_at p > now then (Reject FutureDated, r)
      else if pk_id p \<in> rx_index r then (Reject Replay, r)
      else
        let r' = evict r
        in (Accept, r'\<lparr>rx_seen := rx_seen r' @ [(pk_id p, unwrap_or (pk_expires_at p) [])],
                       rx_index := insert (pk_id p) (rx_index r')\<rparr>))"

definition dropped :: "string \<Rightarrow> string \<times> string \<Rightarrow> bool" where
  "dropped before entry = (snd entry \<noteq> [] \<and> snd entry < before)"

definition expire_older_than :: "string \<Rightarrow> packet_receiver \<Rightarrow> nat \<times> packet_receiver" where
  "expire_older_than before r =
     (let survivors = filter (\<lambda>e. \<not> dropped before e) (rx_seen r)
      in (length (filter (dropped before) (rx_seen r)),
          r\<lparr>rx_seen := survivors, rx_index := set (map fst survivors)\<rparr>))"

definition receiver_size :: "packet_receiver \<Rightarrow> nat" where
  "receiver_size r = length (rx_seen r)"

subsection \<open>The embedded receivers\<close>

definition PACKET_ID_CAP :: nat where
  "PACKET_ID_CAP = 64"

datatype reject_reason = NReplay | NExpired | NFutureDated | NIdTooLarge | NCacheFull

datatype embedded_decision = NAccept | NReject reject_reason

record alloc_receiver =
  ax_seen :: "(string \<times> string) list"
  ax_capacity :: nat

definition alloc_new :: "nat \<Rightarrow> alloc_receiver" where
  "alloc_new capacity = \<lparr>ax_seen = [], ax_capacity = max capacity 1\<rparr>"

definition alloc_observe ::
    "string \<Rightarrow> string option \<Rightarrow> string \<Rightarrow> alloc_receiver \<Rightarrow> embedded_decision \<times> alloc_receiver" where
  "alloc_observe packet_id expires now r =
     (if expired_at expires now then (NReject NExpired, r)
      else if list_ex (\<lambda>(i, _). i = packet_id) (ax_seen r) then (NReject NReplay, r)
      else
        let seen = (if length (ax_seen r) \<ge> ax_capacity r then tl (ax_seen r) else ax_seen r)
        in (NAccept, r\<lparr>ax_seen := seen @ [(packet_id, unwrap_or expires [])]\<rparr>))"

text \<open>The \<open>heapless\<close> receiver: the capacity \<open>N\<close> is a parameter of the type; \<open>push_str\<close> and \<open>push_back\<close>
  fail when their container is full.\<close>

definition heapless_observe ::
    "nat \<Rightarrow> string \<Rightarrow> string option \<Rightarrow> string \<Rightarrow> string list \<Rightarrow> embedded_decision \<times> string list" where
  "heapless_observe N packet_id expires now seen =
     (if expired_at expires now then (NReject NExpired, seen)
      else if length packet_id > PACKET_ID_CAP then (NReject NIdTooLarge, seen)
      else if packet_id \<in> set seen then (NReject NReplay, seen)
      else
        let seen' = (if length seen = N then tl seen else seen)
        in if length seen' \<ge> N then (NReject NCacheFull, seen') else (NAccept, seen' @ [packet_id]))"

subsection \<open>The contract\<close>

text \<open>A window of ids, oldest first: admitting one to a full window pushes the oldest out.\<close>

definition admit :: "nat \<Rightarrow> string \<Rightarrow> string list \<Rightarrow> string list" where
  "admit cap i w = (if length w \<ge> cap then tl w else w) @ [i]"

text \<open>A receiver presents messages of type \<open>'m\<close> at a time; \<open>eligible\<close> are the checks before the window.
  The client lemmas are about sequences of messages (\<open>run_all\<close> collects the decisions).\<close>

text \<open>The abstract receiver, whose state is the window.\<close>

definition window_step ::
    "('m \<Rightarrow> bool) \<Rightarrow> ('m \<Rightarrow> string) \<Rightarrow> nat \<Rightarrow> 'm \<Rightarrow> string list \<Rightarrow> bool \<times> string list" where
  "window_step eligible ident cap m w =
     (if eligible m \<and> ident m \<notin> set w then (True, admit cap (ident m) w) else (False, w))"

locale replay_window =
  fixes step :: "'m \<Rightarrow> 's \<Rightarrow> 'd \<times> 's"
    and accepts :: "'d \<Rightarrow> bool"
    and eligible :: "'m \<Rightarrow> bool"
    and ident :: "'m \<Rightarrow> string"
    and inv :: "'s \<Rightarrow> bool"
    and window :: "'s \<Rightarrow> string list"
    and cap :: nat
  assumes cap_pos: "0 < cap"
    and ineligible: "\<not> eligible m \<Longrightarrow> inv s \<Longrightarrow> \<not> accepts (fst (step m s)) \<and> snd (step m s) = s"
    and replay: "eligible m \<Longrightarrow> inv s \<Longrightarrow> ident m \<in> set (window s) \<Longrightarrow> \<not> accepts (fst (step m s)) \<and> snd (step m s) = s"
    and fresh: "eligible m \<Longrightarrow> inv s \<Longrightarrow> ident m \<notin> set (window s) \<Longrightarrow>
        accepts (fst (step m s)) \<and> inv (snd (step m s)) \<and> window (snd (step m s)) = admit cap (ident m) (window s)"
begin

lemma step_inv: "inv s \<Longrightarrow> inv (snd (step m s))"
  using ineligible[of m s] replay[of m s] fresh[of m s] by metis

lemma step_refines: "inv s \<Longrightarrow> (window_step eligible ident cap) m (window s) = (accepts (fst (step m s)), window (snd (step m s)))"
  using ineligible[of m s] replay[of m s] fresh[of m s]
  by (cases "eligible m"; cases "ident m \<in> set (window s)") (simp_all add: window_step_def)

lemma run_refines:
  "inv s \<Longrightarrow> run_all (window_step eligible ident cap) ms (window s) = (map accepts (fst (run_all step ms s)), window (snd (run_all step ms s)))
     \<and> inv (snd (run_all step ms s))"
proof (induction ms arbitrary: s)
  case (Cons m ms)
  from Cons.IH[OF step_inv[OF Cons.prems]] step_refines[OF Cons.prems] show ?case
    by (simp add: case_prod_unfold Let_def)
qed simp

text \<open>The last \<open>cap\<close> accepted ids stay in the window.\<close>

lemma spec_run_keeps:
  "run_all (window_step eligible ident cap) ms w = (ds, w') \<Longrightarrow> w = pre @ i # post \<Longrightarrow> length post + length (filter id ds) < cap \<Longrightarrow>
     \<exists>pre' post'. w' = pre' @ i # post' \<and> length post' \<le> length post + length (filter id ds)"
proof (induction ms arbitrary: w pre post ds)
  case Nil
  then show ?case by auto
next
  case (Cons m ms)
  obtain d w1 where d: "window_step eligible ident cap m w = (d, w1)" by (cases "window_step eligible ident cap m w")
  obtain ds1 where ds: "run_all (window_step eligible ident cap) ms w1 = (ds1, w')" "ds = d # ds1"
    using Cons.prems(1) d by (auto simp: Let_def split: prod.splits)
  show ?case
  proof (cases d)
    case False
    with d have "w1 = w" by (auto simp: window_step_def split: if_splits)
    with Cons.IH[of w1 ds1 pre post] Cons.prems ds False show ?thesis by simp
  next
    case True
    with d have w1: "w1 = admit cap (ident m) w" by (auto simp: window_step_def split: if_splits)
    have "\<exists>pre1. w1 = pre1 @ i # post @ [ident m]"
      using Cons.prems True ds(2) by (cases pre) (auto simp: w1 admit_def)
    then obtain pre1 where "w1 = pre1 @ i # (post @ [ident m])" by auto
    from Cons.IH[OF ds(1) this] Cons.prems(3) True ds(2) show ?thesis by auto
  qed
qed

text \<open>No replay: once a message is accepted, a message with the same id is refused as long as fewer
  than \<open>cap\<close> further messages have been accepted.\<close>

lemma no_replay:
  assumes "inv s" "accepts (fst (step m s))" "run_all step ms (snd (step m s)) = (ds, s')"
    and "length (filter accepts ds) < cap" "ident m' = ident m"
  shows "\<not> accepts (fst (step m' s'))"
proof -
  have inv1: "inv (snd (step m s))" by (rule step_inv[OF assms(1)])
  from assms(2) step_refines[OF assms(1), of m] have w1: "window (snd (step m s)) = admit cap (ident m) (window s)"
    by (auto simp: window_step_def split: if_splits)
  from run_refines[OF inv1, of ms] assms(3)
  have run: "run_all (window_step eligible ident cap) ms (window (snd (step m s))) = (map accepts ds, window s')" and inv': "inv s'" by simp_all
  have "length (filter id (map accepts ds)) < cap" using assms(4) by (simp add: filter_map comp_def)
  then have "\<exists>pre' post'. window s' = pre' @ ident m # post'"
    using spec_run_keeps[OF run, of _ "ident m" "[]"] w1 by (auto simp: admit_def)
  then have "ident m' \<in> set (window s')" using assms(5) by auto
  with step_refines[OF inv', of m'] show ?thesis by (auto simp: window_step_def)
qed

end

subsection \<open>The receivers keep the contract\<close>

definition timely :: "packet \<times> string \<Rightarrow> bool" where
  "timely m = (\<not> expired_at (pk_expires_at (fst m)) (snd m) \<and> pk_created_at (fst m) \<le> snd m)"

definition unexpired :: "packet \<times> string \<Rightarrow> bool" where
  "unexpired m = (\<not> expired_at (pk_expires_at (fst m)) (snd m))"

definition receiver_inv :: "nat \<Rightarrow> packet_receiver \<Rightarrow> bool" where
  "receiver_inv W r = (rx_index r = set (map fst (rx_seen r)) \<and> distinct (map fst (rx_seen r)) \<and>
     rx_window_size r = W \<and> length (rx_seen r) \<le> max 1 W)"

lemma evict_fields:
  "rx_seen (evict r) = (if length (rx_seen r) \<ge> rx_window_size r then tl (rx_seen r) else rx_seen r)"
  "rx_window_size (evict r) = rx_window_size r"
  by (auto simp: evict_def split: list.splits)

lemma evict_inv:
  assumes "receiver_inv W r"
  shows "rx_index (evict r) = set (map fst (rx_seen (evict r)))" "distinct (map fst (rx_seen (evict r)))"
    "set (map fst (rx_seen (evict r))) \<subseteq> rx_index r" "length (rx_seen (evict r)) < max 1 W"
proof -
  have "rx_index (evict r) = set (map fst (rx_seen (evict r))) \<and> length (rx_seen (evict r)) < max 1 W"
  proof (cases "rx_seen r")
    case (Cons e rest)
    with assms show ?thesis by (cases e) (simp add: evict_def receiver_inv_def max_def split: if_splits)
  qed (use assms in \<open>simp add: evict_def receiver_inv_def\<close>)
  then show "rx_index (evict r) = set (map fst (rx_seen (evict r)))" "length (rx_seen (evict r)) < max 1 W" by blast+
  show "distinct (map fst (rx_seen (evict r)))" "set (map fst (rx_seen (evict r))) \<subseteq> rx_index r"
    using assms by (cases "rx_seen r"; auto simp: evict_fields receiver_inv_def)+
qed

lemma observe_accept:
  "timely (p, now) \<Longrightarrow> pk_id p \<notin> rx_index r \<Longrightarrow> observe p now r =
     (Accept, (evict r)\<lparr>rx_seen := rx_seen (evict r) @ [(pk_id p, unwrap_or (pk_expires_at p) [])],
        rx_index := insert (pk_id p) (rx_index (evict r))\<rparr>)"
  by (auto simp: observe_def timely_def Let_def not_less)

lemma observe_reject:
  "\<not> (timely (p, now) \<and> pk_id p \<notin> rx_index r) \<Longrightarrow> fst (observe p now r) \<noteq> Accept \<and> snd (observe p now r) = r"
  by (auto simp: observe_def timely_def not_less)

lemma observe_inv:
  assumes "receiver_inv W r"
  shows "receiver_inv W (snd (observe p now r))"
proof (cases "timely (p, now) \<and> pk_id p \<notin> rx_index r")
  case True
  have "pk_id p \<notin> fst ` set (rx_seen (evict r))" using True evict_inv(3)[OF assms] by auto
  moreover have "rx_window_size r = W" using assms by (simp add: receiver_inv_def)
  ultimately show ?thesis
    using True evict_inv(1,2,4)[OF assms] by (simp add: observe_accept receiver_inv_def evict_fields(2))
qed (use assms observe_reject in metis)

interpretation std_receiver: replay_window "\<lambda>m. observe (fst m) (snd m)" "\<lambda>d. d = Accept" timely "pk_id \<circ> fst"
  "receiver_inv W" "\<lambda>r. map fst (rx_seen r)" "max 1 W" for W
proof
  fix m :: "packet \<times> string" and r
  obtain p now where m: "m = (p, now)" by (cases m)
  show "\<not> timely m \<Longrightarrow> receiver_inv W r \<Longrightarrow> fst (observe (fst m) (snd m) r) \<noteq> Accept \<and> snd (observe (fst m) (snd m) r) = r"
    using observe_reject[of p now r] by (simp add: m)
  show "timely m \<Longrightarrow> receiver_inv W r \<Longrightarrow> (pk_id \<circ> fst) m \<in> set (map fst (rx_seen r)) \<Longrightarrow>
      fst (observe (fst m) (snd m) r) \<noteq> Accept \<and> snd (observe (fst m) (snd m) r) = r"
    using observe_reject[of p now r] by (simp add: m receiver_inv_def)
  assume *: "timely m" "receiver_inv W r" "(pk_id \<circ> fst) m \<notin> set (map fst (rx_seen r))"
  then have acc: "timely (p, now)" "pk_id p \<notin> rx_index r" by (simp_all add: m receiver_inv_def)
  have "rx_seen (evict r) = (if length (rx_seen r) \<ge> max 1 W then tl (rx_seen r) else rx_seen r)"
    using *(2) by (cases "rx_seen r") (auto simp: evict_fields receiver_inv_def)
  then show "fst (observe (fst m) (snd m) r) = Accept \<and> receiver_inv W (snd (observe (fst m) (snd m) r)) \<and>
      map fst (rx_seen (snd (observe (fst m) (snd m) r))) = admit (max 1 W) ((pk_id \<circ> fst) m) (map fst (rx_seen r))"
    using observe_inv[OF *(2), of p now] observe_accept[OF acc] by (simp add: m admit_def map_tl)
qed simp

lemma list_ex_fst: "list_ex (\<lambda>(i, _). i = x) xs \<longleftrightarrow> x \<in> set (map fst xs)"
  by (induction xs) auto

interpretation alloc_receiver: replay_window "\<lambda>m. alloc_observe (pk_id (fst m)) (pk_expires_at (fst m)) (snd m)"
  "\<lambda>d. d = NAccept" unexpired "pk_id \<circ> fst" "\<lambda>r. ax_capacity r = max k 1" "\<lambda>r. map fst (ax_seen r)" "max k 1" for k
  by unfold_locales
    (auto simp: alloc_observe_def unexpired_def admit_def Let_def list_ex_fst map_tl simp del: set_map)

definition short_id :: "packet \<times> string \<Rightarrow> bool" where
  "short_id m = (length (pk_id (fst m)) \<le> PACKET_ID_CAP)"

interpretation heapless_receiver: replay_window
  "\<lambda>m. heapless_observe (Suc N) (pk_id (fst m)) (pk_expires_at (fst m)) (snd m)"
  "\<lambda>d. d = NAccept" "\<lambda>m. unexpired m \<and> short_id m" "pk_id \<circ> fst" "\<lambda>seen. length seen \<le> Suc N" "\<lambda>seen. seen" "Suc N" for N
  by unfold_locales (auto simp: heapless_observe_def unexpired_def short_id_def admit_def Let_def)

subsection \<open>The three receivers agree\<close>

lemma receiver_new_inv: "receiver_inv k (receiver_new (Some k))"
  by (simp add: receiver_inv_def receiver_new_def)

text \<open>
  C26. The embedded receivers mirror the std one: with the same capacity, and on messages that are not
  dated in the future and have ids that fit the embedded buffers, the deque-and-index receiver, the
  \<open>alloc\<close> receiver and the fixed-capacity receiver accept exactly the same messages.
\<close>

theorem receivers_agree:
  assumes "list_all (\<lambda>(p, now). pk_created_at p \<le> now \<and> length (pk_id p) \<le> PACKET_ID_CAP) ms"
  shows "map (\<lambda>d. d = Accept) (fst (run_all (\<lambda>m. observe (fst m) (snd m)) ms (receiver_new (Some (Suc k))))) =
      map (\<lambda>d. d = NAccept) (fst (run_all (\<lambda>m. alloc_observe (pk_id (fst m)) (pk_expires_at (fst m)) (snd m)) ms (alloc_new (Suc k))))
    \<and> map (\<lambda>d. d = NAccept) (fst (run_all (\<lambda>m. alloc_observe (pk_id (fst m)) (pk_expires_at (fst m)) (snd m)) ms (alloc_new (Suc k)))) =
      map (\<lambda>d. d = NAccept) (fst (run_all (\<lambda>m. heapless_observe (Suc k) (pk_id (fst m)) (pk_expires_at (fst m)) (snd m)) ms []))"
proof -
  let ?run = "\<lambda>el. run_all (window_step el (pk_id \<circ> fst) (Suc k)) ms []"
  have "?run timely = ?run unexpired" "?run (\<lambda>m. unexpired m \<and> short_id m) = ?run unexpired"
    using assms
    by (auto intro!: run_all_cong simp: window_step_def timely_def unexpired_def short_id_def list_all_iff)
  with std_receiver.run_refines[of "Suc k" "receiver_new (Some (Suc k))" ms]
    alloc_receiver.run_refines[of "alloc_new (Suc k)" "Suc k" ms] heapless_receiver.run_refines[of "[]" k ms]
  show ?thesis by (simp add: receiver_new_inv) (simp add: receiver_new_def alloc_new_def)
qed

theorem receivers_agree_witness:
  "map (\<lambda>d. d = Accept) (fst (run_all (\<lambda>m. observe (fst m) (snd m))
      [(sample_packet, ''2026''), (sample_packet, ''2026'')] (receiver_new (Some (Suc 0))))) =
    map (\<lambda>d. d = NAccept) (fst (run_all (\<lambda>m. alloc_observe (pk_id (fst m)) (pk_expires_at (fst m)) (snd m))
      [(sample_packet, ''2026''), (sample_packet, ''2026'')] (alloc_new (Suc 0))))"
proof -
  have "pk_created_at sample_packet = ''1970-01-01T00:00:00Z''" "pk_id sample_packet = ''pkt-1''"
    by (simp_all add: sample_packet_def packet_draft_def sample_args_def) code_simp
  then have "list_all (\<lambda>(p, now). pk_created_at p \<le> now \<and> length (pk_id p) \<le> PACKET_ID_CAP)
      [(sample_packet, ''2026''), (sample_packet, ''2026'')]"
    by (simp add: PACKET_ID_CAP_def)
  from receivers_agree[OF this, of 0] show ?thesis by blast
qed

subsection \<open>Replay protection while the window expires\<close>

text \<open>What a caller does with the std receiver: observe a packet at a time, or drop what expired
  before a time.\<close>

datatype rx_op = Observe packet string | ExpireOlder string

fun op_time :: "rx_op \<Rightarrow> string" where
  "op_time (Observe p now) = now"
| "op_time (ExpireOlder before) = before"

fun rx_step :: "rx_op \<Rightarrow> packet_receiver \<Rightarrow> bool \<times> packet_receiver" where
  "rx_step (Observe p now) r = (fst (observe p now r) = Accept, snd (observe p now r))"
| "rx_step (ExpireOlder before) r = (False, snd (expire_older_than before r))"

lemma expire_inv: "receiver_inv W r \<Longrightarrow> receiver_inv W (snd (expire_older_than before r))"
proof -
  assume inv: "receiver_inv W r"
  have "length (filter (\<lambda>e. \<not> dropped before e) (rx_seen r)) \<le> max 1 W"
    using inv length_filter_le le_trans unfolding receiver_inv_def by blast
  with inv show ?thesis by (auto simp: receiver_inv_def expire_older_than_def Let_def distinct_map_filter)
qed

lemma rx_step_inv: "receiver_inv W r \<Longrightarrow> receiver_inv W (snd (rx_step x r))"
  by (cases x) (simp_all add: observe_inv expire_inv)

text \<open>A packet cannot come back: its entry is in the window behind at most \<open>k\<close> younger ones, or it has
  expired by now.\<close>

definition shielded :: "packet \<Rightarrow> string \<Rightarrow> nat \<Rightarrow> packet_receiver \<Rightarrow> bool" where
  "shielded p t k r =
     ((\<exists>pre post. rx_seen r = pre @ (pk_id p, unwrap_or (pk_expires_at p) []) # post \<and> length post \<le> k) \<or>
      expired_at (pk_expires_at p) t)"

lemma expired_at_mono: "expired_at e t \<Longrightarrow> t \<le> t' \<Longrightarrow> expired_at e t'"
  by (auto simp: expired_at_def split: option.splits)

lemma shielded_accept:
  assumes inv: "receiver_inv W r" and sh: "shielded p t k r" and k: "Suc k < max 1 W" and t: "t \<le> t'"
    and acc: "timely (q, t')" "pk_id q \<notin> rx_index r"
  shows "shielded p t' (Suc k) (snd (observe q t' r))"
proof (cases "expired_at (pk_expires_at p) t")
  case False
  with sh obtain pre post where seen: "rx_seen r = pre @ (pk_id p, unwrap_or (pk_expires_at p) []) # post" "length post \<le> k"
    by (auto simp: shielded_def)
  have "rx_window_size r = W" using inv by (simp add: receiver_inv_def)
  with seen k have "\<exists>pre'. rx_seen (evict r) = pre' @ (pk_id p, unwrap_or (pk_expires_at p) []) # post"
    by (cases pre) (auto simp: evict_fields)
  then obtain pre' where "rx_seen (snd (observe q t' r)) =
      pre' @ (pk_id p, unwrap_or (pk_expires_at p) []) # post @ [(pk_id q, unwrap_or (pk_expires_at q) [])]"
    by (auto simp: observe_accept[OF acc])
  then show ?thesis using seen(2) unfolding shielded_def
    by (intro disjI1 exI[of _ pre'] exI[of _ "post @ [(pk_id q, unwrap_or (pk_expires_at q) [])]"]) simp
qed (use expired_at_mono[OF _ t] in \<open>auto simp: shielded_def\<close>)

lemma shielded_expire:
  assumes sh: "shielded p t k r" and t: "t \<le> before"
  shows "shielded p before k (snd (expire_older_than before r))"
proof (cases "expired_at (pk_expires_at p) before")
  case False
  with sh t obtain pre post where seen: "rx_seen r = pre @ (pk_id p, unwrap_or (pk_expires_at p) []) # post" "length post \<le> k"
    by (auto simp: shielded_def dest: expired_at_mono)
  from False have "\<not> dropped before (pk_id p, unwrap_or (pk_expires_at p) [])"
    by (auto simp: dropped_def expired_at_def split: option.splits)
  moreover have "length (filter (\<lambda>e. \<not> dropped before e) post) \<le> k" using seen(2) length_filter_le le_trans by blast
  ultimately show ?thesis using seen(1) by (auto simp: shielded_def expire_older_than_def Let_def)
qed (simp add: shielded_def)

lemma shielded_run:
  "receiver_inv W r \<Longrightarrow> shielded p t k r \<Longrightarrow> run_all rx_step ops r = (ds, r') \<Longrightarrow> sorted (t # map op_time ops) \<Longrightarrow>
     k + length (filter (\<lambda>a. a) ds) < max 1 W \<Longrightarrow>
     receiver_inv W r' \<and> shielded p (last (t # map op_time ops)) (k + length (filter (\<lambda>a. a) ds)) r'"
proof (induction ops arbitrary: r t k ds)
  case Nil
  then show ?case by auto
next
  case (Cons x ops)
  obtain d r1 where d: "rx_step x r = (d, r1)" by (cases "rx_step x r")
  obtain ds1 where ds: "run_all rx_step ops r1 = (ds1, r')" "ds = d # ds1"
    using Cons.prems(3) d by (auto simp: Let_def split: prod.splits)
  have inv1: "receiver_inv W r1" using rx_step_inv[OF Cons.prems(1), of x] d by simp
  have t: "t \<le> op_time x" "sorted (op_time x # map op_time ops)" using Cons.prems(4) by auto
  have sh1: "shielded p (op_time x) (k + (if d then 1 else 0)) r1"
  proof (cases x)
    case (Observe q now)
    show ?thesis
    proof (cases "timely (q, now) \<and> pk_id q \<notin> rx_index r")
      case True
      then have "d" "r1 = snd (observe q now r)" using d Observe observe_accept[of q now r] by auto
      with True Observe shielded_accept[OF Cons.prems(1,2), of now q] t(1) Cons.prems(5) ds(2) show ?thesis by auto
    next
      case False
      then have "\<not> d" "r1 = r" using d Observe observe_reject[of q now r] by auto
      with Cons.prems(2) t(1) show ?thesis by (auto simp: shielded_def dest: expired_at_mono)
    qed
  next
    case (ExpireOlder before)
    with d shielded_expire[OF Cons.prems(2), of before] t(1) show ?thesis by auto
  qed
  have "k + (if d then 1 else 0) + length (filter (\<lambda>a. a) ds1) < max 1 W" using Cons.prems(5) ds(2) by auto
  from Cons.IH[OF inv1 sh1 ds(1) t(2) this] ds(2) show ?case by auto
qed

text \<open>
  C17. No replay: after a packet is accepted, any later copy of it is refused while fewer than the window
  size other packets have been accepted, however the caller interleaves observations with dropping
  expired entries, as long as the clock does not run backwards. Dropping an entry is safe because the
  packet is then refused as expired.
\<close>

theorem replay_refused:
  assumes "receiver_inv W r" "fst (observe p t r) = Accept"
    and "run_all rx_step ops (snd (observe p t r)) = (ds, r')" "sorted (t # map op_time ops @ [now])"
    and "length (filter (\<lambda>a. a) ds) < max 1 W" "pk_id q = pk_id p" "pk_expires_at q = pk_expires_at p"
  shows "fst (observe q now r') \<noteq> Accept"
proof -
  have acc: "timely (p, t)" "pk_id p \<notin> rx_index r" using assms(2) observe_reject[of p t r] by blast+
  have inv1: "receiver_inv W (snd (observe p t r))" by (rule observe_inv[OF assms(1)])
  have "shielded p t 0 (snd (observe p t r))" by (auto simp: shielded_def observe_accept[OF acc])
  from shielded_run[OF inv1 this assms(3)] assms(4,5)
  have inv': "receiver_inv W r'" and sh: "shielded p (last (t # map op_time ops)) (length (filter (\<lambda>a. a) ds)) r'"
    by (auto simp: sorted_append)
  have "last (t # map op_time ops) \<le> now"
    using assms(4) last_in_set[of "t # map op_time ops"] by (auto simp: sorted_append)
  with sh have "pk_id p \<in> set (map fst (rx_seen r')) \<or> expired_at (pk_expires_at p) now"
    by (auto simp: shielded_def dest: expired_at_mono)
  with inv' assms(6,7) show ?thesis by (auto simp: observe_def receiver_inv_def)
qed

theorem replay_refused_witness:
  "fst (observe sample_packet ''2026-04-29'' (snd (expire_older_than ''2026-04-28''
     (snd (observe sample_packet ''2026-04-27'' (receiver_new (Some 4))))))) \<noteq> Accept"
proof -
  have created: "pk_created_at sample_packet = ''1970-01-01T00:00:00Z''"
    by (simp add: sample_packet_def packet_draft_def sample_args_def) code_simp
  have "pk_expires_at sample_packet = Some ''2026-04-30''" by (simp add: sample_packet_def packet_draft_def sample_args_def)
  with created have "timely (sample_packet, ''2026-04-27'')" by (simp add: timely_def expired_at_def)
  then have "fst (observe sample_packet ''2026-04-27'' (receiver_new (Some 4))) = Accept"
    by (simp add: observe_accept receiver_new_def)
  from replay_refused[OF receiver_new_inv this, of "[ExpireOlder ''2026-04-28'']" "[False]" _ "''2026-04-29''" sample_packet]
  show ?thesis by simp
qed

end
