(* ===== verification/Relay.thy ===== *)
theory Relay
  imports Signed Validity Clock
begin

text \<open>
  \<open>crates/tf-types/src/relay.rs\<close>: relay authorities and the handler that forwards opaque frames under
  one. The cells of \<open>RelayHandler\<close> are its state, so \<open>forward\<close> returns the handler too. The \<open>u32\<close> counters
  are \<open>32 word\<close>s and wrap, as they do without overflow checks.
\<close>

subsection \<open>Authorities\<close>

record relay_signature =
  rs_algorithm :: string
  rs_signer :: string
  rs_signature :: string

record relay_authority =
  ra_version :: string
  ra_relay :: string
  ra_trust_domain :: string
  ra_kinds :: "string list"
  ra_max_hop_count :: "32 word option"
  ra_rate_limit_per_minute :: "32 word option"
  ra_valid_from :: string
  ra_valid_until :: "string option"
  ra_issuer :: string
  ra_constraints :: "json list option"
  ra_signature :: relay_signature

definition relay_signature_json :: "relay_signature \<Rightarrow> json" where
  "relay_signature_json s = JObject (sort_entries
     [(''algorithm'', JString (rs_algorithm s)), (''signer'', JString (rs_signer s)),
      (''signature'', JString (rs_signature s))])"

definition authority_fields :: "relay_authority \<Rightarrow> (string \<times> json option) list" where
  "authority_fields a =
     [(''relay_authority_version'', Some (JString (ra_version a))), (''relay'', Some (JString (ra_relay a))),
      (''trust_domain'', Some (JString (ra_trust_domain a))), (''kinds'', Some (strings_json (ra_kinds a))),
      (''max_hop_count'', map_option u32_json (ra_max_hop_count a)),
      (''rate_limit_per_minute'', map_option u32_json (ra_rate_limit_per_minute a)),
      (''valid_from'', Some (JString (ra_valid_from a))), (''valid_until'', map_option JString (ra_valid_until a)),
      (''issuer'', Some (JString (ra_issuer a))), (''constraints'', map_option JArray (ra_constraints a))]"

definition authority_json :: "relay_authority \<Rightarrow> json" where
  "authority_json a = JObject (sort_entries
     (present (authority_fields a @ [(''signature'', Some (relay_signature_json (ra_signature a)))])))"

definition relay_authority_signing_bytes :: "crates \<Rightarrow> relay_authority \<Rightarrow> bytes" where
  "relay_authority_signing_bytes C a =
     cr_sha256 C (as_bytes (unwrap_or_default (canon C (without_key ''signature'' (authority_json a)))))"

definition sign_relay_authority :: "crates \<Rightarrow> relay_authority \<Rightarrow> bytes \<Rightarrow> relay_authority" where
  "sign_relay_authority C authority private_key =
     (let draft = authority\<lparr>ra_signature := \<lparr>rs_algorithm = ''ed25519'', rs_signer = ra_issuer authority, rs_signature = []\<rparr>\<rparr>
      in draft\<lparr>ra_signature := (ra_signature draft)\<lparr>rs_signature :=
           sign_text C private_key (relay_authority_signing_bytes C draft)\<rparr>\<rparr>)"

text \<open>The result is the reason of a rejection, or \<open>None\<close> for \<open>ok\<close>.\<close>

definition verify_relay_authority :: "crates \<Rightarrow> relay_authority \<Rightarrow> bytes \<Rightarrow> string option" where
  "verify_relay_authority C a issuer_public_key =
     (if ra_version a \<noteq> ''1'' then Some (''unsupported version '' @ ra_version a)
      else if rs_algorithm (ra_signature a) \<noteq> ''ed25519''
        then Some (''unsupported signature algorithm '' @ rs_algorithm (ra_signature a))
      else if rs_signer (ra_signature a) \<noteq> ra_issuer a
        then Some ''signature signer does not match authority issuer''
      else (case check_signature C issuer_public_key (relay_authority_signing_bytes C a) (rs_signature (ra_signature a)) of
          SigBase64 e \<Rightarrow> Some (''signature base64 decode: '' @ decode_error_str e)
        | SigParse e \<Rightarrow> Some (''signature parse: '' @ e)
        | SigKey e \<Rightarrow> Some (''verifying key: '' @ e)
        | SigBad \<Rightarrow> Some ''relay authority signature did not verify''
        | SigOk \<Rightarrow> None))"

subsection \<open>Forwarding\<close>

record relay_frame =
  rf_ciphertext :: bytes
  rf_destination :: string
  rf_priority :: "string option"
  rf_hop_count :: "32 word"
  rf_expires_at :: "string option"
  rf_source :: "string option"

record relay_forwarded_event =
  fe_kind :: string
  fe_relay :: string
  fe_destination :: string
  fe_source :: "string option"
  fe_hop_count_in :: "32 word"
  fe_hop_count_out :: "32 word"
  fe_size_bytes :: nat
  fe_forwarded_at :: string
  fe_authority_id :: "string option"
  fe_priority :: "string option"

datatype relay_policy_error =
    Authority string
  | Window string
  | FrameExpired string
  | HopCap string
  | Rate string

record relay_handler =
  rh_authority :: relay_authority
  rh_issuer_pub :: bytes
  rh_validated :: bool
  rh_rate_bucket_minute :: int
  rh_rate_bucket_count :: "32 word"

definition handler_new :: "relay_authority \<Rightarrow> bytes \<Rightarrow> relay_handler" where
  "handler_new authority issuer_public_key =
     \<lparr>rh_authority = authority, rh_issuer_pub = issuer_public_key, rh_validated = False,
      rh_rate_bucket_minute = - 1, rh_rate_bucket_count = 0\<rparr>"

definition parse_minute :: "string \<Rightarrow> int" where
  "parse_minute now =
     (let len = min (length now) 19
      in if \<not> is_char_boundary now len \<or> len < 19 then 0
         else unwrap_or (parse_iso8601 (take 19 now)) 0 sdiv 60)"

definition authority_window :: "relay_authority \<Rightarrow> window" where
  "authority_window a = default_window\<lparr>w_valid_from := Some (ra_valid_from a), w_valid_until := ra_valid_until a\<rparr>"

text \<open>The lazy validation of the authority, and the per-minute counter.\<close>

definition validate :: "crates \<Rightarrow> relay_handler \<Rightarrow> (relay_policy_error + unit) \<times> relay_handler" where
  "validate C h =
     (if rh_validated h then (Inr (), h)
      else (case verify_relay_authority C (rh_authority h) (rh_issuer_pub h) of
          Some reason \<Rightarrow> (Inl (Authority reason), h)
        | None \<Rightarrow> (Inr (), h\<lparr>rh_validated := True\<rparr>)))"

definition rate_check :: "string \<Rightarrow> relay_handler \<Rightarrow> (relay_policy_error + unit) \<times> relay_handler" where
  "rate_check now h =
     (case ra_rate_limit_per_minute (rh_authority h) of
        None \<Rightarrow> (Inr (), h)
      | Some limit \<Rightarrow>
          let minute = parse_minute now;
              h1 = (if minute \<noteq> rh_rate_bucket_minute h
                    then h\<lparr>rh_rate_bucket_minute := minute, rh_rate_bucket_count := 0\<rparr> else h);
              h2 = h1\<lparr>rh_rate_bucket_count := rh_rate_bucket_count h1 + 1\<rparr>
          in (if rh_rate_bucket_count h2 > limit
              then Inl (Rate (''rate limit '' @ show_nat (unat limit) @ ''/min exceeded'')) else Inr (), h2))"

definition hop_exceeded :: "relay_authority \<Rightarrow> relay_frame \<Rightarrow> string option" where
  "hop_exceeded a frame =
     (case ra_max_hop_count a of
        Some m \<Rightarrow> if rf_hop_count frame \<ge> m
          then Some (''hop count '' @ show_nat (unat (rf_hop_count frame)) @ '' >= max '' @ show_nat (unat m)) else None
      | None \<Rightarrow> None)"

definition forwarded :: "relay_authority \<Rightarrow> relay_frame \<Rightarrow> string \<Rightarrow> relay_frame \<times> relay_forwarded_event" where
  "forwarded a frame now =
     (let outgoing = frame\<lparr>rf_hop_count := rf_hop_count frame + 1\<rparr>
      in (outgoing,
          \<lparr>fe_kind = ''relay.forwarded'', fe_relay = ra_relay a, fe_destination = rf_destination frame,
           fe_source = rf_source frame, fe_hop_count_in = rf_hop_count frame,
           fe_hop_count_out = rf_hop_count outgoing, fe_size_bytes = length (rf_ciphertext frame),
           fe_forwarded_at = now, fe_authority_id = Some (ra_relay a), fe_priority = rf_priority frame\<rparr>))"

definition frame_expired :: "relay_frame \<Rightarrow> string \<Rightarrow> bool" where
  "frame_expired frame now = (case rf_expires_at frame of Some e \<Rightarrow> e < now | None \<Rightarrow> False)"

definition forward :: "crates \<Rightarrow> relay_frame \<Rightarrow> string \<Rightarrow> relay_handler \<Rightarrow>
    (relay_policy_error + relay_frame \<times> relay_forwarded_event) \<times> relay_handler" where
  "forward C frame now h =
     (case validate C h of
        (Inl e, h1) \<Rightarrow> (Inl e, h1)
      | (Inr _, h1) \<Rightarrow>
          if \<not> is_within_window (authority_window (rh_authority h1)) now
          then (Inl (Window ''outside valid_from/valid_until''), h1)
          else if frame_expired frame now
          then (Inl (FrameExpired (''frame expired at '' @ unwrap_or (rf_expires_at frame) [])), h1)
          else (case hop_exceeded (rh_authority h1) frame of
              Some e \<Rightarrow> (Inl (HopCap e), h1)
            | None \<Rightarrow> (case rate_check now h1 of
                (Inl e, h2) \<Rightarrow> (Inl e, h2)
              | (Inr _, h2) \<Rightarrow> (Inr (forwarded (rh_authority h2) frame now), h2))))"

subsection \<open>Signed authorities\<close>

definition plain_authority :: "relay_authority \<Rightarrow> bool" where
  "plain_authority a = (case ra_constraints a of None \<Rightarrow> True | Some cs \<Rightarrow> list_all frac_free cs)"

lemma authority_json_unsigned:
  "without_key ''signature'' (authority_json a) = JObject (sort_entries (present (authority_fields a)))"
  unfolding authority_json_def by (rule without_key_present) (simp add: authority_fields_def)

interpretation authority_document: signed_document authority_fields cr_sha256 relay_authority_signing_bytes
  "rs_signature \<circ> ra_signature" "\<lambda>s a. a\<lparr>ra_signature := (ra_signature a)\<lparr>rs_signature := s\<rparr>\<rparr>" plain_authority
proof
  fix C and d e :: relay_authority and s
  show "relay_authority_signing_bytes C d = cr_sha256 C (as_bytes (struct_text C (authority_fields d)))"
    by (simp add: relay_authority_signing_bytes_def authority_json_unsigned struct_text_def)
  show "authority_fields (d\<lparr>ra_signature := (ra_signature d)\<lparr>rs_signature := s\<rparr>\<rparr>) = authority_fields d"
    by (simp add: authority_fields_def)
  show "map fst (authority_fields d) = map fst (authority_fields e)" by (simp add: authority_fields_def)
  show "distinct (map fst (authority_fields d)) \<and> list_all is_ascii (map fst (authority_fields d))"
    by (simp add: authority_fields_def is_ascii_def)
  show "frac_free_table (authority_fields d)" if "plain_authority d"
    using that
    by (auto simp: authority_fields_def frac_free_table_def u32_json_def strings_json_def plain_authority_def list_all_iff
        split: option.splits)
qed simp

lemma sign_relay_authority_verifies:
  assumes "ed25519_ok C" "ra_version a = ''1''"
  shows "verify_relay_authority C (sign_relay_authority C a key) (cr_public C key) = None"
proof -
  let ?d = "a\<lparr>ra_signature := \<lparr>rs_algorithm = ''ed25519'', rs_signer = ra_issuer a, rs_signature = []\<rparr>\<rparr>"
  have "sign_relay_authority C a key = ?d\<lparr>ra_signature := (ra_signature ?d)\<lparr>rs_signature :=
      sign_text C key (relay_authority_signing_bytes C ?d)\<rparr>\<rparr>" by (simp only: sign_relay_authority_def Let_def)
  with authority_document.sealed_verifies[OF assms(1), of key ?d] assms(2) show ?thesis
    by (simp add: verify_relay_authority_def)
qed

subsection \<open>What forwarding guarantees\<close>

definition handler_ok :: "crates \<Rightarrow> relay_authority \<Rightarrow> bytes \<Rightarrow> relay_handler \<Rightarrow> bool" where
  "handler_ok C a pk h = (rh_authority h = a \<and> rh_issuer_pub h = pk \<and>
     (rh_validated h \<longrightarrow> verify_relay_authority C a pk = None))"

lemma handler_new_ok: "handler_ok C a pk (handler_new a pk)"
  by (simp add: handler_ok_def handler_new_def)

lemma validate_ok:
  "handler_ok C a pk h \<Longrightarrow> validate C h = (r, h1) \<Longrightarrow> handler_ok C a pk h1 \<and> (r = Inr () \<longrightarrow> verify_relay_authority C a pk = None)
     \<and> rh_rate_bucket_minute h1 = rh_rate_bucket_minute h \<and> rh_rate_bucket_count h1 = rh_rate_bucket_count h"
  by (auto simp: validate_def handler_ok_def split: if_splits option.splits)

lemma rate_check_ok: "handler_ok C a pk h \<Longrightarrow> handler_ok C a pk (snd (rate_check now h))"
  by (auto simp: rate_check_def handler_ok_def Let_def split: option.splits)

lemma forward_cases:
  assumes "handler_ok C a pk h" "forward C frame now h = (r, h')"
  obtains (early) e where "r = Inl e" "handler_ok C a pk h'"
      "rh_rate_bucket_minute h' = rh_rate_bucket_minute h" "rh_rate_bucket_count h' = rh_rate_bucket_count h"
  | (counted) h1 where "handler_ok C a pk h1" "verify_relay_authority C a pk = None"
      "rh_rate_bucket_minute h1 = rh_rate_bucket_minute h" "rh_rate_bucket_count h1 = rh_rate_bucket_count h"
      "is_within_window (authority_window a) now" "\<not> frame_expired frame now" "hop_exceeded a frame = None"
      "h' = snd (rate_check now h1)" "handler_ok C a pk h'"
      "r = (case fst (rate_check now h1) of Inl e \<Rightarrow> Inl e | Inr _ \<Rightarrow> Inr (forwarded a frame now))"
proof -
  obtain v h1 where v: "validate C h = (v, h1)" by (cases "validate C h")
  note ok = validate_ok[OF assms(1) v]
  then have a: "rh_authority h1 = a" by (simp add: handler_ok_def)
  have rest: "handler_ok C a pk (snd (rate_check now h1))" using rate_check_ok ok by blast
  then have a2: "rh_authority (snd (rate_check now h1)) = a" by (simp add: handler_ok_def)
  show thesis
  proof (cases "isl v \<or> \<not> is_within_window (authority_window a) now \<or> frame_expired frame now \<or> hop_exceeded a frame \<noteq> None")
    case True
    then have "\<exists>e. r = Inl e" "h' = h1"
      using assms(2) v a by (cases v; auto simp: forward_def split: if_splits option.splits)+
    with ok early show thesis by blast
  next
    case False
    then have "v = Inr ()" by (cases v) auto
    moreover from this False have "r = (case fst (rate_check now h1) of Inl e \<Rightarrow> Inl e | Inr _ \<Rightarrow> Inr (forwarded a frame now))"
      "h' = snd (rate_check now h1)"
      using assms(2) v a a2 by (cases "rate_check now h1"; auto simp: forward_def split: sum.splits)+
    ultimately show thesis using False ok rest counted[of h1] by auto
  qed
qed

text \<open>
  C22. A frame is only forwarded under a valid authority: whatever calls came before, when \<open>forward\<close>
  succeeds the authority's signature verified under the issuer's key, the time is within the
  authority's window, the frame has not expired and its hop count is below the cap; the outgoing frame
  is the incoming one with one more hop, its ciphertext untouched, and the event reports that.
\<close>

theorem relay_forward_sound:
  assumes "run_all (\<lambda>(f, t). forward C f t) calls (handler_new a pk) = (rs, h)"
    and "forward C frame now h = (Inr (out, ev), h')"
  shows "verify_relay_authority C a pk = None \<and> is_within_window (authority_window a) now \<and>
    \<not> frame_expired frame now \<and> hop_exceeded a frame = None \<and>
    out = frame\<lparr>rf_hop_count := rf_hop_count frame + 1\<rparr> \<and> fe_hop_count_out ev = rf_hop_count out \<and>
    fe_size_bytes ev = length (rf_ciphertext frame) \<and> fe_relay ev = ra_relay a"
proof -
  have "run_all (\<lambda>(f, t). forward C f t) calls g = (rs, h) \<Longrightarrow> handler_ok C a pk g \<Longrightarrow> handler_ok C a pk h" for g rs
  proof (induction calls arbitrary: g rs)
    case (Cons c calls)
    obtain f t where c: "c = (f, t)" by (cases c)
    obtain r g1 where g1: "forward C f t g = (r, g1)" by (cases "forward C f t g")
    have "handler_ok C a pk g1" by (rule forward_cases[OF Cons.prems(2) g1])
    with Cons.IH Cons.prems(1) show ?case by (auto simp: c g1 Let_def split: prod.splits)
  qed simp
  then have ok: "handler_ok C a pk h" using assms(1) handler_new_ok by blast
  show ?thesis
  proof (rule forward_cases[OF ok assms(2)])
    fix h1
    assume *: "verify_relay_authority C a pk = None" "is_within_window (authority_window a) now"
      "\<not> frame_expired frame now" "hop_exceeded a frame = None"
      "Inr (out, ev) = (case fst (rate_check now h1) of Inl e \<Rightarrow> Inl e | Inr _ \<Rightarrow> Inr (forwarded a frame now))"
    then have "(out, ev) = forwarded a frame now" by (auto split: sum.splits)
    with * show ?thesis by (simp add: forwarded_def Let_def)
  qed simp
qed

subsection \<open>The rate limit\<close>

definition succeeded :: "'e + 'a \<Rightarrow> bool" where
  "succeeded r = (case r of Inl _ \<Rightarrow> False | Inr _ \<Rightarrow> True)"

definition successes :: "int \<Rightarrow> (relay_frame \<times> string) list \<Rightarrow> ('e + 'a) list \<Rightarrow> nat" where
  "successes m calls rs = length (filter (\<lambda>(c, r). parse_minute (snd c) = m \<and> succeeded r) (zip calls rs))"

lemma successes_later: "(\<And>c. c \<in> set calls \<Longrightarrow> m < parse_minute (snd c)) \<Longrightarrow> successes m calls rs = 0"
  by (auto simp: successes_def filter_empty_conv dest!: set_zip_leftD)

lemma rate_check_count:
  assumes "ra_rate_limit_per_minute (rh_authority h) = Some limit"
    and "unat (rh_rate_bucket_count h) + 1 < 2 ^ 32"
  shows "rh_rate_bucket_minute (snd (rate_check now h)) = parse_minute now"
    and "unat (rh_rate_bucket_count (snd (rate_check now h))) =
      (if parse_minute now = rh_rate_bucket_minute h then unat (rh_rate_bucket_count h) else 0) + 1"
    and "succeeded (fst (rate_check now h)) \<longleftrightarrow> unat (rh_rate_bucket_count (snd (rate_check now h))) \<le> unat limit"
proof -
  have "unat (rh_rate_bucket_count h + 1) = unat (rh_rate_bucket_count h) + 1"
    using assms(2) by (simp add: unat_plus_simple[THEN iffD1] unat_word_ariths)
  then show "rh_rate_bucket_minute (snd (rate_check now h)) = parse_minute now"
    and "unat (rh_rate_bucket_count (snd (rate_check now h))) =
      (if parse_minute now = rh_rate_bucket_minute h then unat (rh_rate_bucket_count h) else 0) + 1"
    and "succeeded (fst (rate_check now h)) \<longleftrightarrow> unat (rh_rate_bucket_count (snd (rate_check now h))) \<le> unat limit"
    using assms(1) by (auto simp: rate_check_def Let_def succeeded_def word_less_nat_alt not_less)
qed

lemma successes_Cons:
  "successes m (c # calls) (r # rs) = (if parse_minute (snd c) = m \<and> succeeded r then 1 else 0) + successes m calls rs"
  by (simp add: successes_def)

lemma rate_run:
  assumes limit: "ra_rate_limit_per_minute a = Some limit"
  shows "handler_ok C a pk h \<Longrightarrow> run_all (\<lambda>(f, t). forward C f t) calls h = (rs, h') \<Longrightarrow>
    sorted (map (parse_minute \<circ> snd) calls) \<Longrightarrow> unat (rh_rate_bucket_count h) + length calls < 2 ^ 32 \<Longrightarrow>
    (rh_rate_bucket_minute h = m \<Longrightarrow> 0 < unat (rh_rate_bucket_count h) \<Longrightarrow> \<forall>c \<in> set calls. m \<le> parse_minute (snd c)) \<Longrightarrow>
    successes m calls rs \<le> (if rh_rate_bucket_minute h = m then unat limit - unat (rh_rate_bucket_count h) else unat limit)"
proof (induction calls arbitrary: h rs)
  case Nil
  then show ?case by (simp add: successes_def)
next
  case (Cons c calls)
  obtain f t where c: "c = (f, t)" by (cases c)
  obtain r h2 where h2: "forward C f t h = (r, h2)" by (cases "forward C f t h")
  obtain rs2 where rs2: "run_all (\<lambda>(f, t). forward C f t) calls h2 = (rs2, h')" "rs = r # rs2"
    using Cons.prems(2) by (auto simp: c h2 Let_def split: prod.splits)
  have srt: "sorted (map (parse_minute \<circ> snd) calls)" "\<forall>c \<in> set calls. parse_minute t \<le> parse_minute (snd c)"
    using Cons.prems(3) by (auto simp: c comp_def)
  let ?M = "rh_rate_bucket_minute h" and ?c = "unat (rh_rate_bucket_count h)"
  show ?case
  proof (rule forward_cases[OF Cons.prems(1) h2])
    fix e
    assume *: "r = Inl e" "handler_ok C a pk h2" "rh_rate_bucket_minute h2 = ?M"
      "rh_rate_bucket_count h2 = rh_rate_bucket_count h"
    have "successes m calls rs2 \<le> (if ?M = m then unat limit - ?c else unat limit)"
      using Cons.IH[OF *(2) rs2(1) srt(1)] Cons.prems(4,5) *(3,4) by (auto simp: c)
    then show ?thesis using *(1) by (simp add: rs2(2) successes_Cons succeeded_def)
  next
    fix h1
    assume *: "handler_ok C a pk h1" "rh_rate_bucket_minute h1 = ?M" "rh_rate_bucket_count h1 = rh_rate_bucket_count h"
      "h2 = snd (rate_check t h1)" "handler_ok C a pk h2"
      "r = (case fst (rate_check t h1) of Inl e \<Rightarrow> Inl e | Inr _ \<Rightarrow> Inr (forwarded a f t))"
    have "ra_rate_limit_per_minute (rh_authority h1) = Some limit" using *(1) limit by (simp add: handler_ok_def)
    moreover have "unat (rh_rate_bucket_count h1) + 1 < 2 ^ 32" using Cons.prems(4) *(3) by simp
    ultimately have n: "rh_rate_bucket_minute h2 = parse_minute t"
      "unat (rh_rate_bucket_count h2) = (if parse_minute t = ?M then ?c else 0) + 1"
      "succeeded (fst (rate_check t h1)) \<longleftrightarrow> unat (rh_rate_bucket_count h2) \<le> unat limit"
      using rate_check_count[of h1 limit t] *(2-4) by simp_all
    have r: "succeeded r \<longleftrightarrow> unat (rh_rate_bucket_count h2) \<le> unat limit"
      using *(6) n(3) by (auto simp: succeeded_def split: sum.splits)
    have IH: "successes m calls rs2 \<le> (if parse_minute t = m then unat limit - unat (rh_rate_bucket_count h2) else unat limit)"
      using Cons.IH[OF *(5) rs2(1) srt(1)] Cons.prems(4) srt(2) n(1,2) by (auto split: if_splits)
    show ?thesis
    proof (cases "parse_minute t = m")
      case True
      with IH r n(2) show ?thesis by (auto simp: rs2(2) successes_Cons c)
    next
      case False
      have "successes m calls rs2 = 0" if "?M = m" "0 < ?c"
        using Cons.prems(5)[OF that] False srt(2) by (intro successes_later) (force simp: c)
      with IH False show ?thesis by (cases "0 < ?c") (auto simp: rs2(2) successes_Cons c)
    qed
  qed
qed

text \<open>
  C18. The rate limit holds: in any sequence of calls whose minutes do not go back, at most
  \<open>rate_limit_per_minute\<close> frames are forwarded within any one minute. (The sequence is shorter than the
  range of the counter.)
\<close>

theorem relay_rate_limit:
  assumes "ra_rate_limit_per_minute a = Some limit"
    and "run_all (\<lambda>(f, t). forward C f t) calls (handler_new a pk) = (rs, h)"
    and "sorted (map (parse_minute \<circ> snd) calls)" "length calls < 2 ^ 32"
  shows "successes m calls rs \<le> unat limit"
  using rate_run[OF assms(1) handler_new_ok assms(2,3), of m] assms(4)
  by (simp add: handler_new_def split: if_splits)

definition sample_authority :: relay_authority where
  "sample_authority = sign_relay_authority sample_crates \<lparr>ra_version = ''1'', ra_relay = ''r'', ra_trust_domain = ''d'',
     ra_kinds = [''packet''], ra_max_hop_count = Some 4, ra_rate_limit_per_minute = Some 1, ra_valid_from = ''2026'',
     ra_valid_until = None, ra_issuer = ''i'', ra_constraints = None,
     ra_signature = \<lparr>rs_algorithm = [], rs_signer = [], rs_signature = []\<rparr>\<rparr> [7]"

definition sample_frame :: relay_frame where
  "sample_frame = \<lparr>rf_ciphertext = [1, 2], rf_destination = ''x'', rf_priority = None, rf_hop_count = 0,
     rf_expires_at = None, rf_source = None\<rparr>"

lemma sample_authority_verifies: "verify_relay_authority sample_crates sample_authority (cr_public sample_crates [7]) = None"
  unfolding sample_authority_def by (rule sign_relay_authority_verifies) (simp_all add: sample_crates_ok)

lemma sample_authority_simps:
  "ra_rate_limit_per_minute sample_authority = Some 1" "ra_max_hop_count sample_authority = Some 4"
  "ra_valid_from sample_authority = ''2026''" "ra_valid_until sample_authority = None" "ra_relay sample_authority = ''r''"
  by (simp_all add: sample_authority_def sign_relay_authority_def Let_def)

definition sample_now :: string where
  "sample_now = ''2026-01-01''"

lemma sample_forward:
  "forward sample_crates sample_frame sample_now (handler_new sample_authority (cr_public sample_crates [7])) =
     (Inr (forwarded sample_authority sample_frame sample_now),
      \<lparr>rh_authority = sample_authority, rh_issuer_pub = cr_public sample_crates [7], rh_validated = True,
       rh_rate_bucket_minute = parse_minute sample_now, rh_rate_bucket_count = 1\<rparr>)"
proof -
  have w: "is_within_window (authority_window sample_authority) sample_now"
    by (simp add: is_within_window_iff authority_window_def sample_authority_simps default_window_def sample_now_def)
  have m: "parse_minute sample_now \<noteq> - 1"
    by (simp add: sample_now_def parse_minute_def Let_def)
  show ?thesis
    using w m by (simp add: forward_def validate_def handler_new_def sample_authority_verifies frame_expired_def sample_frame_def
        hop_exceeded_def sample_authority_simps rate_check_def Let_def)
qed

theorem relay_forward_sound_witness:
  "is_within_window (authority_window sample_authority) sample_now \<and> hop_exceeded sample_authority sample_frame = None"
  using relay_forward_sound[of sample_crates "[]" sample_authority "cr_public sample_crates [7]" "[]", OF _
      sample_forward[unfolded forwarded_def Let_def]]
  by simp

theorem relay_rate_limit_witness:
  "successes (parse_minute sample_now) [(sample_frame, sample_now), (sample_frame, sample_now)]
     (fst (run_all (\<lambda>(f, t). forward sample_crates f t) [(sample_frame, sample_now), (sample_frame, sample_now)]
       (handler_new sample_authority (cr_public sample_crates [7])))) \<le> 1"
  using relay_rate_limit[where C = sample_crates and calls = "[(sample_frame, sample_now), (sample_frame, sample_now)]"
      and pk = "cr_public sample_crates [7]" and m = "parse_minute sample_now",
      OF sample_authority_simps(1) prod.collapse[symmetric]]
  by simp

end
