(* ===== verification/Orl.thy ===== *)
theory Orl
  imports Signed Envelope "HOL-Library.AList"
begin

text \<open>
  Offline revocation lists: \<open>OfflineRevocationListRuntime\<close> of \<open>constrained.rs\<close> (a signed JSON document,
  indexed by \<open>"kind:id"\<close>) with the structs of \<open>generated/offline_revocation_list.rs\<close>, and the
  embedded checker of \<open>tf-core-no-std/src/orl.rs\<close>, which reads a length-prefixed binary form of the same
  list, in its two variants (\<open>alloc\<close>: a \<open>BTreeMap\<close>; otherwise an index of \<open>heapless\<close> with bounded keys
  and bounded size). Offsets and lengths in the binary form are naturals; the sum of an offset and a length
  prefix, which can wrap where \<open>usize\<close> has 32 bits, does not wrap here.
\<close>

subsection \<open>Lists\<close>

datatype revoked_kind = RActor | RInstance | RCapability | RDelegation | RKey

record revoked_entry =
  re_kind :: revoked_kind
  re_id :: string
  re_reason :: "string option"
  re_revoked_at :: "string option"

datatype list_version = V1

record offline_revocation_list =
  orl_list_version :: list_version
  orl_trust_domain :: string
  orl_issued_at :: string
  orl_valid_until :: string
  orl_issuer :: string
  orl_revoked :: "revoked_entry list"
  orl_signature :: signature_envelope

datatype orl_error =
    OrlUnsupportedVersion
  | OrlExpired string
  | OrlFutureDated string
  | OrlBadSignature
  | OrlSignatureDecode string
  | OrlVerifyingKey string
  | OrlCanonicalize string

fun revoked_entry_kind_str :: "revoked_kind \<Rightarrow> string" where
  "revoked_entry_kind_str RActor = ''actor''"
| "revoked_entry_kind_str RInstance = ''instance''"
| "revoked_entry_kind_str RCapability = ''capability''"
| "revoked_entry_kind_str RDelegation = ''delegation''"
| "revoked_entry_kind_str RKey = ''key''"

text \<open>The derived serialisers.\<close>

definition revoked_entry_json :: "revoked_entry \<Rightarrow> json" where
  "revoked_entry_json e = JObject (sort_entries (present
     [(''kind'', Some (JString (revoked_entry_kind_str (re_kind e)))), (''id'', Some (JString (re_id e))),
      (''reason'', map_option JString (re_reason e)), (''revoked_at'', map_option JString (re_revoked_at e))]))"

definition envelope_json :: "signature_envelope \<Rightarrow> json" where
  "envelope_json e = JObject (sort_entries (present
     [(''algorithm'', Some (JString (se_algorithm e))), (''signer'', Some (JString (se_signer e))),
      (''signature'', Some (JString (se_signature e))), (''hash_alg'', map_option JString (se_hash_alg e)),
      (''alt_algorithm'', map_option JString (se_alt_algorithm e)),
      (''alt_signature'', map_option JString (se_alt_signature e))]))"

fun list_version_str :: "list_version \<Rightarrow> string" where
  "list_version_str V1 = ''1''"

definition orl_fields :: "offline_revocation_list \<Rightarrow> (string \<times> json option) list" where
  "orl_fields l =
     [(''list_version'', Some (JString (list_version_str (orl_list_version l)))),
      (''trust_domain'', Some (JString (orl_trust_domain l))), (''issued_at'', Some (JString (orl_issued_at l))),
      (''valid_until'', Some (JString (orl_valid_until l))), (''issuer'', Some (JString (orl_issuer l))),
      (''revoked'', Some (JArray (map revoked_entry_json (orl_revoked l))))]"

definition orl_json :: "offline_revocation_list \<Rightarrow> json" where
  "orl_json l = JObject (sort_entries (present (orl_fields l @ [(''signature'', Some (envelope_json (orl_signature l)))])))"

definition orl_canonical :: "crates \<Rightarrow> offline_revocation_list \<Rightarrow> orl_error + string" where
  "orl_canonical C l = map_err (\<lambda>e. OrlCanonicalize (canonical_error_str e)) (canon C (without_key ''signature'' (orl_json l)))"

subsection \<open>The runtime\<close>

definition verify_offline_revocation_list_signature ::
    "crates \<Rightarrow> offline_revocation_list \<Rightarrow> bytes \<Rightarrow> orl_error + bool" where
  "verify_offline_revocation_list_signature C l public_key =
     rbind (orl_canonical C l) (\<lambda>canonical.
       case check_signature C public_key (as_bytes canonical) (se_signature (orl_signature l)) of
         SigBase64 e \<Rightarrow> Inl (OrlSignatureDecode (decode_error_str e))
       | SigParse _ \<Rightarrow> Inr False
       | SigKey e \<Rightarrow> Inl (OrlVerifyingKey e)
       | SigBad \<Rightarrow> Inr False
       | SigOk \<Rightarrow> Inr True)"

definition sign_offline_revocation_list ::
    "crates \<Rightarrow> offline_revocation_list \<Rightarrow> bytes \<Rightarrow> orl_error + offline_revocation_list" where
  "sign_offline_revocation_list C l private_key =
     (let draft = l\<lparr>orl_signature := \<lparr>se_algorithm = se_algorithm (orl_signature l), se_signer = se_signer (orl_signature l),
            se_signature = [], se_hash_alg = None, se_alt_algorithm = None, se_alt_signature = None\<rparr>\<rparr>
      in rbind (orl_canonical C draft) (\<lambda>canonical.
           Inr (draft\<lparr>orl_signature := (orl_signature draft)\<lparr>se_signature := sign_text C private_key (as_bytes canonical)\<rparr>\<rparr>)))"

record orl_runtime =
  rt_list :: offline_revocation_list
  rt_index :: "string \<Rightarrow> revoked_entry option"

definition orl_key :: "revoked_kind \<Rightarrow> string \<Rightarrow> string" where
  "orl_key kind i = revoked_entry_kind_str kind @ '':'' @ i"

definition orl_load :: "crates \<Rightarrow> offline_revocation_list \<Rightarrow> bytes \<Rightarrow> string \<Rightarrow> orl_error + orl_runtime" where
  "orl_load C l issuer_public_key now =
     (if orl_list_version l \<noteq> V1 then Inl OrlUnsupportedVersion
      else if orl_valid_until l < now then Inl (OrlExpired (orl_valid_until l))
      else if orl_issued_at l > now then Inl (OrlFutureDated (orl_issued_at l))
      else rbind (verify_offline_revocation_list_signature C l issuer_public_key) (\<lambda>valid.
        if \<not> valid then Inl OrlBadSignature
        else Inr \<lparr>rt_list = l,
          rt_index = fold (\<lambda>e m. m(orl_key (re_kind e) (re_id e) \<mapsto> e)) (orl_revoked l) Map.empty\<rparr>))"

definition orl_is_revoked :: "orl_runtime \<Rightarrow> revoked_kind \<Rightarrow> string \<Rightarrow> revoked_entry option" where
  "orl_is_revoked rt kind i = rt_index rt (orl_key kind i)"

record orl_metadata =
  om_issuer :: string
  om_trust_domain :: string
  om_issued_at :: string
  om_valid_until :: string

definition metadata :: "orl_runtime \<Rightarrow> orl_metadata" where
  "metadata rt = \<lparr>om_issuer = orl_issuer (rt_list rt), om_trust_domain = orl_trust_domain (rt_list rt),
     om_issued_at = orl_issued_at (rt_list rt), om_valid_until = orl_valid_until (rt_list rt)\<rparr>"

subsection \<open>The embedded checker\<close>

datatype embedded_orl_error =
    EUnsupportedVersion
  | ETruncated
  | EExpired
  | EFutureDated
  | EBadLength
  | EBadKind
  | EBadSignature
  | EBadPublicKey
  | ECapacityExceeded
  | EKeyTooLarge

definition ORL_VERSION :: byte where
  "ORL_VERSION = 1"

definition SIG_LEN :: nat where
  "SIG_LEN = 64"

definition NO_ALLOC_CAPACITY :: nat where
  "NO_ALLOC_CAPACITY = 256"

definition NO_ALLOC_KEY_CAP :: nat where
  "NO_ALLOC_KEY_CAP = 128"

definition from_u8 :: "byte \<Rightarrow> revoked_kind option" where
  "from_u8 b =
     (if b = 1 then Some RActor else if b = 2 then Some RInstance else if b = 3 then Some RCapability
      else if b = 4 then Some RDelegation else if b = 5 then Some RKey else None)"

fun to_u8 :: "revoked_kind \<Rightarrow> byte" where
  "to_u8 RActor = 1"
| "to_u8 RInstance = 2"
| "to_u8 RCapability = 3"
| "to_u8 RDelegation = 4"
| "to_u8 RKey = 5"

text \<open>The byte cursor; its state is what is left of the buffer.\<close>

fun read_u8 :: "bytes \<Rightarrow> embedded_orl_error + byte \<times> bytes" where
  "read_u8 [] = Inl ETruncated"
| "read_u8 (b # r) = Inr (b, r)"

definition read_u32 :: "bytes \<Rightarrow> embedded_orl_error + nat \<times> bytes" where
  "read_u32 r = (if length r < 4 then Inl ETruncated else Inr (be_nat (take 4 r), drop 4 r))"

definition read_lp :: "bytes \<Rightarrow> embedded_orl_error + bytes \<times> bytes" where
  "read_lp r = rbind (read_u32 r) (\<lambda>(len, r).
     if len > length r then Inl EBadLength else Inr (take len r, drop len r))"

definition make_key_alloc :: "revoked_kind \<Rightarrow> bytes \<Rightarrow> embedded_orl_error + string" where
  "make_key_alloc kind i = rbind (ok_or EKeyTooLarge (from_utf8 i)) (\<lambda>s. Inr (revoked_entry_kind_str kind @ '':'' @ s))"

definition make_key_heapless :: "revoked_kind \<Rightarrow> bytes \<Rightarrow> embedded_orl_error + string" where
  "make_key_heapless kind i = rbind (ok_or EKeyTooLarge (from_utf8 i)) (\<lambda>s.
     let key = revoked_entry_kind_str kind @ '':'' @ s
     in if length key > NO_ALLOC_KEY_CAP then Inl EKeyTooLarge else Inr key)"

text \<open>The two indexes. A \<open>BTreeMap\<close> takes every key; an \<open>FnvIndexMap\<close> replaces the value of a key it holds
  and refuses a new key when it is full.\<close>

definition insert_alloc :: "string \<Rightarrow> revoked_kind \<Rightarrow> (string \<times> revoked_kind) list \<Rightarrow>
    embedded_orl_error + (string \<times> revoked_kind) list" where
  "insert_alloc key entry index = Inr (AList.update key entry index)"

definition insert_heapless :: "string \<Rightarrow> revoked_kind \<Rightarrow> (string \<times> revoked_kind) list \<Rightarrow>
    embedded_orl_error + (string \<times> revoked_kind) list" where
  "insert_heapless key entry index =
     (if key \<notin> fst ` set index \<and> length index \<ge> NO_ALLOC_CAPACITY then Inl ECapacityExceeded
      else Inr (AList.update key entry index))"

fun read_entries ::
    "(revoked_kind \<Rightarrow> bytes \<Rightarrow> embedded_orl_error + string) \<Rightarrow>
     (string \<Rightarrow> revoked_kind \<Rightarrow> (string \<times> revoked_kind) list \<Rightarrow> embedded_orl_error + (string \<times> revoked_kind) list) \<Rightarrow>
     nat \<Rightarrow> (string \<times> revoked_kind) list \<Rightarrow> bytes \<Rightarrow> embedded_orl_error + (string \<times> revoked_kind) list \<times> bytes" where
  "read_entries make_key ins 0 index r = Inr (index, r)"
| "read_entries make_key ins (Suc n) index r =
     rbind (read_u8 r) (\<lambda>(kind_byte, r).
     rbind (ok_or EBadKind (from_u8 kind_byte)) (\<lambda>kind.
     rbind (read_lp r) (\<lambda>(i, r).
     rbind (make_key kind i) (\<lambda>key.
     rbind (ins key kind index) (\<lambda>index. read_entries make_key ins n index r)))))"

definition check_prefix_signature ::
    "crates \<Rightarrow> bytes \<Rightarrow> bytes \<Rightarrow> bytes \<Rightarrow> embedded_orl_error + unit" where
  "check_prefix_signature C issuer_pub body sig_bytes =
     (if cr_sig_error C sig_bytes \<noteq> None then Inl EBadSignature
      else if cr_key_error C issuer_pub \<noteq> None then Inl EBadPublicKey
      else if \<not> cr_verify C issuer_pub (cr_sha256 C body) sig_bytes then Inl EBadSignature
      else Inr ())"

definition checker_new ::
    "(revoked_kind \<Rightarrow> bytes \<Rightarrow> embedded_orl_error + string) \<Rightarrow>
     (string \<Rightarrow> revoked_kind \<Rightarrow> (string \<times> revoked_kind) list \<Rightarrow> embedded_orl_error + (string \<times> revoked_kind) list) \<Rightarrow>
     crates \<Rightarrow> bytes \<Rightarrow> bytes \<Rightarrow> string \<Rightarrow> embedded_orl_error + (string \<times> revoked_kind) list" where
  "checker_new make_key ins C list_bytes issuer_pub now =
     rbind (read_u8 list_bytes) (\<lambda>(version, r).
     if version \<noteq> ORL_VERSION then Inl EUnsupportedVersion else
     rbind (read_lp r) (\<lambda>(issuer, r).
     rbind (read_lp r) (\<lambda>(issued_at, r).
     rbind (read_lp r) (\<lambda>(valid_until, r).
     if of_bytes valid_until \<le> now then Inl EExpired
     else if now < of_bytes issued_at then Inl EFutureDated else
     rbind (read_u32 r) (\<lambda>(entry_count, r).
     rbind (read_entries make_key ins entry_count [] r) (\<lambda>(index, r).
     if length r \<noteq> SIG_LEN then Inl ETruncated else
     rbind (check_prefix_signature C issuer_pub (take (length list_bytes - length r) list_bytes) r)
       (\<lambda>_. Inr index)))))))"

definition checker_is_revoked ::
    "(revoked_kind \<Rightarrow> bytes \<Rightarrow> embedded_orl_error + string) \<Rightarrow> (string \<times> revoked_kind) list \<Rightarrow> revoked_kind \<Rightarrow> string \<Rightarrow> bool" where
  "checker_is_revoked make_key index kind i =
     (case make_key kind (as_bytes i) of Inl _ \<Rightarrow> False | Inr key \<Rightarrow> map_of index key \<noteq> None)"

subsection \<open>The runtime's index\<close>

lemma kind_str_prefix: "revoked_entry_kind_str k @ '':'' @ i = revoked_entry_kind_str l @ '':'' @ j \<longleftrightarrow> k = l \<and> i = j"
  by (cases k; cases l; simp)

lemma orl_key_inject [simp]: "orl_key k i = orl_key l j \<longleftrightarrow> k = l \<and> i = j"
  unfolding orl_key_def by (rule kind_str_prefix)

lemma orl_json_unsigned: "without_key ''signature'' (orl_json l) = JObject (sort_entries (present (orl_fields l)))"
  unfolding orl_json_def by (rule without_key_present) (simp add: orl_fields_def)

lemma orl_fields_frac_free: "frac_free_table (orl_fields l)"
proof -
  have "frac_free_table [(''kind'', Some (JString a)), (''id'', Some (JString b)), (''reason'', map_option JString c),
      (''revoked_at'', map_option JString d)]" for a b c d
    by (simp add: frac_free_table_def split: option.splits)
  then have "frac_free (revoked_entry_json e)" for e
    unfolding revoked_entry_json_def by (rule frac_free_struct)
  then show ?thesis by (simp add: orl_fields_def frac_free_table_def list_all_iff)
qed

lemma orl_canonical_text: "orl_canonical C l = Inr (struct_text C (orl_fields l))"
  by (simp add: orl_canonical_def orl_json_unsigned canon_struct orl_fields_frac_free)

definition orl_signing_bytes :: "crates \<Rightarrow> offline_revocation_list \<Rightarrow> bytes" where
  "orl_signing_bytes C l = as_bytes (struct_text C (orl_fields l))"

interpretation orl_document: signed_document orl_fields "\<lambda>C b. b" orl_signing_bytes
  "se_signature \<circ> orl_signature" "\<lambda>s l. l\<lparr>orl_signature := (orl_signature l)\<lparr>se_signature := s\<rparr>\<rparr>" "\<lambda>_. True"
  by unfold_locales (simp_all add: orl_signing_bytes_def orl_fields_def is_ascii_def orl_fields_frac_free[unfolded orl_fields_def])

lemma sign_orl_Inr:
  "\<exists>sg. sign_offline_revocation_list C l key = Inr (l\<lparr>orl_signature := sg\<rparr>) \<and>
     (ed25519_ok C \<longrightarrow>
       verify_offline_revocation_list_signature C (l\<lparr>orl_signature := sg\<rparr>) (cr_public C key) = Inr True)"
proof -
  let ?d = "l\<lparr>orl_signature := \<lparr>se_algorithm = se_algorithm (orl_signature l), se_signer = se_signer (orl_signature l),
     se_signature = [], se_hash_alg = None, se_alt_algorithm = None, se_alt_signature = None\<rparr>\<rparr>"
  let ?l = "?d\<lparr>orl_signature := (orl_signature ?d)\<lparr>se_signature := sign_text C key (orl_signing_bytes C ?d)\<rparr>\<rparr>"
  have "sign_offline_revocation_list C l key = Inr ?l"
    by (simp add: sign_offline_revocation_list_def orl_canonical_text orl_signing_bytes_def Let_def)
  moreover have "verify_offline_revocation_list_signature C ?l (cr_public C key) = Inr True" if "ed25519_ok C"
    using orl_document.sealed_verifies[OF that, of key ?d]
    by (simp add: verify_offline_revocation_list_signature_def orl_canonical_text orl_signing_bytes_def)
  ultimately show ?thesis
    by (intro exI[of _ "(orl_signature ?d)\<lparr>se_signature := sign_text C key (orl_signing_bytes C ?d)\<rparr>"]) simp
qed

lemma orl_load_Inr_iff:
  "orl_load C l pk now = Inr rt \<longleftrightarrow> orl_issued_at l \<le> now \<and> now \<le> orl_valid_until l \<and>
     verify_offline_revocation_list_signature C l pk = Inr True \<and> rt_list rt = l \<and>
     rt_index rt = fold (\<lambda>e m. m(orl_key (re_kind e) (re_id e) \<mapsto> e)) (orl_revoked l) Map.empty"
proof -
  have "orl_list_version l = V1" by (cases "orl_list_version l")
  then show ?thesis by (cases rt) (auto simp: orl_load_def rbind_Inr_iff not_less)
qed

lemma orl_lookup:
  assumes "orl_load C l pk now = Inr rt"
  shows "orl_is_revoked rt kind i = find (\<lambda>e. re_kind e = kind \<and> re_id e = i) (rev (orl_revoked l))"
  using assms by (simp add: orl_load_Inr_iff orl_is_revoked_def fold_map_upd_last split: option.splits)

text \<open>
  A signed list loads and answers for itself: signing never fails, the signed list loads under the
  issuer's key at every time between its issue and its end, and a lookup returns the last entry of the list
  with that kind and id (the keys \<open>"kind:id"\<close> never clash), or nothing when there is none.
\<close>

lemma orl_sign_load:
  assumes "ed25519_ok C" "orl_issued_at l \<le> now" "now \<le> orl_valid_until l"
  shows "\<exists>l' rt. sign_offline_revocation_list C l key = Inr l' \<and> orl_load C l' (cr_public C key) now = Inr rt \<and>
    (\<forall>kind i. orl_is_revoked rt kind i = find (\<lambda>e. re_kind e = kind \<and> re_id e = i) (rev (orl_revoked l)))"
proof -
  obtain sg where sg: "sign_offline_revocation_list C l key = Inr (l\<lparr>orl_signature := sg\<rparr>)"
    "verify_offline_revocation_list_signature C (l\<lparr>orl_signature := sg\<rparr>) (cr_public C key) = Inr True"
    using sign_orl_Inr[of C l key] assms(1) by blast
  let ?rt = "\<lparr>rt_list = l\<lparr>orl_signature := sg\<rparr>,
    rt_index = fold (\<lambda>e m. m(orl_key (re_kind e) (re_id e) \<mapsto> e)) (orl_revoked l) Map.empty\<rparr>"
  have rt: "orl_load C (l\<lparr>orl_signature := sg\<rparr>) (cr_public C key) now = Inr ?rt"
    using assms(2,3) sg(2) by (simp add: orl_load_Inr_iff)
  show ?thesis
    by (intro exI[of _ "l\<lparr>orl_signature := sg\<rparr>"] exI[of _ ?rt] conjI allI sg(1) rt) (simp add: orl_lookup[OF rt])
qed

definition sample_list :: offline_revocation_list where
  "sample_list = \<lparr>orl_list_version = V1, orl_trust_domain = ''d'', orl_issued_at = ''2026-01-01'', orl_valid_until = ''2026-02-01'',
     orl_issuer = ''i'', orl_revoked = [\<lparr>re_kind = RActor, re_id = ''a'', re_reason = None, re_revoked_at = None\<rparr>],
     orl_signature = \<lparr>se_algorithm = ''ed25519'', se_signer = ''i'', se_signature = [], se_hash_alg = None,
       se_alt_algorithm = None, se_alt_signature = None\<rparr>\<rparr>"

subsection \<open>The binary form\<close>

text \<open>The format that the head of \<open>orl.rs\<close> documents and a gateway writes.\<close>

definition lp :: "string \<Rightarrow> bytes" where
  "lp s = be_bytes 4 (length s) @ as_bytes s"

definition entry_bytes :: "revoked_entry \<Rightarrow> bytes" where
  "entry_bytes e = to_u8 (re_kind e) # lp (re_id e)"

definition orl_body :: "offline_revocation_list \<Rightarrow> bytes" where
  "orl_body l = ORL_VERSION # lp (orl_issuer l) @ lp (orl_issued_at l) @ lp (orl_valid_until l) @
     be_bytes 4 (length (orl_revoked l)) @ concat (map entry_bytes (orl_revoked l))"

definition entry_key :: "revoked_entry \<Rightarrow> string" where
  "entry_key e = orl_key (re_kind e) (re_id e)"

lemma read_u32_be: "n < 2 ^ 32 \<Longrightarrow> read_u32 (be_bytes 4 n @ r) = Inr (n, r)"
  using be_nat_be_bytes[of n 4] by (simp add: read_u32_def)

lemma read_lp_lp: "short s \<Longrightarrow> read_lp (lp s @ r) = Inr (as_bytes s, r)"
  by (simp add: read_lp_def lp_def read_u32_be short_def)

lemma from_to_u8 [simp]: "from_u8 (to_u8 k) = Some k"
  by (cases k) (simp_all add: from_u8_def)

definition body_ok :: "offline_revocation_list \<Rightarrow> bool" where
  "body_ok l = (list_all short [orl_issuer l, orl_issued_at l, orl_valid_until l] \<and> short (orl_revoked l) \<and>
     list_all (\<lambda>e. utf8_valid (re_id e) \<and> short (re_id e)) (orl_revoked l))"

text \<open>What the reader needs of an index: its keys are \<open>"kind:id"\<close>, within \<open>fits\<close>, and it takes a key as long
  as there is room for the keys it would then hold.\<close>

locale orl_index =
  fixes make_key :: "revoked_kind \<Rightarrow> bytes \<Rightarrow> embedded_orl_error + string"
    and ins :: "string \<Rightarrow> revoked_kind \<Rightarrow> (string \<times> revoked_kind) list \<Rightarrow>
      embedded_orl_error + (string \<times> revoked_kind) list"
    and fits :: "string \<Rightarrow> bool"
    and room :: "nat \<Rightarrow> bool"
  assumes make_key: "utf8_valid i \<Longrightarrow>
      make_key kind (as_bytes i) = (if fits (orl_key kind i) then Inr (orl_key kind i) else Inl EKeyTooLarge)"
    and ins: "distinct (map fst index) \<Longrightarrow> room (card (insert key (fst ` set index))) \<Longrightarrow>
      ins key e index = Inr (AList.update key e index)"
    and room_mono: "room n \<Longrightarrow> m \<le> n \<Longrightarrow> room m"
begin

lemma read_entries_bytes:
  assumes "list_all (\<lambda>e. utf8_valid (re_id e) \<and> short (re_id e) \<and> fits (entry_key e)) es"
    and "distinct (map fst index)" "room (card (fst ` set index \<union> entry_key ` set es))"
  shows "read_entries make_key ins (length es) index (concat (map entry_bytes es) @ r) =
    Inr (fold (\<lambda>e. AList.update (entry_key e) (re_kind e)) es index, r)"
  using assms
proof (induction es arbitrary: index)
  case (Cons e es)
  let ?i = "AList.update (entry_key e) (re_kind e) index"
  have k: "make_key (re_kind e) (as_bytes (re_id e)) = Inr (entry_key e)"
    using Cons.prems(1) by (simp add: make_key entry_key_def)
  have "card (insert (entry_key e) (fst ` set index)) \<le> card (fst ` set index \<union> entry_key ` set (e # es))"
    by (rule card_mono) auto
  with Cons.prems(3) have "ins (entry_key e) (re_kind e) index = Inr ?i"
    by (intro ins Cons.prems(2)) (rule room_mono)
  moreover have "fst ` set ?i = insert (entry_key e) (fst ` set index)"
    using dom_map_of_conv_image_fst[of ?i] dom_map_of_conv_image_fst[of index] by (simp add: update_conv' )
  moreover have "distinct (map fst ?i)" by (rule distinct_update[OF Cons.prems(2)])
  ultimately show ?case
    using Cons k by (simp add: entry_bytes_def read_lp_lp)
qed simp

lemma checker_new_body:
  assumes "ed25519_ok C" "body_ok l" "list_all (fits \<circ> entry_key) (orl_revoked l)"
    and "room (card (entry_key ` set (orl_revoked l)))" "orl_issued_at l \<le> now"
    and sig: "length (cr_sign C key (cr_sha256 C (orl_body l))) = SIG_LEN"
  shows "checker_new make_key ins C (orl_body l @ cr_sign C key (cr_sha256 C (orl_body l))) (cr_public C key) now =
    (if orl_valid_until l \<le> now then Inl EExpired
     else Inr (fold (\<lambda>e. AList.update (entry_key e) (re_kind e)) (orl_revoked l) []))"
proof -
  define s buf rest where defs: "s = cr_sign C key (cr_sha256 C (orl_body l))" "buf = orl_body l @ s"
    "rest = concat (map entry_bytes (orl_revoked l)) @ s"
  have es: "read_entries make_key ins (length (orl_revoked l)) [] rest =
      Inr (fold (\<lambda>e. AList.update (entry_key e) (re_kind e)) (orl_revoked l) [], s)"
    using assms(2-4) unfolding defs by (intro read_entries_bytes) (auto simp: body_ok_def list_all_iff)
  have "read_u8 buf = Inr (ORL_VERSION, lp (orl_issuer l) @ lp (orl_issued_at l) @ lp (orl_valid_until l) @
      be_bytes 4 (length (orl_revoked l)) @ rest)" by (simp add: defs(2,3) orl_body_def)
  moreover have "check_prefix_signature C (cr_public C key) (orl_body l) s = Inr ()"
    using assms(1) by (simp add: check_prefix_signature_def ed25519_ok_def defs(1))
  moreover have "take (length buf - length s) buf = orl_body l" by (simp add: defs(2))
  moreover have "read_u32 (be_bytes 4 (length (orl_revoked l)) @ rest) = Inr (length (orl_revoked l), rest)"
    using assms(2) by (intro read_u32_be) (simp add: body_ok_def short_def)
  ultimately have "checker_new make_key ins C buf (cr_public C key) now =
    (if orl_valid_until l \<le> now then Inl EExpired
     else Inr (fold (\<lambda>e. AList.update (entry_key e) (re_kind e)) (orl_revoked l) []))"
    using assms(2,5) es sig unfolding checker_new_def defs(1)[symmetric]
    by (simp add: read_lp_lp body_ok_def not_less[symmetric])
  then show ?thesis by (simp add: defs)
qed

lemma checker_lookup:
  assumes "list_all (fits \<circ> entry_key) es" "utf8_valid i"
  shows "checker_is_revoked make_key (fold (\<lambda>e. AList.update (entry_key e) (re_kind e)) es []) kind i \<longleftrightarrow>
    find (\<lambda>e. re_kind e = kind \<and> re_id e = i) (rev es) \<noteq> None"
proof -
  have "map_of (fold (\<lambda>e. AList.update (entry_key e) (re_kind e)) es index) =
      fold (\<lambda>e m. m(entry_key e \<mapsto> re_kind e)) es (map_of index)" for index
    by (induction es arbitrary: index) (simp_all add: update_conv')
  then have "map_of (fold (\<lambda>e. AList.update (entry_key e) (re_kind e)) es []) (orl_key kind i) \<noteq> None \<longleftrightarrow>
      find (\<lambda>e. re_kind e = kind \<and> re_id e = i) (rev es) \<noteq> None"
    by (simp add: fold_map_upd_last entry_key_def split: option.splits)
  moreover have "find (\<lambda>e. re_kind e = kind \<and> re_id e = i) (rev es) = None" if "\<not> fits (orl_key kind i)"
    using assms(1) that by (auto simp: find_None_iff list_all_iff entry_key_def)
  ultimately show ?thesis by (auto simp: checker_is_revoked_def make_key[OF assms(2)])
qed

end

interpretation alloc_index: orl_index make_key_alloc insert_alloc "\<lambda>_. True" "\<lambda>_. True"
  by unfold_locales (simp_all add: make_key_alloc_def insert_alloc_def orl_key_def codec_simps)

interpretation heapless_index: orl_index make_key_heapless insert_heapless "\<lambda>k. length k \<le> NO_ALLOC_KEY_CAP"
  "\<lambda>n. n \<le> NO_ALLOC_CAPACITY"
proof
  fix index :: "(string \<times> revoked_kind) list" and key e
  assume *: "distinct (map fst index)" "card (insert key (fst ` set index)) \<le> NO_ALLOC_CAPACITY"
  have "card (fst ` set index) = length index" using distinct_card[OF *(1)] by simp
  with * show "insert_heapless key e index = Inr (AList.update key e index)"
    by (auto simp: insert_heapless_def)
qed (simp_all add: make_key_heapless_def orl_key_def codec_simps Let_def not_le)

text \<open>
  C19. The embedded checkers implement the runtime: on the binary form of a list that the runtime loads,
  signed by the device's issuer key, both checkers succeed and answer every lookup as the runtime does (the
  \<open>heapless\<close> one for lists within its bounds). The exception is the last instant of a list, which the
  runtime still accepts and the checkers reject as expired.
\<close>

theorem embedded_orl_agrees:
  assumes "orl_load C l pk now = Inr rt" "ed25519_ok E" "body_ok l"
    and "length (cr_sign E key (cr_sha256 E (orl_body l))) = SIG_LEN"
    and "list_all (\<lambda>e. length (entry_key e) \<le> NO_ALLOC_KEY_CAP) (orl_revoked l)"
    and "card (entry_key ` set (orl_revoked l)) \<le> NO_ALLOC_CAPACITY"
  shows "let buf = orl_body l @ cr_sign E key (cr_sha256 E (orl_body l));
      alloc = checker_new make_key_alloc insert_alloc E buf (cr_public E key) now;
      heapless = checker_new make_key_heapless insert_heapless E buf (cr_public E key) now
    in if now = orl_valid_until l then alloc = Inl EExpired \<and> heapless = Inl EExpired
       else \<exists>a h. alloc = Inr a \<and> heapless = Inr h \<and> (\<forall>kind i. utf8_valid i \<longrightarrow>
         checker_is_revoked make_key_alloc a kind i = (orl_is_revoked rt kind i \<noteq> None) \<and>
         checker_is_revoked make_key_heapless h kind i = (orl_is_revoked rt kind i \<noteq> None))"
proof -
  let ?i = "fold (\<lambda>e. AList.update (entry_key e) (re_kind e)) (orl_revoked l) []"
  have t: "orl_issued_at l \<le> now" "now \<le> orl_valid_until l" using assms(1) by (auto simp: orl_load_Inr_iff)
  have fits: "list_all ((\<lambda>_. True) \<circ> entry_key) (orl_revoked l)"
    "list_all ((\<lambda>k. length k \<le> NO_ALLOC_KEY_CAP) \<circ> entry_key) (orl_revoked l)"
    using assms(5) by (simp_all add: list_all_iff)
  note a = alloc_index.checker_new_body[OF assms(2,3) fits(1) TrueI t(1) assms(4)]
  note h = heapless_index.checker_new_body[OF assms(2,3) fits(2) assms(6) t(1) assms(4)]
  have le: "orl_valid_until l \<le> now \<longleftrightarrow> now = orl_valid_until l" using t(2) by auto
  show ?thesis
    unfolding Let_def a h le
    using alloc_index.checker_lookup[OF fits(1)] heapless_index.checker_lookup[OF fits(2)] orl_lookup[OF assms(1)] by auto
qed

definition sample_key :: bytes where
  "sample_key = replicate 32 7"

theorem embedded_orl_agrees_witness:
  "\<exists>l rt. orl_load sample_crates l (cr_public sample_crates sample_key) ''2026-01-15'' = Inr rt \<and>
    (\<exists>a h. checker_new make_key_alloc insert_alloc sample_crates
        (orl_body l @ cr_sign sample_crates sample_key (cr_sha256 sample_crates (orl_body l)))
        (cr_public sample_crates sample_key) ''2026-01-15'' = Inr a \<and>
      checker_new make_key_heapless insert_heapless sample_crates
        (orl_body l @ cr_sign sample_crates sample_key (cr_sha256 sample_crates (orl_body l)))
        (cr_public sample_crates sample_key) ''2026-01-15'' = Inr h)"
proof -
  obtain sg where sg: "verify_offline_revocation_list_signature sample_crates (sample_list\<lparr>orl_signature := sg\<rparr>)
      (cr_public sample_crates sample_key) = Inr True"
    using sign_orl_Inr[of sample_crates sample_list sample_key] sample_crates_ok(1) by blast
  let ?l = "sample_list\<lparr>orl_signature := sg\<rparr>"
  obtain rt where rt: "orl_load sample_crates ?l (cr_public sample_crates sample_key) ''2026-01-15'' = Inr rt"
    using sg orl_load_Inr_iff[of sample_crates ?l "cr_public sample_crates sample_key" "''2026-01-15''"
        "\<lparr>rt_list = ?l, rt_index = fold (\<lambda>e m. m(orl_key (re_kind e) (re_id e) \<mapsto> e)) (orl_revoked ?l) Map.empty\<rparr>"]
    by (simp add: sample_list_def)
  have "body_ok ?l" "list_all (\<lambda>e. length (entry_key e) \<le> NO_ALLOC_KEY_CAP) (orl_revoked ?l)"
    "card (entry_key ` set (orl_revoked ?l)) \<le> NO_ALLOC_CAPACITY" "''2026-01-15'' \<noteq> orl_valid_until ?l"
    "length (cr_sign sample_crates sample_key (cr_sha256 sample_crates (orl_body ?l))) = SIG_LEN"
    by (simp_all add: sample_list_def body_ok_def short_def utf8_valid_def entry_key_def orl_key_def NO_ALLOC_KEY_CAP_def
        NO_ALLOC_CAPACITY_def sample_crates_def sample_key_def SIG_LEN_def)
  with embedded_orl_agrees[OF rt sample_crates_ok(1), of sample_key] rt show ?thesis
    unfolding Let_def by (intro exI[of _ ?l] exI[of _ rt]) (simp only: if_False, blast)
qed

end
