(* ===== verification/Receipts.thy ===== *)
theory Receipts
  imports Packet Orl
begin

text \<open>
  Delivery receipts and proofs of forwarding (\<open>constrained.rs\<close>): a receiver, or a relay, signs a statement
  about the canonical text of a packet. Both bind the packet through its SHA-256 reference.
\<close>

record receipt_signature =
  rcs_algorithm :: string
  rcs_signer :: string
  rcs_signature :: string

record delivery_receipt =
  dr_version :: string
  dr_packet_id :: string
  dr_packet_hash :: string
  dr_receiver :: string
  dr_received_at :: string
  dr_signature :: receipt_signature

record proof_of_forwarding =
  pf_version :: string
  pf_packet_id :: string
  pf_packet_hash :: string
  pf_relay :: string
  pf_forwarded_at :: string
  pf_hop_count :: "32 word"
  pf_signature :: receipt_signature

record verify_result =
  vr_ok :: bool
  vr_reason :: "string option"

definition reject :: "string \<Rightarrow> verify_result" where
  "reject reason = \<lparr>vr_ok = False, vr_reason = Some reason\<rparr>"

text \<open>The derived serialisers; the entry \<open>signature\<close> is the one that is removed before signing.\<close>

definition receipt_signature_json :: "receipt_signature \<Rightarrow> json" where
  "receipt_signature_json s = JObject (sort_entries
     [(''algorithm'', JString (rcs_algorithm s)), (''signer'', JString (rcs_signer s)), (''signature'', JString (rcs_signature s))])"

definition receipt_fields :: "delivery_receipt \<Rightarrow> (string \<times> json option) list" where
  "receipt_fields r =
     [(''receipt_version'', Some (JString (dr_version r))), (''packet_id'', Some (JString (dr_packet_id r))),
      (''packet_hash'', Some (JString (dr_packet_hash r))), (''receiver'', Some (JString (dr_receiver r))),
      (''received_at'', Some (JString (dr_received_at r)))]"

definition receipt_json :: "delivery_receipt \<Rightarrow> json" where
  "receipt_json r = JObject (sort_entries (present
     (receipt_fields r @ [(''signature'', Some (receipt_signature_json (dr_signature r)))])))"

definition proof_fields :: "proof_of_forwarding \<Rightarrow> (string \<times> json option) list" where
  "proof_fields r =
     [(''proof_version'', Some (JString (pf_version r))), (''packet_id'', Some (JString (pf_packet_id r))),
      (''packet_hash'', Some (JString (pf_packet_hash r))), (''relay'', Some (JString (pf_relay r))),
      (''forwarded_at'', Some (JString (pf_forwarded_at r))), (''hop_count'', Some (u32_json (pf_hop_count r)))]"

definition proof_json :: "proof_of_forwarding \<Rightarrow> json" where
  "proof_json r = JObject (sort_entries (present
     (proof_fields r @ [(''signature'', Some (receipt_signature_json (pf_signature r)))])))"

definition canonicalized :: "crates \<Rightarrow> json \<Rightarrow> orl_error + string" where
  "canonicalized C v = map_err (\<lambda>e. OrlCanonicalize (canonical_error_str e)) (canon C v)"

subsection \<open>Delivery receipts\<close>

definition sign_delivery_receipt ::
    "crates \<Rightarrow> packet \<Rightarrow> string \<Rightarrow> string \<Rightarrow> bytes \<Rightarrow> orl_error + delivery_receipt" where
  "sign_delivery_receipt C packet receiver received_at private_key =
     rbind (canonicalized C (packet_json packet)) (\<lambda>canonical_packet.
     let draft = \<lparr>dr_version = ''1'', dr_packet_id = pk_id packet,
           dr_packet_hash = sha256_hashref C (as_bytes canonical_packet), dr_receiver = receiver,
           dr_received_at = received_at,
           dr_signature = \<lparr>rcs_algorithm = ''ed25519'', rcs_signer = receiver, rcs_signature = []\<rparr>\<rparr>
     in rbind (canonicalized C (without_key ''signature'' (receipt_json draft))) (\<lambda>sig_canonical.
          Inr (draft\<lparr>dr_signature := (dr_signature draft)\<lparr>rcs_signature :=
            sign_text C private_key (as_bytes sig_canonical)\<rparr>\<rparr>)))"

text \<open>The last step of both verifiers: the signature over the canonical text, with the reasons it gives.\<close>

definition verify_signature :: "crates \<Rightarrow> bytes \<Rightarrow> string \<Rightarrow> string \<Rightarrow> string \<Rightarrow> verify_result" where
  "verify_signature C public_key sig_canonical signature failure =
     (case check_signature C public_key (as_bytes sig_canonical) signature of
        SigBase64 e \<Rightarrow> reject (''signature base64: '' @ decode_error_str e)
      | SigParse e \<Rightarrow> reject (''signature parse: '' @ e)
      | SigKey e \<Rightarrow> reject (''verifying key: '' @ e)
      | SigBad \<Rightarrow> reject failure
      | SigOk \<Rightarrow> \<lparr>vr_ok = True, vr_reason = None\<rparr>)"

definition verify_delivery_receipt :: "crates \<Rightarrow> delivery_receipt \<Rightarrow> packet \<Rightarrow> bytes \<Rightarrow> verify_result" where
  "verify_delivery_receipt C receipt packet receiver_public_key =
     (if dr_version receipt \<noteq> ''1'' then reject (''receipt_version '' @ dr_version receipt @ '' unsupported'')
      else if dr_packet_id receipt \<noteq> pk_id packet then reject ''packet_id mismatch''
      else (case canon C (packet_json packet) of
        Inl e \<Rightarrow> reject (''canonicalize: '' @ canonical_error_str e)
      | Inr canonical_packet \<Rightarrow>
          if sha256_hashref C (as_bytes canonical_packet) \<noteq> dr_packet_hash receipt then reject ''packet_hash mismatch''
          else if rcs_signer (dr_signature receipt) \<noteq> dr_receiver receipt then reject ''receipt signer != receiver''
          else (case canon C (without_key ''signature'' (receipt_json receipt)) of
            Inl e \<Rightarrow> reject (''canonicalize: '' @ canonical_error_str e)
          | Inr sig_canonical \<Rightarrow> verify_signature C receiver_public_key sig_canonical
              (rcs_signature (dr_signature receipt)) ''receipt signature did not verify'')))"

subsection \<open>Proofs of forwarding\<close>

definition sign_proof_of_forwarding ::
    "crates \<Rightarrow> packet \<Rightarrow> string \<Rightarrow> string \<Rightarrow> 32 word \<Rightarrow> bytes \<Rightarrow> orl_error + proof_of_forwarding" where
  "sign_proof_of_forwarding C packet relay forwarded_at hop_count private_key =
     rbind (canonicalized C (packet_json packet)) (\<lambda>canonical_packet.
     let draft = \<lparr>pf_version = ''1'', pf_packet_id = pk_id packet,
           pf_packet_hash = sha256_hashref C (as_bytes canonical_packet), pf_relay = relay,
           pf_forwarded_at = forwarded_at, pf_hop_count = hop_count,
           pf_signature = \<lparr>rcs_algorithm = ''ed25519'', rcs_signer = relay, rcs_signature = []\<rparr>\<rparr>
     in rbind (canonicalized C (without_key ''signature'' (proof_json draft))) (\<lambda>sig_canonical.
          Inr (draft\<lparr>pf_signature := (pf_signature draft)\<lparr>rcs_signature :=
            sign_text C private_key (as_bytes sig_canonical)\<rparr>\<rparr>)))"

definition verify_proof_of_forwarding :: "crates \<Rightarrow> proof_of_forwarding \<Rightarrow> packet \<Rightarrow> bytes \<Rightarrow> verify_result" where
  "verify_proof_of_forwarding C proof packet relay_public_key =
     (if pf_version proof \<noteq> ''1'' then reject (''proof_version '' @ pf_version proof @ '' unsupported'')
      else if pf_packet_id proof \<noteq> pk_id packet then reject ''packet_id mismatch''
      else (case canon C (packet_json packet) of
        Inl e \<Rightarrow> reject (''canonicalize: '' @ canonical_error_str e)
      | Inr canonical_packet \<Rightarrow>
          if sha256_hashref C (as_bytes canonical_packet) \<noteq> pf_packet_hash proof then reject ''packet_hash mismatch''
          else if rcs_signer (pf_signature proof) \<noteq> pf_relay proof then reject ''proof signer != relay''
          else (case canon C (without_key ''signature'' (proof_json proof)) of
            Inl e \<Rightarrow> reject (''canonicalize: '' @ canonical_error_str e)
          | Inr sig_canonical \<Rightarrow> verify_signature C relay_public_key sig_canonical
              (rcs_signature (pf_signature proof)) ''forwarding signature did not verify'')))"

subsection \<open>Statements about packets\<close>

definition packet_text :: "crates \<Rightarrow> packet \<Rightarrow> string" where
  "packet_text C p = struct_text C (unsigned_fields p @ [(''signature'', Some (signature_json (pk_signature p)))])"

lemma packet_full_frac_free: "frac_free_table (unsigned_fields p @ [(''signature'', Some (signature_json (pk_signature p)))])"
  using packet_document.no_fractions[OF TrueI, of p] by (simp add: frac_free_table_def signature_json_def list_all_iff)

lemma canon_packet: "canon C (packet_json p) = Inr (packet_text C p)"
  unfolding packet_json_def packet_text_def by (rule canon_struct[OF packet_full_frac_free])

lemma receipt_json_unsigned: "without_key ''signature'' (receipt_json r) = JObject (sort_entries (present (receipt_fields r)))"
  unfolding receipt_json_def by (rule without_key_present) (simp add: receipt_fields_def)

lemma proof_json_unsigned: "without_key ''signature'' (proof_json r) = JObject (sort_entries (present (proof_fields r)))"
  unfolding proof_json_def by (rule without_key_present) (simp add: proof_fields_def)

definition receipt_signing_bytes :: "crates \<Rightarrow> delivery_receipt \<Rightarrow> bytes" where
  "receipt_signing_bytes C r = as_bytes (struct_text C (receipt_fields r))"

definition proof_signing_bytes :: "crates \<Rightarrow> proof_of_forwarding \<Rightarrow> bytes" where
  "proof_signing_bytes C r = as_bytes (struct_text C (proof_fields r))"

interpretation receipt_document: signed_document receipt_fields "\<lambda>C b. b" receipt_signing_bytes
  "rcs_signature \<circ> dr_signature" "\<lambda>s r. r\<lparr>dr_signature := (dr_signature r)\<lparr>rcs_signature := s\<rparr>\<rparr>" "\<lambda>_. True"
  by unfold_locales (simp_all add: receipt_signing_bytes_def receipt_fields_def is_ascii_def frac_free_table_def)

interpretation forwarding_document: signed_document proof_fields "\<lambda>C b. b" proof_signing_bytes
  "rcs_signature \<circ> pf_signature" "\<lambda>s r. r\<lparr>pf_signature := (pf_signature r)\<lparr>rcs_signature := s\<rparr>\<rparr>" "\<lambda>_. True"
  by unfold_locales (simp_all add: proof_signing_bytes_def proof_fields_def is_ascii_def frac_free_table_def u32_json_def)

lemma canon_receipt: "canon C (without_key ''signature'' (receipt_json r)) = Inr (struct_text C (receipt_fields r))"
  unfolding receipt_json_unsigned by (rule canon_struct[OF receipt_document.no_fractions[OF TrueI]])

lemma canon_proof: "canon C (without_key ''signature'' (proof_json r)) = Inr (struct_text C (proof_fields r))"
  unfolding proof_json_unsigned by (rule canon_struct[OF forwarding_document.no_fractions[OF TrueI]])

lemma verify_signature_ok:
  "vr_ok (verify_signature C pk t s f) \<longleftrightarrow> check_signature C pk (as_bytes t) s = SigOk"
  by (simp add: verify_signature_def reject_def split: sig_check.splits)

lemma verify_delivery_receipt_ok:
  "vr_ok (verify_delivery_receipt C r p pk) \<longleftrightarrow> dr_version r = ''1'' \<and> dr_packet_id r = pk_id p \<and>
     dr_packet_hash r = sha256_hashref C (as_bytes (packet_text C p)) \<and> rcs_signer (dr_signature r) = dr_receiver r \<and>
     check_signature C pk (receipt_signing_bytes C r) (rcs_signature (dr_signature r)) = SigOk"
  by (auto simp: verify_delivery_receipt_def canon_packet canon_receipt verify_signature_ok receipt_signing_bytes_def reject_def)

lemma verify_proof_of_forwarding_ok:
  "vr_ok (verify_proof_of_forwarding C r p pk) \<longleftrightarrow> pf_version r = ''1'' \<and> pf_packet_id r = pk_id p \<and>
     pf_packet_hash r = sha256_hashref C (as_bytes (packet_text C p)) \<and> rcs_signer (pf_signature r) = pf_relay r \<and>
     check_signature C pk (proof_signing_bytes C r) (rcs_signature (pf_signature r)) = SigOk"
  by (auto simp: verify_proof_of_forwarding_def canon_packet canon_proof verify_signature_ok proof_signing_bytes_def reject_def)

lemma receipt_verifies:
  assumes "ed25519_ok C"
  obtains r where "sign_delivery_receipt C p receiver at key = Inr r" "vr_ok (verify_delivery_receipt C r p (cr_public C key))"
proof -
  let ?d = "\<lparr>dr_version = ''1'', dr_packet_id = pk_id p, dr_packet_hash = sha256_hashref C (as_bytes (packet_text C p)),
     dr_receiver = receiver, dr_received_at = at,
     dr_signature = \<lparr>rcs_algorithm = ''ed25519'', rcs_signer = receiver, rcs_signature = []\<rparr>\<rparr>"
  have "\<exists>r. sign_delivery_receipt C p receiver at key = Inr r \<and> vr_ok (verify_delivery_receipt C r p (cr_public C key))"
    using receipt_document.sealed_verifies[OF assms, of key ?d]
    by (simp add: sign_delivery_receipt_def canonicalized_def canon_packet canon_receipt Let_def verify_delivery_receipt_ok
        flip: receipt_signing_bytes_def)
  with that show thesis by blast
qed

lemma forwarding_verifies:
  assumes "ed25519_ok C"
  shows "\<exists>f. sign_proof_of_forwarding C p relay at hops key = Inr f \<and> pf_hop_count f = hops \<and>
      vr_ok (verify_proof_of_forwarding C f p (cr_public C key))"
proof -
  let ?f = "\<lparr>pf_version = ''1'', pf_packet_id = pk_id p, pf_packet_hash = sha256_hashref C (as_bytes (packet_text C p)),
     pf_relay = relay, pf_forwarded_at = at, pf_hop_count = hops,
     pf_signature = \<lparr>rcs_algorithm = ''ed25519'', rcs_signer = relay, rcs_signature = []\<rparr>\<rparr>"
  show ?thesis
    using forwarding_document.sealed_verifies[OF assms, of key ?f]
    by (simp add: sign_proof_of_forwarding_def canonicalized_def canon_packet canon_proof Let_def
        verify_proof_of_forwarding_ok flip: proof_signing_bytes_def)
qed

definition signature_normal :: "crates \<Rightarrow> packet \<Rightarrow> bool" where
  "signature_normal C p = list_all (\<lambda>s. cr_nfc C s = s)
     [ps_algorithm (pk_signature p), ps_signer (pk_signature p), ps_signature (pk_signature p)]"

lemma packet_text_inject:
  assumes "nfc_ok C" "packet_normal C p" "packet_normal C q" "signature_normal C p" "signature_normal C q"
    and "packet_text C p = packet_text C q"
  shows "p = q"
proof -
  let ?t = "\<lambda>p. unsigned_fields p @ [(''signature'', Some (signature_json (pk_signature p)))]"
  let ?n = "map_option (json_norm (cr_nfc C)) \<circ> snd"
  have k: "cr_nfc C k = k" if "is_ascii k" for k using assms(1) that by (simp add: nfc_ok_def)
  have keys: "map fst (?t p) = map fst (?t q)" "distinct (map fst (?t p))" "\<And>k. k \<in> set (map fst (?t p)) \<Longrightarrow> cr_nfc C k = k"
    by (auto simp: unsigned_fields_def intro!: k) (simp_all add: is_ascii_def)
  have "frac_free (packet_json x)" for x
    unfolding packet_json_def by (rule frac_free_struct[OF packet_full_frac_free])
  then have "json_norm (cr_nfc C) (packet_json p) = json_norm (cr_nfc C) (packet_json q)"
    using canonicalize_eq_iff(2)[of "packet_json p" "packet_json q" "cr_nfc C" "cr_fmt_f64 C"] canon_packet[of C p]
      canon_packet[of C q] assms(6) by (simp add: canon_def)
  from struct_norm_eq[OF keys this[unfolded packet_json_def]]
  have eq: "map ?n (unsigned_fields p) = map ?n (unsigned_fields q)"
    and sg: "json_norm (cr_nfc C) (signature_json (pk_signature p)) = json_norm (cr_nfc C) (signature_json (pk_signature q))"
    by simp_all
  have ks: "cr_nfc C ''algorithm'' = ''algorithm''" "cr_nfc C ''signer'' = ''signer''" "cr_nfc C ''signature'' = ''signature''"
    by (simp_all add: k is_ascii_def)
  have "pk_signature p = pk_signature q"
    using sg assms(4,5) by (cases "pk_signature p"; cases "pk_signature q")
      (simp add: signature_json_def sort_entries_def ks signature_normal_def)
  with packet_fields_eq[OF assms(1-3) eq] show ?thesis by (cases p; cases q) simp
qed

text \<open>
  A receipt speaks about one packet: if a receipt, or a proof of forwarding, is accepted for two packets
  in Unicode normal form, the packets are the same, their signatures included, or their canonical texts are
  a collision of SHA-256.
\<close>

lemma receipt_binds_packet:
  assumes "nfc_ok C" "packet_normal C p" "packet_normal C q" "signature_normal C p" "signature_normal C q"
    and "vr_ok (verify_delivery_receipt C r p pk) \<and> vr_ok (verify_delivery_receipt C r q pk') \<or>
      vr_ok (verify_proof_of_forwarding C f p pk) \<and> vr_ok (verify_proof_of_forwarding C f q pk')"
  shows "p = q \<or> collision (cr_sha256 C) (as_bytes (packet_text C p)) (as_bytes (packet_text C q))"
proof -
  have "sha256_hashref C (as_bytes (packet_text C p)) = sha256_hashref C (as_bytes (packet_text C q))"
    using assms(6) by (auto simp: verify_delivery_receipt_ok verify_proof_of_forwarding_ok)
  with packet_text_inject[OF assms(1-5)] show ?thesis
    by (auto simp: collision_def sha256_hashref_eq)
qed

end
