(* ===== verification/Embedded.thy ===== *)
theory Embedded
  imports Signed
begin

text \<open>
  The embedded packet and relay authority (\<open>tf-core-no-std/src/packet.rs\<close> and \<open>relay.rs\<close>): the digest
  that is signed is the hash of the length-prefixed fields in a fixed order. The capacities of the
  \<open>heapless\<close> containers are type parameters in the source; here \<open>packet_caps\<close> and \<open>authority_caps\<close>
  say them.
\<close>

definition STRING_CAP :: nat where
  "STRING_CAP = 256"

definition PAYLOAD_CAP :: nat where
  "PAYLOAD_CAP = 1024"

definition KINDS_CAP :: nat where
  "KINDS_CAP = 16"

record embedded_packet =
  ep_version :: string
  ep_id :: string
  ep_source :: string
  ep_destination :: string
  ep_priority :: string
  ep_emergency :: bool
  ep_created_at :: string
  ep_expires_at :: "string option"
  ep_signer :: string
  ep_algorithm :: string
  ep_payload :: bytes
  ep_signature :: bytes

datatype verify_error =
    VUnsupportedVersion
  | VSignerMismatch
  | VP0NotEmergency
  | VExpired
  | VSignatureMalformed
  | VPublicKeyMalformed
  | VSignatureInvalid
  | VFieldTooLarge

datatype sign_error = SFieldTooLarge | SPayloadTooLarge | SP0NotEmergency

subsection \<open>Packets\<close>

text \<open>\<open>bytes.len() as u32\<close> keeps the low 32 bits of the length.\<close>

definition write_field :: "bytes \<Rightarrow> bytes" where
  "write_field bs = be_bytes 4 (length bs mod 2 ^ 32) @ bs"

definition write_optional_str :: "string option \<Rightarrow> bytes" where
  "write_optional_str v = (case v of Some s \<Rightarrow> 1 # write_field (as_bytes s) | None \<Rightarrow> [0])"

definition embedded_preimage :: "embedded_packet \<Rightarrow> bytes" where
  "embedded_preimage p =
     write_field (as_bytes (ep_version p)) @ write_field (as_bytes (ep_id p)) @ write_field (as_bytes (ep_source p)) @
     write_field (as_bytes (ep_destination p)) @ write_field (as_bytes (ep_priority p)) @
     write_field [if ep_emergency p then 1 else 0] @ write_field (as_bytes (ep_created_at p)) @
     write_optional_str (ep_expires_at p) @ write_field (as_bytes (ep_signer p)) @
     write_field (as_bytes (ep_algorithm p)) @ write_field (ep_payload p)"

definition embedded_signing_bytes :: "crates \<Rightarrow> embedded_packet \<Rightarrow> bytes" where
  "embedded_signing_bytes C p = cr_sha256 C (embedded_preimage p)"

definition hstring :: "nat \<Rightarrow> string \<Rightarrow> sign_error + string" where
  "hstring cap s = (if length s > cap then Inl SFieldTooLarge else Inr s)"

definition embedded_sign_packet ::
    "crates \<Rightarrow> bytes \<Rightarrow> bytes \<Rightarrow> string \<Rightarrow> string \<Rightarrow> string \<Rightarrow> string \<Rightarrow> string \<Rightarrow> string option \<Rightarrow>
     sign_error + embedded_packet" where
  "embedded_sign_packet C payload private_key signer packet_id source destination priority expires_at =
     (if priority = ''P0'' then Inl SP0NotEmergency
      else if length payload > PAYLOAD_CAP then Inl SPayloadTooLarge else
      rbind (hstring 8 ''1'') (\<lambda>version.
      rbind (hstring STRING_CAP packet_id) (\<lambda>packet_id.
      rbind (hstring STRING_CAP source) (\<lambda>source.
      rbind (hstring STRING_CAP destination) (\<lambda>destination.
      rbind (hstring 8 priority) (\<lambda>priority.
      rbind (case expires_at of Some e \<Rightarrow> rbind (hstring STRING_CAP e) (\<lambda>e. Inr (Some e)) | None \<Rightarrow> Inr None) (\<lambda>expires_at.
      rbind (hstring STRING_CAP signer) (\<lambda>signer.
      rbind (hstring 16 ''ed25519'') (\<lambda>algorithm.
        let packet = \<lparr>ep_version = version, ep_id = packet_id, ep_source = source, ep_destination = destination,
              ep_priority = priority, ep_emergency = False, ep_created_at = [], ep_expires_at = expires_at,
              ep_signer = signer, ep_algorithm = algorithm, ep_payload = payload, ep_signature = []\<rparr>
        in Inr (packet\<lparr>ep_signature := cr_sign C private_key (embedded_signing_bytes C packet)\<rparr>))))))))))"

text \<open>The signature check that packets and authorities share: 64 bytes, then the crate's parsers and verifier.\<close>

definition check_raw_signature :: "crates \<Rightarrow> bytes \<Rightarrow> bytes \<Rightarrow> bytes \<Rightarrow> verify_error + unit" where
  "check_raw_signature C public_key digest sig_bytes =
     (if length sig_bytes \<noteq> 64 \<or> cr_sig_error C sig_bytes \<noteq> None then Inl VSignatureMalformed
      else if cr_key_error C public_key \<noteq> None then Inl VPublicKeyMalformed
      else if \<not> cr_verify C public_key digest sig_bytes then Inl VSignatureInvalid
      else Inr ())"

definition embedded_verify_packet :: "crates \<Rightarrow> embedded_packet \<Rightarrow> bytes \<Rightarrow> string \<Rightarrow> verify_error + unit" where
  "embedded_verify_packet C packet public_key now =
     (if ep_version packet \<noteq> ''1'' then Inl VUnsupportedVersion
      else if ep_signer packet \<noteq> ep_source packet then Inl VSignerMismatch
      else if ep_priority packet = ''P0'' \<and> \<not> ep_emergency packet then Inl VP0NotEmergency
      else if (case ep_expires_at packet of Some e \<Rightarrow> e < now | None \<Rightarrow> False) then Inl VExpired
      else check_raw_signature C public_key (embedded_signing_bytes C packet) (ep_signature packet))"

subsection \<open>Relay authorities\<close>

record embedded_envelope =
  ee_algorithm :: string
  ee_signer :: string
  ee_signature :: bytes

record embedded_authority =
  ea_version :: string
  ea_relay :: string
  ea_trust_domain :: string
  ea_kinds :: "string list"
  ea_max_hop_count :: "32 word option"
  ea_rate_limit_per_minute :: "32 word option"
  ea_valid_from :: string
  ea_valid_until :: "string option"
  ea_issuer :: string
  ea_signature :: embedded_envelope

definition write_optional_u32 :: "32 word option \<Rightarrow> bytes" where
  "write_optional_u32 v = (case v of Some n \<Rightarrow> 1 # be_bytes 4 (unat n) | None \<Rightarrow> [0])"

definition authority_preimage :: "embedded_authority \<Rightarrow> bytes" where
  "authority_preimage a =
     write_field (as_bytes (ea_version a)) @ write_field (as_bytes (ea_relay a)) @ write_field (as_bytes (ea_trust_domain a)) @
     be_bytes 4 (length (ea_kinds a) mod 2 ^ 32) @ concat (map (\<lambda>k. write_field (as_bytes k)) (ea_kinds a)) @
     write_optional_u32 (ea_max_hop_count a) @ write_optional_u32 (ea_rate_limit_per_minute a) @
     write_field (as_bytes (ea_valid_from a)) @ write_optional_str (ea_valid_until a) @ write_field (as_bytes (ea_issuer a))"

definition embedded_authority_signing_bytes :: "crates \<Rightarrow> embedded_authority \<Rightarrow> bytes" where
  "embedded_authority_signing_bytes C a = cr_sha256 C (authority_preimage a)"

definition embedded_verify_relay_authority :: "crates \<Rightarrow> embedded_authority \<Rightarrow> bytes \<Rightarrow> bool" where
  "embedded_verify_relay_authority C authority issuer_pub =
     (if ea_version authority \<noteq> ''1'' then False
      else if ee_algorithm (ea_signature authority) \<noteq> ''ed25519'' then False
      else if ee_signer (ea_signature authority) \<noteq> ea_issuer authority then False
      else (case check_raw_signature C issuer_pub (embedded_authority_signing_bytes C authority)
              (ee_signature (ea_signature authority)) of Inl _ \<Rightarrow> False | Inr _ \<Rightarrow> True))"

subsection \<open>The preimages are unambiguous\<close>

definition packet_caps :: "embedded_packet \<Rightarrow> bool" where
  "packet_caps p = (length (ep_version p) \<le> 8 \<and> length (ep_priority p) \<le> 8 \<and> length (ep_algorithm p) \<le> 16 \<and>
     list_all (\<lambda>s. length s \<le> STRING_CAP) [ep_id p, ep_source p, ep_destination p, ep_created_at p, ep_signer p] \<and>
     (case ep_expires_at p of Some e \<Rightarrow> length e \<le> STRING_CAP | None \<Rightarrow> True) \<and> length (ep_payload p) \<le> PAYLOAD_CAP)"

definition authority_caps :: "embedded_authority \<Rightarrow> bool" where
  "authority_caps a = (length (ea_version a) \<le> 8 \<and> length (ea_kinds a) \<le> KINDS_CAP \<and>
     list_all (\<lambda>s. length s \<le> 32) (ea_kinds a) \<and>
     list_all (\<lambda>s. length s \<le> STRING_CAP) [ea_relay a, ea_trust_domain a, ea_valid_from a, ea_issuer a] \<and>
     (case ea_valid_until a of Some e \<Rightarrow> length e \<le> STRING_CAP | None \<Rightarrow> True))"

lemma write_field_eq:
  assumes "short a" "short b"
  shows "write_field a @ r = write_field b @ s \<longleftrightarrow> a = b \<and> r = s" "write_field a = write_field b \<longleftrightarrow> a = b"
proof -
  have w: "write_field c = be_bytes 4 (length c) @ c" if "short c" for c
    using that by (simp add: write_field_def short_def)
  show *: "write_field a @ r = write_field b @ s \<longleftrightarrow> a = b \<and> r = s" for r s
    using be_bytes4_inject[OF assms] by (auto simp: w assms)
  from *[of "[]" "[]"] show "write_field a = write_field b \<longleftrightarrow> a = b" by simp
qed

lemma write_optional_str_eq:
  assumes "\<And>s. u = Some s \<Longrightarrow> short s" "\<And>s. v = Some s \<Longrightarrow> short s"
  shows "write_optional_str u @ r = write_optional_str v @ s \<longleftrightarrow> u = v \<and> r = s"
  using assms by (cases u; cases v) (simp_all add: write_optional_str_def write_field_eq)

lemma write_optional_u32_eq: "write_optional_u32 u @ r = write_optional_u32 v @ s \<longleftrightarrow> u = v \<and> r = s"
proof -
  have "unat x < 2 ^ 32" for x :: "32 word" using unsigned_less[of x] by simp
  then have "be_bytes 4 (unat x) = be_bytes 4 (unat y) \<longleftrightarrow> x = y" for x y :: "32 word"
    using be_bytes_inject[of "unat x" 4 "unat y"] by (simp add: word_unat_eq_iff)
  then show ?thesis by (cases u; cases v) (simp_all add: write_optional_u32_def)
qed

lemma write_fields_eq:
  assumes "length xs = length ys" "list_all short xs" "list_all short ys"
  shows "concat (map (\<lambda>k. write_field (as_bytes k)) xs) @ r = concat (map (\<lambda>k. write_field (as_bytes k)) ys) @ s \<longleftrightarrow>
    xs = ys \<and> r = s"
  using assms by (induction xs ys rule: list_induct2) (auto simp: write_field_eq)

lemma small_short: "length s \<le> n \<Longrightarrow> n \<le> 1024 \<Longrightarrow> short s"
  unfolding short_def by (rule le_less_trans[of _ 1024]) simp_all

lemma packet_caps_short:
  assumes "packet_caps p"
  shows "short (ep_version p)" "short (ep_id p)" "short (ep_source p)" "short (ep_destination p)" "short (ep_priority p)"
    "short (ep_created_at p)" "short (ep_signer p)" "short (ep_algorithm p)" "short (ep_payload p)" "short [e :: byte]"
    "ep_expires_at p = Some e' \<Longrightarrow> short e'"
  using assms by (auto simp: packet_caps_def STRING_CAP_def PAYLOAD_CAP_def intro: small_short)

lemma authority_caps_short:
  assumes "authority_caps a"
  shows "short (ea_version a)" "short (ea_relay a)" "short (ea_trust_domain a)" "short (ea_kinds a)"
    "list_all short (ea_kinds a)" "short (ea_valid_from a)" "short (ea_issuer a)"
    "ea_valid_until a = Some e \<Longrightarrow> short e"
  using assms by (auto simp: authority_caps_def STRING_CAP_def KINDS_CAP_def list_all_iff intro: small_short)

lemma embedded_preimage_inject:
  assumes "packet_caps p" "packet_caps q" "embedded_preimage p = embedded_preimage q"
  shows "p\<lparr>ep_signature := ep_signature q\<rparr> = q"
proof -
  note c = packet_caps_short[OF assms(1)] packet_caps_short[OF assms(2)]
  have e: "write_optional_str (ep_expires_at p) @ r = write_optional_str (ep_expires_at q) @ s \<longleftrightarrow>
      ep_expires_at p = ep_expires_at q \<and> r = s" for r s
    by (rule write_optional_str_eq) (use c in simp_all)
  from assms(3) have "ep_version p = ep_version q \<and> ep_id p = ep_id q \<and> ep_source p = ep_source q \<and>
      ep_destination p = ep_destination q \<and> ep_priority p = ep_priority q \<and> ep_emergency p = ep_emergency q \<and>
      ep_created_at p = ep_created_at q \<and> ep_expires_at p = ep_expires_at q \<and> ep_signer p = ep_signer q \<and>
      ep_algorithm p = ep_algorithm q \<and> ep_payload p = ep_payload q"
    unfolding embedded_preimage_def by (simp add: write_field_eq c e split: if_splits)
  then show ?thesis by simp
qed

lemma authority_preimage_inject:
  assumes "authority_caps a" "authority_caps b" "authority_preimage a = authority_preimage b"
  shows "a\<lparr>ea_signature := ea_signature b\<rparr> = b"
proof -
  note c = authority_caps_short[OF assms(1)] authority_caps_short[OF assms(2)]
  have n: "length (ea_kinds x) mod 2 ^ 32 = length (ea_kinds x)" if "short (ea_kinds x)" for x
    using that by (simp add: short_def)
  have e: "write_optional_str (ea_valid_until a) @ r = write_optional_str (ea_valid_until b) @ s \<longleftrightarrow>
      ea_valid_until a = ea_valid_until b \<and> r = s" for r s
    by (rule write_optional_str_eq) (use c in simp_all)
  have hd: "ea_version a = ea_version b" "ea_relay a = ea_relay b" "ea_trust_domain a = ea_trust_domain b"
    and tl: "length (ea_kinds a) = length (ea_kinds b)"
      "concat (map (\<lambda>k. write_field (as_bytes k)) (ea_kinds a)) @
       write_optional_u32 (ea_max_hop_count a) @ write_optional_u32 (ea_rate_limit_per_minute a) @
       write_field (as_bytes (ea_valid_from a)) @ write_optional_str (ea_valid_until a) @ write_field (as_bytes (ea_issuer a)) =
       concat (map (\<lambda>k. write_field (as_bytes k)) (ea_kinds b)) @
       write_optional_u32 (ea_max_hop_count b) @ write_optional_u32 (ea_rate_limit_per_minute b) @
       write_field (as_bytes (ea_valid_from b)) @ write_optional_str (ea_valid_until b) @ write_field (as_bytes (ea_issuer b))"
    using assms(3) unfolding authority_preimage_def n[OF c(4)] n[OF c(12)]
    by (simp_all add: write_field_eq c be_bytes4_inject)
  have "ea_kinds a = ea_kinds b \<and> ea_max_hop_count a = ea_max_hop_count b \<and>
      ea_rate_limit_per_minute a = ea_rate_limit_per_minute b \<and> ea_valid_from a = ea_valid_from b \<and>
      ea_valid_until a = ea_valid_until b \<and> ea_issuer a = ea_issuer b"
    using tl(2) by (simp add: write_fields_eq[OF tl(1) c(5) c(13)] write_optional_u32_eq write_field_eq c e)
  with hd show ?thesis by simp
qed

text \<open>
  C21. Embedded signatures bind every field: two embedded packets within their capacities have the same signing
  bytes exactly when they agree in every field but the signature, or the hashed bytes are a collision of
  SHA-256, and the same holds of relay authorities. In particular a gateway cannot fill in \<open>created_at\<close>
  after signing.
\<close>

theorem embedded_signatures_bind:
  assumes "packet_caps p" "packet_caps q" "authority_caps a" "authority_caps b"
  shows "(embedded_signing_bytes C p = embedded_signing_bytes C q \<longleftrightarrow>
      p\<lparr>ep_signature := ep_signature q\<rparr> = q \<or> collision (cr_sha256 C) (embedded_preimage p) (embedded_preimage q)) \<and>
    (embedded_authority_signing_bytes C a = embedded_authority_signing_bytes C b \<longleftrightarrow>
      a\<lparr>ea_signature := ea_signature b\<rparr> = b \<or> collision (cr_sha256 C) (authority_preimage a) (authority_preimage b))"
proof -
  have "embedded_preimage (p\<lparr>ep_signature := s\<rparr>) = embedded_preimage p" for s by (simp add: embedded_preimage_def)
  moreover have "authority_preimage (a\<lparr>ea_signature := s\<rparr>) = authority_preimage a" for s by (simp add: authority_preimage_def)
  ultimately show ?thesis
    using embedded_preimage_inject[OF assms(1,2)] authority_preimage_inject[OF assms(3,4)]
    unfolding collision_def embedded_signing_bytes_def embedded_authority_signing_bytes_def by metis
qed

definition sample_embedded :: embedded_packet where
  "sample_embedded = \<lparr>ep_version = ''1'', ep_id = ''p'', ep_source = ''s'', ep_destination = ''d'', ep_priority = ''P3'',
     ep_emergency = False, ep_created_at = [], ep_expires_at = None, ep_signer = ''s'', ep_algorithm = ''ed25519'',
     ep_payload = [1], ep_signature = []\<rparr>"

definition sample_grant :: embedded_authority where
  "sample_grant = \<lparr>ea_version = ''1'', ea_relay = ''r'', ea_trust_domain = ''d'', ea_kinds = [''packet''], ea_max_hop_count = Some 4,
     ea_rate_limit_per_minute = None, ea_valid_from = ''2026'', ea_valid_until = None, ea_issuer = ''i'',
     ea_signature = \<lparr>ee_algorithm = ''ed25519'', ee_signer = ''i'', ee_signature = []\<rparr>\<rparr>"

theorem embedded_signatures_bind_witness:
  "embedded_signing_bytes sample_crates sample_embedded =
     embedded_signing_bytes sample_crates (sample_embedded\<lparr>ep_created_at := ''2026''\<rparr>) \<longleftrightarrow>
   collision (cr_sha256 sample_crates) (embedded_preimage sample_embedded) (embedded_preimage (sample_embedded\<lparr>ep_created_at := ''2026''\<rparr>))"
proof -
  have c: "packet_caps sample_embedded" "packet_caps (sample_embedded\<lparr>ep_created_at := ''2026''\<rparr>)" "authority_caps sample_grant"
    by (simp_all add: sample_embedded_def sample_grant_def packet_caps_def authority_caps_def STRING_CAP_def PAYLOAD_CAP_def KINDS_CAP_def)
  from embedded_signatures_bind[OF c(1,2) c(3) c(3), of sample_crates] show ?thesis
    by (simp add: sample_embedded_def)
qed

text \<open>
  What an embedded device signs, it verifies: within the capacities and outside the emergency priority signing
  succeeds with a packet within its capacities, and the packet verifies under the device's public key
  until it expires, exactly when the signer is the source. Everything else is refused with an error.
\<close>

lemma embedded_sign_verify:
  assumes "ed25519_ok C" "\<And>p. length (cr_sign C key (embedded_signing_bytes C p)) = 64"
    and "case expires of Some e \<Rightarrow> now \<le> e | None \<Rightarrow> True"
  shows "case embedded_sign_packet C payload key signer packet_id source destination priority expires of
      Inl e \<Rightarrow> (case e of SP0NotEmergency \<Rightarrow> priority = ''P0''
        | SPayloadTooLarge \<Rightarrow> length payload > PAYLOAD_CAP
        | SFieldTooLarge \<Rightarrow> length priority > 8 \<or>
            (\<exists>s \<in> {packet_id, source, destination, signer} \<union> set_option expires. length s > STRING_CAP))
    | Inr p \<Rightarrow> packet_caps p \<and> ep_payload p = payload \<and> ep_destination p = destination \<and>
        embedded_verify_packet C p (cr_public C key) now = (if signer = source then Inr () else Inl VSignerMismatch)"
proof -
  have v: "check_raw_signature C (cr_public C key) (embedded_signing_bytes C p) (cr_sign C key (embedded_signing_bytes C p)) = Inr ()" for p
    using assms(1,2) by (simp add: check_raw_signature_def ed25519_ok_def)
  have sb: "embedded_signing_bytes C (p\<lparr>ep_signature := s\<rparr>) = embedded_signing_bytes C p" for p s
    by (simp add: embedded_signing_bytes_def embedded_preimage_def)
  show ?thesis
    using assms(3) by (cases expires)
      (auto simp: embedded_sign_packet_def hstring_def Let_def embedded_verify_packet_def packet_caps_def sb v
        simp del: embedded_packet.update_convs split: if_splits)
qed

end
