(* ===== verification/Channel.thy ===== *)
theory Channel
  imports Signed
begin

text \<open>
  Established sessions (\<open>SessionState\<close> of \<open>session.rs\<close>): key derivation, sequence-numbered frames under
  ChaCha20-Poly1305, and the in-band rekey. The ephemeral keys that the code draws from the system's random
  generator when no seed is given are arguments.
\<close>

subsection \<open>Frames\<close>

datatype session_frame =
    DataFrame json
  | RekeyReq string
  | RekeyAck string
  | Close "string option"
  | Ping string
  | Pong string

datatype session_error =
    SessionGeneric string
  | SessionAead "64 word"
  | SessionCrypto string

text \<open>Besides the crates of \<open>Crypto\<close>: what x25519-dalek stores for a seed, the derived deserialiser of frames
  with the text of its errors, and the post-quantum crate (its sizes, parsers, signer and verifier).\<close>

record session_crates =
  sx_base :: crates
  sx_secret :: "bytes \<Rightarrow> bytes"
  sx_frame_of_json :: "json \<Rightarrow> string + session_frame"
  sx_sk_len :: nat
  sx_pk_len :: nat
  sx_sig_len :: nat
  sx_sk_error :: "bytes \<Rightarrow> string option"
  sx_pq_sign :: "bytes \<Rightarrow> bytes \<Rightarrow> string + bytes"
  sx_pk_ok :: "bytes \<Rightarrow> bool"
  sx_pq_verify :: "bytes \<Rightarrow> bytes \<Rightarrow> bytes \<Rightarrow> bool"

text \<open>The derived serialiser: an internally tagged object.\<close>

fun frame_fields :: "session_frame \<Rightarrow> (string \<times> json option) list" where
  "frame_fields (DataFrame payload) = [(''kind'', Some (JString ''data'')), (''payload'', Some payload)]"
| "frame_fields (RekeyReq eph_pub) = [(''kind'', Some (JString ''rekey-req'')), (''eph_pub'', Some (JString eph_pub))]"
| "frame_fields (RekeyAck eph_pub) = [(''kind'', Some (JString ''rekey-ack'')), (''eph_pub'', Some (JString eph_pub))]"
| "frame_fields (Close reason) = [(''kind'', Some (JString ''close'')), (''reason'', map_option JString reason)]"
| "frame_fields (Ping nonce) = [(''kind'', Some (JString ''ping'')), (''nonce'', Some (JString nonce))]"
| "frame_fields (Pong nonce) = [(''kind'', Some (JString ''pong'')), (''nonce'', Some (JString nonce))]"

definition frame_json :: "session_frame \<Rightarrow> json" where
  "frame_json f = JObject (sort_entries (present (frame_fields f)))"

definition session_canonicalize :: "crates \<Rightarrow> json \<Rightarrow> session_error + string" where
  "session_canonicalize C v = map_err (\<lambda>e. SessionGeneric (canonical_error_str e)) (canon C v)"

definition session_b64decode :: "string \<Rightarrow> session_error + bytes" where
  "session_b64decode s = map_err (\<lambda>e. SessionCrypto (crypto_error_str e)) (b64decode s)"

text \<open>\<open>try_into\<close> to an array of 32 bytes.\<close>

definition key32 :: "bytes \<Rightarrow> session_error + bytes" where
  "key32 b = (if length b = 32 then Inr b else Inl (SessionGeneric ''eph_pub not 32 bytes''))"

subsection \<open>Session state\<close>

datatype role = InitiatorRole | ResponderRole

record session_state =
  ss_self_actor :: string
  ss_peer_actor :: string
  ss_peer_actor_claim :: "string option"
  ss_session_id :: bytes
  ss_generation :: "32 word"
  ss_send_key :: bytes
  ss_recv_key :: bytes
  ss_send_seq :: "64 word"
  ss_recv_seq :: "64 word"
  ss_closed :: bool
  ss_pending_rekey_priv :: "bytes option"

definition derive_with_claim ::
    "crates \<Rightarrow> role \<Rightarrow> bytes \<Rightarrow> bytes \<Rightarrow> bytes \<Rightarrow> string \<Rightarrow> string \<Rightarrow> string option \<Rightarrow> session_state" where
  "derive_with_claim C role shared_secret session_id transcript_hash self_actor peer_actor peer_actor_claim =
     (let info = as_bytes ''tf-session/v0/keys'' @ transcript_hash;
          ikm = cr_hkdf C shared_secret session_id info 64;
          i_to_r = take 32 ikm;
          r_to_i = take 32 (drop 32 ikm);
          (send_key, recv_key) = (case role of InitiatorRole \<Rightarrow> (i_to_r, r_to_i) | ResponderRole \<Rightarrow> (r_to_i, i_to_r))
      in \<lparr>ss_self_actor = self_actor, ss_peer_actor = peer_actor, ss_peer_actor_claim = peer_actor_claim,
          ss_session_id = session_id, ss_generation = 0, ss_send_key = send_key, ss_recv_key = recv_key,
          ss_send_seq = 0, ss_recv_seq = 0, ss_closed = False, ss_pending_rekey_priv = None\<rparr>)"

definition derive ::
    "crates \<Rightarrow> role \<Rightarrow> bytes \<Rightarrow> bytes \<Rightarrow> bytes \<Rightarrow> string \<Rightarrow> string \<Rightarrow> session_state" where
  "derive C role shared_secret session_id transcript_hash self_actor peer_actor =
     derive_with_claim C role shared_secret session_id transcript_hash self_actor peer_actor None"

definition nonce_for :: "64 word \<Rightarrow> bytes" where
  "nonce_for seq = replicate 4 0 @ be_bytes 8 (unat seq)"

definition make_aad :: "nat \<Rightarrow> 64 word \<Rightarrow> bytes" where
  "make_aad len seq = be_bytes 4 len @ be_bytes 8 (unat seq)"

definition encrypt :: "session_crates \<Rightarrow> session_frame \<Rightarrow> session_state \<Rightarrow> (session_error + bytes) \<times> session_state" where
  "encrypt X frame s =
     (if ss_closed s then (Inl (SessionGeneric ''session is closed''), s)
      else (case session_canonicalize (sx_base X) (frame_json frame) of
        Inl e \<Rightarrow> (Inl e, s)
      | Inr body \<Rightarrow>
          let plaintext = as_bytes body; seq = ss_send_seq s; nonce = nonce_for seq; len = 8 + length plaintext + 16
          in if len > 2 ^ 32 - 1 then (Inl (SessionGeneric ''frame too long''), s)
             else (Inr (be_bytes 4 len @ be_bytes 8 (unat seq) @
                     cr_aead_encrypt (sx_base X) (ss_send_key s) nonce (make_aad len seq) plaintext),
                   s\<lparr>ss_send_seq := seq + 1\<rparr>)))"

definition read_plaintext :: "session_crates \<Rightarrow> bytes \<Rightarrow> session_error + session_frame" where
  "read_plaintext X pt =
     rbind (map_err SessionGeneric (cr_json_parse (sx_base X) pt)) (\<lambda>value.
       map_err SessionGeneric (sx_frame_of_json X value))"

definition decrypt :: "session_crates \<Rightarrow> bytes \<Rightarrow> session_state \<Rightarrow> (session_error + session_frame) \<times> session_state" where
  "decrypt X bs s =
     (if ss_closed s then (Inl (SessionGeneric ''session is closed''), s)
      else if length bs < 12 + 16 then (Inl (SessionGeneric ''frame too short''), s)
      else
        let len = be_nat (take 4 bs); seq = word_of_nat (be_nat (take 8 (drop 4 bs))) :: 64 word
        in if 4 + len \<noteq> length bs then (Inl (SessionGeneric ''length mismatch''), s)
           else if seq \<noteq> ss_recv_seq s then
             (Inl (SessionGeneric (''out-of-order frame: got '' @ show_nat (unat seq) @ '', expected '' @
                show_nat (unat (ss_recv_seq s)))), s)
           else (case cr_aead_decrypt (sx_base X) (ss_recv_key s) (nonce_for seq) (make_aad len seq) (drop 12 bs) of
               None \<Rightarrow> (Inl (SessionAead seq), s)
             | Some pt \<Rightarrow> (case read_plaintext X pt of
                 Inl e \<Rightarrow> (Inl e, s)
               | Inr frame \<Rightarrow> (Inr frame, s\<lparr>ss_recv_seq := seq + 1\<rparr>))))"

subsection \<open>Rekeying\<close>

text \<open>A pair of private and public key, from the seed or from the random generator.\<close>

definition make_ephemeral :: "session_crates \<Rightarrow> bytes option \<Rightarrow> bytes \<Rightarrow> bytes \<times> bytes" where
  "make_ephemeral X seed random =
     (let s = (case seed of Some s \<Rightarrow> s | None \<Rightarrow> random)
      in (sx_secret X s, cr_x25519_public (sx_base X) s))"

definition rotate_keys :: "crates \<Rightarrow> bytes \<Rightarrow> session_state \<Rightarrow> session_state" where
  "rotate_keys C shared s =
     (let send_is_lower = hex_lower (ss_send_key s) < hex_lower (ss_recv_key s);
          lo = (if send_is_lower then ss_send_key s else ss_recv_key s);
          hi = (if send_is_lower then ss_recv_key s else ss_send_key s);
          prev_hash = cr_sha256 C (lo @ hi);
          info = as_bytes (''tf-session/v0/keys/g'' @ show_nat (unat (ss_generation s + 1))) @ prev_hash;
          ikm = cr_hkdf C shared (ss_session_id s) info 64;
          k1 = take 32 ikm;
          k2 = take 32 (drop 32 ikm)
      in s\<lparr>ss_send_key := (if send_is_lower then k1 else k2), ss_recv_key := (if send_is_lower then k2 else k1),
           ss_send_seq := 0, ss_recv_seq := 0, ss_generation := ss_generation s + 1\<rparr>)"

definition request_rekey ::
    "session_crates \<Rightarrow> bytes option \<Rightarrow> bytes \<Rightarrow> session_state \<Rightarrow> (session_error + bytes) \<times> session_state" where
  "request_rekey X seed random s =
     (let (priv, pub) = make_ephemeral X seed random
      in encrypt X (RekeyReq (base64_encode STANDARD pub)) (s\<lparr>ss_pending_rekey_priv := Some priv\<rparr>))"

definition process_rekey_req ::
    "session_crates \<Rightarrow> string \<Rightarrow> bytes option \<Rightarrow> bytes \<Rightarrow> session_state \<Rightarrow> (session_error + bytes) \<times> session_state" where
  "process_rekey_req X peer_eph_pub_b64 seed random s =
     (let (priv, pub) = make_ephemeral X seed random
      in case rbind (session_b64decode peer_eph_pub_b64) key32 of
        Inl e \<Rightarrow> (Inl e, s)
      | Inr peer_eph \<Rightarrow>
          let shared = cr_x25519 (sx_base X) priv peer_eph
          in (case encrypt X (RekeyAck (base64_encode STANDARD pub)) s of
              (Inl e, s') \<Rightarrow> (Inl e, s')
            | (Inr ack, s') \<Rightarrow> (Inr ack, rotate_keys (sx_base X) shared s')))"

definition process_rekey_ack ::
    "session_crates \<Rightarrow> string \<Rightarrow> session_state \<Rightarrow> (session_error + unit) \<times> session_state" where
  "process_rekey_ack X peer_eph_pub_b64 s =
     (case ss_pending_rekey_priv s of
        None \<Rightarrow> (Inl (SessionGeneric ''no pending rekey''), s)
      | Some pending \<Rightarrow>
          let s' = s\<lparr>ss_pending_rekey_priv := None\<rparr>
          in (case rbind (session_b64decode peer_eph_pub_b64) key32 of
              Inl e \<Rightarrow> (Inl e, s')
            | Inr peer_eph \<Rightarrow>
                (Inr (), rotate_keys (sx_base X) (cr_x25519 (sx_base X) pending peer_eph) s')))"

subsection \<open>What the code relies on\<close>

text \<open>Decryption inverts encryption, and the tag is 16 bytes.\<close>

definition aead_ok :: "crates \<Rightarrow> bool" where
  "aead_ok C = (\<forall>k n aad p. cr_aead_decrypt C k n aad (cr_aead_encrypt C k n aad p) = Some p \<and>
     length (cr_aead_encrypt C k n aad p) = length p + 16)"

text \<open>Both sides of an exchange compute the same secret, and public keys are 32 bytes.\<close>

definition dh_ok :: "session_crates \<Rightarrow> bool" where
  "dh_ok X = (\<forall>a b. length (cr_x25519_public (sx_base X) a) = 32 \<and>
     cr_x25519 (sx_base X) (sx_secret X a) (cr_x25519_public (sx_base X) b) =
     cr_x25519 (sx_base X) (sx_secret X b) (cr_x25519_public (sx_base X) a))"

text \<open>A frame whose text fits a frame and is read back by the parser and the derived deserialiser.\<close>

definition frame_ok :: "session_crates \<Rightarrow> session_frame \<Rightarrow> bool" where
  "frame_ok X f = (\<exists>t v. session_canonicalize (sx_base X) (frame_json f) = Inr t \<and> length t + 24 < 2 ^ 32 \<and>
     cr_json_parse (sx_base X) (as_bytes t) = Inr v \<and> sx_frame_of_json X v = Inr f)"

subsection \<open>Delivery\<close>

text \<open>The contract of a sequenced channel: what an end sends while the other end is in step is received,
  and the ends stay in step.\<close>

locale sequenced_channel =
  fixes send :: "'f \<Rightarrow> 's \<Rightarrow> ('e + 'p) \<times> 's"
    and recv :: "'p \<Rightarrow> 's \<Rightarrow> ('d + 'f) \<times> 's"
    and in_step :: "'s \<Rightarrow> 's \<Rightarrow> bool"
    and ok :: "'f \<Rightarrow> bool"
  assumes delivers: "in_step a b \<Longrightarrow> ok f \<Longrightarrow>
    \<exists>p a' b'. send f a = (Inr p, a') \<and> recv p b = (Inr f, b') \<and> in_step a' b'"
begin

lemma delivers_all:
  "in_step a b \<Longrightarrow> list_all ok fs \<Longrightarrow>
    \<exists>ps a' b'. run_all send fs a = (map Inr ps, a') \<and> run_all recv ps b = (map Inr fs, b') \<and> in_step a' b'"
proof (induction fs arbitrary: a b)
  case Nil
  then show ?case by (intro exI[of _ "[]"]) simp
next
  case (Cons f fs)
  then obtain p a1 b1 where 1: "send f a = (Inr p, a1)" "recv p b = (Inr f, b1)" "in_step a1 b1"
    using delivers[of a b f] by auto
  with Cons.IH[of a1 b1] Cons.prems obtain ps a' b' where
    "run_all send fs a1 = (map Inr ps, a')" "run_all recv ps b1 = (map Inr fs, b')" "in_step a' b'" by auto
  with 1 show ?case by (intro exI[of _ "p # ps"] exI[of _ a'] exI[of _ b']) simp
qed

end

definition mirrored :: "session_state \<Rightarrow> session_state \<Rightarrow> bool" where
  "mirrored a b = (ss_send_key a = ss_recv_key b \<and> ss_recv_key a = ss_send_key b \<and> ss_send_seq a = ss_recv_seq b \<and>
     ss_recv_seq a = ss_send_seq b \<and> ss_session_id a = ss_session_id b \<and> ss_generation a = ss_generation b \<and>
     \<not> ss_closed a \<and> \<not> ss_closed b)"

lemma mirrored_sym: "mirrored a b \<longleftrightarrow> mirrored b a"
  by (auto simp: mirrored_def)

definition wire :: "session_crates \<Rightarrow> session_frame \<Rightarrow> session_state \<Rightarrow> bytes" where
  "wire X f s = (let body = as_bytes (unwrap_or_default (session_canonicalize (sx_base X) (frame_json f))); len = length body + 24
     in be_bytes 4 len @ be_bytes 8 (unat (ss_send_seq s)) @
        cr_aead_encrypt (sx_base X) (ss_send_key s) (nonce_for (ss_send_seq s)) (make_aad len (ss_send_seq s)) body)"

lemma encrypt_frame:
  assumes "frame_ok X f" "\<not> ss_closed s"
  shows "encrypt X f s = (Inr (wire X f s), s\<lparr>ss_send_seq := ss_send_seq s + 1\<rparr>)"
proof -
  obtain t where t: "session_canonicalize (sx_base X) (frame_json f) = Inr t" "length t + 24 < 2 ^ 32"
    using assms(1) by (auto simp: frame_ok_def)
  then show ?thesis using assms(2) by (simp add: encrypt_def wire_def Let_def add.commute)
qed

lemma wire_parts:
  assumes "frame_ok X f" "aead_ok (sx_base X)"
  obtains t where "session_canonicalize (sx_base X) (frame_json f) = Inr t"
    "length (wire X f s) = length t + 28" "be_nat (take 4 (wire X f s)) = length t + 24"
    "be_nat (take 8 (drop 4 (wire X f s))) = unat (ss_send_seq s)"
    "drop 12 (wire X f s) = cr_aead_encrypt (sx_base X) (ss_send_key s) (nonce_for (ss_send_seq s))
       (make_aad (length t + 24) (ss_send_seq s)) (as_bytes t)"
proof -
  obtain t where t: "session_canonicalize (sx_base X) (frame_json f) = Inr t" "length t + 24 < 2 ^ 32"
    using assms(1) by (auto simp: frame_ok_def)
  have "be_nat (be_bytes 4 (length t + 24)) = length t + 24"
    using t(2) by (intro be_nat_be_bytes) simp
  moreover have "be_nat (be_bytes 8 (unat (ss_send_seq s))) = unat (ss_send_seq s)"
    using unsigned_less[of "ss_send_seq s", where 'a = nat] by (intro be_nat_be_bytes) simp
  ultimately show thesis
    using t(1) assms(2) by (intro that[of t]) (simp_all add: wire_def Let_def aead_ok_def)
qed

lemma decrypt_wire:
  assumes "frame_ok X f" "aead_ok (sx_base X)" "\<not> ss_closed b"
  shows "ss_send_key a = ss_recv_key b \<Longrightarrow> ss_send_seq a = ss_recv_seq b \<Longrightarrow>
      decrypt X (wire X f a) b = (Inr f, b\<lparr>ss_recv_seq := ss_recv_seq b + 1\<rparr>)"
    and "ss_send_seq a \<noteq> ss_recv_seq b \<Longrightarrow> decrypt X (wire X f a) b =
      (Inl (SessionGeneric (''out-of-order frame: got '' @ show_nat (unat (ss_send_seq a)) @ '', expected '' @
         show_nat (unat (ss_recv_seq b)))), b)"
proof -
  obtain t where t: "session_canonicalize (sx_base X) (frame_json f) = Inr t"
    "length (wire X f a) = length t + 28" "be_nat (take 4 (wire X f a)) = length t + 24"
    "be_nat (take 8 (drop 4 (wire X f a))) = unat (ss_send_seq a)"
    "drop 12 (wire X f a) = cr_aead_encrypt (sx_base X) (ss_send_key a) (nonce_for (ss_send_seq a))
       (make_aad (length t + 24) (ss_send_seq a)) (as_bytes t)"
    by (rule wire_parts[OF assms(1,2)])
  show "ss_send_key a = ss_recv_key b \<Longrightarrow> ss_send_seq a = ss_recv_seq b \<Longrightarrow>
      decrypt X (wire X f a) b = (Inr f, b\<lparr>ss_recv_seq := ss_recv_seq b + 1\<rparr>)"
    and "ss_send_seq a \<noteq> ss_recv_seq b \<Longrightarrow> decrypt X (wire X f a) b =
      (Inl (SessionGeneric (''out-of-order frame: got '' @ show_nat (unat (ss_send_seq a)) @ '', expected '' @
         show_nat (unat (ss_recv_seq b)))), b)"
    using t assms by (auto simp: decrypt_def Let_def frame_ok_def aead_ok_def read_plaintext_def)
qed

text \<open>One direction of a session, and the other, are sequenced channels.\<close>

interpretation session_channel: sequenced_channel "encrypt X" "decrypt X" mirrored
  "\<lambda>f. aead_ok (sx_base X) \<and> frame_ok X f" for X
proof
  fix a b f
  assume m: "mirrored a b" and f: "aead_ok (sx_base X) \<and> frame_ok X f"
  show "\<exists>p a' b'. encrypt X f a = (Inr p, a') \<and> decrypt X p b = (Inr f, b') \<and> mirrored a' b'"
    using m f by (simp add: encrypt_frame decrypt_wire mirrored_def)
qed






subsection \<open>Rekeying keeps the ends in step\<close>

lemma hex_lower_inject: "hex_lower a = hex_lower b \<longleftrightarrow> a = b"
  by (metis Inr_inject parse_hex_hex_lower)

lemma rotate_keys_mirrored:
  assumes "mirrored a b" "ss_send_key a \<noteq> ss_recv_key a"
  shows "mirrored (rotate_keys C shared a) (rotate_keys C shared b)"
proof -
  have "hex_lower (ss_recv_key a) < hex_lower (ss_send_key a) \<longleftrightarrow> \<not> hex_lower (ss_send_key a) < hex_lower (ss_recv_key a)"
    using assms(2) hex_lower_inject[of "ss_send_key a" "ss_recv_key a"] by auto
  then show ?thesis using assms(1) by (auto simp: mirrored_def rotate_keys_def Let_def)
qed

lemma rotate_keys_fresh:
  "ss_generation (rotate_keys C shared s) = ss_generation s + 1" "ss_send_seq (rotate_keys C shared s) = 0"
  "ss_recv_seq (rotate_keys C shared s) = 0" "ss_closed (rotate_keys C shared s) = ss_closed s"
  by (simp_all add: rotate_keys_def Let_def)

lemma decode_key: "length k = 32 \<Longrightarrow> rbind (session_b64decode (base64_encode STANDARD k)) key32 = Inr k"
  by (simp add: session_b64decode_def b64decode_def key32_def)

definition eph_text :: "session_crates \<Rightarrow> bytes option \<Rightarrow> bytes \<Rightarrow> string" where
  "eph_text X seed random = base64_encode STANDARD (snd (make_ephemeral X seed random))"

text \<open>The context string of a generation: the label with its number, and the digest of the keys that it replaces,
  the lower one first. Equal context strings belong to the same generation, and none is that of the handshake.\<close>

definition key_info :: "crates \<Rightarrow> 32 word \<Rightarrow> bytes \<Rightarrow> bytes" where
  "key_info C g previous = as_bytes (''tf-session/v0/keys/g'' @ show_nat (unat g)) @ cr_sha256 C previous"

definition sends_lower :: "session_state \<Rightarrow> bool" where
  "sends_lower s = (hex_lower (ss_send_key s) < hex_lower (ss_recv_key s))"

definition key_pair :: "session_state \<Rightarrow> bytes" where
  "key_pair s = (if sends_lower s then ss_send_key s @ ss_recv_key s else ss_recv_key s @ ss_send_key s)"

lemma key_info_generation:
  assumes "digest_ok C" "key_info C g x = key_info C g' y"
  shows "g = g'"
proof -
  have "''tf-session/v0/keys/g'' @ show_nat (unat g) = ''tf-session/v0/keys/g'' @ show_nat (unat g')"
    using assms unfolding key_info_def digest_ok_def by (metis append_eq_append_conv as_bytes_inject)
  then show ?thesis by (simp only: same_append_eq show_nat_inject unsigned_word_eqI)
qed

lemma key_info_handshake:
  assumes "digest_ok C" "length th = 32"
  shows "key_info C g x \<noteq> as_bytes ''tf-session/v0/keys'' @ th"
proof
  assume "key_info C g x = as_bytes ''tf-session/v0/keys'' @ th"
  then have "''tf-session/v0/keys/g'' @ show_nat (unat g) = ''tf-session/v0/keys''"
    using assms unfolding key_info_def digest_ok_def by (metis append_eq_append_conv as_bytes_inject)
  from arg_cong[OF this, of length] show False by simp
qed

lemma rotate_keys_keys:
  "(ss_send_key (rotate_keys C shared s), ss_recv_key (rotate_keys C shared s)) =
     (let m = cr_hkdf C shared (ss_session_id s) (key_info C (ss_generation s + 1) (key_pair s)) 64
      in if sends_lower s then (take 32 m, take 32 (drop 32 m)) else (take 32 (drop 32 m), take 32 m))"
  by (simp add: rotate_keys_def key_info_def key_pair_def sends_lower_def Let_def)

text \<open>
  C39. Rekeying puts both ends under new keys, in step: when one end of a session asks for new keys and nothing
  else is in flight, the request and the acknowledgement are delivered, and both ends then hold matching keys of
  the next generation with both counters at zero. The new keys are the two halves of what HKDF derives from the
  secret of the two ephemeral keys, the session, the number of the generation and the keys replaced; no other
  generation, and not the handshake, derives its keys under that context string, so a key that came back with
  its counter at zero would be a coincidence of HKDF on different inputs.
\<close>

theorem session_rekey:
  assumes "aead_ok (sx_base X)" "dh_ok X" "digest_ok (sx_base X)" "mirrored a b" "ss_send_key a \<noteq> ss_recv_key a"
    and "frame_ok X (RekeyReq (eph_text X sa ra))" "frame_ok X (RekeyAck (eph_text X sb rb))"
  shows "\<exists>req a1 b1 ack b2 a2 a3. request_rekey X sa ra a = (Inr req, a1) \<and>
    decrypt X req b = (Inr (RekeyReq (eph_text X sa ra)), b1) \<and>
    process_rekey_req X (eph_text X sa ra) sb rb b1 = (Inr ack, b2) \<and>
    decrypt X ack a1 = (Inr (RekeyAck (eph_text X sb rb)), a2) \<and>
    process_rekey_ack X (eph_text X sb rb) a2 = (Inr (), a3) \<and>
    mirrored a3 b2 \<and> ss_generation a3 = ss_generation a + 1 \<and> ss_send_seq a3 = 0 \<and> ss_recv_seq a3 = 0 \<and>
    (let info = key_info (sx_base X) (ss_generation a + 1) (key_pair a);
         secret = cr_x25519 (sx_base X) (fst (make_ephemeral X sa ra)) (snd (make_ephemeral X sb rb));
         m = cr_hkdf (sx_base X) secret (ss_session_id a) info 64
     in (ss_send_key a3, ss_recv_key a3) =
          (if sends_lower a then (take 32 m, take 32 (drop 32 m)) else (take 32 (drop 32 m), take 32 m)) \<and>
        (\<forall>g old. g \<noteq> ss_generation a + 1 \<longrightarrow> key_info (sx_base X) g old \<noteq> info) \<and>
        (\<forall>th. length th = 32 \<longrightarrow> as_bytes ''tf-session/v0/keys'' @ th \<noteq> info))"
proof -
  obtain pa ea where ka: "make_ephemeral X sa ra = (pa, ea)" by (cases "make_ephemeral X sa ra")
  obtain pb eb where kb: "make_ephemeral X sb rb = (pb, eb)" by (cases "make_ephemeral X sb rb")
  have dh: "cr_x25519 (sx_base X) pa eb = cr_x25519 (sx_base X) pb ea" "length ea = 32" "length eb = 32"
    using ka kb assms(2) by (auto simp: make_ephemeral_def dh_ok_def Let_def)
  let ?req = "RekeyReq (eph_text X sa ra)" and ?ack = "RekeyAck (eph_text X sb rb)"
  let ?a0 = "a\<lparr>ss_pending_rekey_priv := Some pa\<rparr>"
  have "mirrored ?a0 b" using assms(4) by (simp add: mirrored_def)
  then obtain req a1 b1 where 1: "encrypt X ?req ?a0 = (Inr req, a1)" "decrypt X req b = (Inr ?req, b1)" "mirrored a1 b1"
    using session_channel.delivers[of ?a0 b X ?req] assms(1,6) by blast
  from 1(3) obtain ack b1' a2 where 2: "encrypt X ?ack b1 = (Inr ack, b1')" "decrypt X ack a1 = (Inr ?ack, a2)" "mirrored b1' a2"
    using session_channel.delivers[of b1 a1 X ?ack] assms(1,7) mirrored_sym by blast
  have a1: "a1 = ?a0\<lparr>ss_send_seq := ss_send_seq a + 1\<rparr>"
    using 1(1) encrypt_frame[OF assms(6), of ?a0] assms(4) by (simp add: mirrored_def)
  have a2: "a2 = a1\<lparr>ss_recv_seq := ss_recv_seq a1 + 1\<rparr>"
    using 2(1,2) 1(3) encrypt_frame[OF assms(7), of b1] decrypt_wire(1)[OF assms(7,1), of a1 b1] by (simp add: mirrored_def)
  let ?s = "cr_x25519 (sx_base X) pb ea"
  let ?a3 = "rotate_keys (sx_base X) ?s (a2\<lparr>ss_pending_rekey_priv := None\<rparr>)"
  have "mirrored (a2\<lparr>ss_pending_rekey_priv := None\<rparr>) b1'" using 2(3) by (auto simp: mirrored_def)
  then have "mirrored ?a3 (rotate_keys (sx_base X) ?s b1')"
    by (rule rotate_keys_mirrored) (use assms(5) a1 a2 in simp)
  moreover have "process_rekey_ack X (eph_text X sb rb) a2 = (Inr (), ?a3)"
    using dh a1 a2 by (simp add: process_rekey_ack_def eph_text_def kb decode_key Let_def)
  moreover have "process_rekey_req X (eph_text X sa ra) sb rb b1 = (Inr ack, rotate_keys (sx_base X) ?s b1')"
    using dh 2(1) by (simp add: process_rekey_req_def eph_text_def ka kb decode_key Let_def)
  moreover have "request_rekey X sa ra a = (Inr req, a1)"
    using 1(1) by (simp add: request_rekey_def ka eph_text_def)
  moreover have "ss_generation ?a3 = ss_generation a + 1" "ss_send_seq ?a3 = 0" "ss_recv_seq ?a3 = 0"
    by (simp_all add: rotate_keys_fresh a1 a2)
  moreover have "(ss_send_key ?a3, ss_recv_key ?a3) =
      (let m = cr_hkdf (sx_base X) (cr_x25519 (sx_base X) pa eb) (ss_session_id a)
             (key_info (sx_base X) (ss_generation a + 1) (key_pair a)) 64
       in if sends_lower a then (take 32 m, take 32 (drop 32 m)) else (take 32 (drop 32 m), take 32 m))"
    unfolding rotate_keys_keys dh(1) by (simp add: a1 a2 key_pair_def sends_lower_def)
  moreover have "\<forall>g old. g \<noteq> ss_generation a + 1 \<longrightarrow>
      key_info (sx_base X) g old \<noteq> key_info (sx_base X) (ss_generation a + 1) (key_pair a)"
    using key_info_generation[OF assms(3)] by blast
  moreover have "\<forall>th. length th = 32 \<longrightarrow>
      as_bytes ''tf-session/v0/keys'' @ th \<noteq> key_info (sx_base X) (ss_generation a + 1) (key_pair a)"
    using key_info_handshake[OF assms(3)] by metis
  ultimately show ?thesis
    using 1(2) 2(2) unfolding Let_def ka kb fst_conv snd_conv by blast
qed

subsection \<open>Examples\<close>

text \<open>Crates for the examples: a parser that hands the text over, and a deserialiser that knows a list of
  frames by their text.\<close>

definition pad32 :: "bytes \<Rightarrow> bytes" where
  "pad32 b = take 32 (b @ replicate 32 0)"

definition sample_base :: crates where
  "sample_base = sample_crates\<lparr>cr_json_parse := (\<lambda>b. Inr (JString (of_bytes b))), cr_x25519_public := pad32,
     cr_aead_encrypt := (\<lambda>k n aad p. p @ replicate 16 0), cr_aead_decrypt := (\<lambda>k n aad c. Some (take (length c - 16) c))\<rparr>"

definition sample_session :: "session_frame list \<Rightarrow> session_crates" where
  "sample_session frames = \<lparr>sx_base = sample_base, sx_secret = pad32,
     sx_frame_of_json = (\<lambda>v. case v of
         JString t \<Rightarrow> (case find (\<lambda>f. session_canonicalize sample_base (frame_json f) = Inr t) frames of
             Some f \<Rightarrow> Inr f | None \<Rightarrow> Inl ''unknown frame'')
       | _ \<Rightarrow> Inl ''not a frame''),
     sx_sk_len = 32, sx_pk_len = 32, sx_sig_len = 64, sx_sk_error = (\<lambda>_. None), sx_pq_sign = (\<lambda>k m. Inr (k @ m)),
     sx_pk_ok = (\<lambda>_. True), sx_pq_verify = (\<lambda>pk m s. s = pk @ m)\<rparr>"

definition sample_state :: session_state where
  "sample_state = derive sample_base InitiatorRole [1] [2] [3] ''a'' ''b''"

lemma map2_add_commute: "map2 (+) xs ys = map2 (+) ys (xs :: byte list)"
  by (induction xs ys rule: list_induct2') (simp_all add: add.commute)

lemma sample_session_ok:
  "aead_ok (sx_base (sample_session fs))" "dh_ok (sample_session fs)" "digest_ok (sx_base (sample_session fs))"
proof -
  have "length (pad32 b) = 32" for b by (simp add: pad32_def min_def)
  then show "aead_ok (sx_base (sample_session fs))" "dh_ok (sample_session fs)" "digest_ok (sx_base (sample_session fs))"
    by (simp_all add: aead_ok_def dh_ok_def digest_ok_def sample_session_def sample_base_def sample_crates_def map2_add_commute min_def)
qed

lemma length_write_json_string: "length (write_json_string s) \<le> 6 * length s + 2"
proof -
  have "length (escape_char c) \<le> 6" for c by (simp add: escape_char_def)
  then have "length (concat (map escape_char s)) \<le> 6 * length s"
    by (induction s) (auto intro: add_mono)
  then show ?thesis by (simp add: write_json_string_def)
qed

lemma length_base64_encode: "length (base64_encode e bs) \<le> 2 * length bs + 4"
  unfolding base64_encode_def by (induction e bs rule: encode_chunks.induct) (simp_all add: Let_def)

text \<open>The text of a frame with one string.\<close>

definition frame_text :: "string \<Rightarrow> string \<Rightarrow> string \<Rightarrow> string \<Rightarrow> string" where
  "frame_text k v k' v' = ''{'' @ write_json_string k @ '':'' @ write_json_string v @ '','' @ write_json_string k' @ '':'' @
     write_json_string v' @ ''}''"

lemma sample_texts:
  "session_canonicalize sample_base (frame_json (Ping n)) = Inr (frame_text ''kind'' ''ping'' ''nonce'' n)"
  "session_canonicalize sample_base (frame_json (RekeyReq e)) = Inr (frame_text ''eph_pub'' e ''kind'' ''rekey-req'')"
  "session_canonicalize sample_base (frame_json (RekeyAck e)) = Inr (frame_text ''eph_pub'' e ''kind'' ''rekey-ack'')"
  by (simp_all add: session_canonicalize_def canon_def canonicalize_def frame_json_def sort_entries_def sample_base_def
      sample_crates_def frame_text_def)

lemma sample_text_distinct: "frame_text ''eph_pub'' e ''kind'' ''rekey-req'' \<noteq> frame_text ''eph_pub'' e ''kind'' ''rekey-ack''"
  by (simp add: frame_text_def write_json_string_def escape_char_def)

lemma sample_frame_ok:
  assumes "length e \<le> 100"
  shows "frame_ok (sample_session [RekeyReq e, RekeyAck e]) (RekeyReq e)"
    "frame_ok (sample_session [RekeyReq e, RekeyAck e]) (RekeyAck e)"
    "frame_ok (sample_session [Ping e]) (Ping e)"
proof -
  have sample_parse: "cr_json_parse sample_base bs = Inr (JString (of_bytes bs))" for bs by (simp add: sample_base_def)
  have b: "length (frame_text k v k' v') + 24 < 2 ^ 32"
    if "length k \<le> 100" "length v \<le> 100" "length k' \<le> 100" "length v' \<le> 100" for k v k' v'
  proof -
    have "length (frame_text k v k' v') \<le> 2413"
      using that length_write_json_string[of k] length_write_json_string[of v] length_write_json_string[of k']
        length_write_json_string[of v'] by (simp add: frame_text_def)
    then have "length (frame_text k v k' v') + 24 \<le> 2437" by simp
    then show ?thesis by (rule le_less_trans) simp
  qed
  show "frame_ok (sample_session [RekeyReq e, RekeyAck e]) (RekeyReq e)"
    "frame_ok (sample_session [RekeyReq e, RekeyAck e]) (RekeyAck e)"
    "frame_ok (sample_session [Ping e]) (Ping e)"
    unfolding frame_ok_def using assms b[of "''eph_pub''" e "''kind''" "''rekey-req''"]
      b[of "''eph_pub''" e "''kind''" "''rekey-ack''"] b[of "''kind''" "''ping''" "''nonce''" e] sample_text_distinct[of e]
    by (simp_all add: sample_session_def sample_texts sample_parse)
qed

lemma sample_state_open: "mirrored (sample_state\<lparr>ss_recv_key := k\<rparr>) (sample_state\<lparr>ss_recv_key := ss_send_key sample_state, ss_send_key := k\<rparr>)"
  by (simp add: mirrored_def sample_state_def derive_def derive_with_claim_def Let_def)


theorem session_rekey_witness:
  "\<exists>e req a1 b1 ack b2 a2 a3. request_rekey (sample_session [RekeyReq e, RekeyAck e]) (Some [9]) [] (sample_state\<lparr>ss_recv_key := [1]\<rparr>) = (Inr req, a1) \<and>
    decrypt (sample_session [RekeyReq e, RekeyAck e]) req
      (sample_state\<lparr>ss_recv_key := ss_send_key sample_state, ss_send_key := [1]\<rparr>) = (Inr (RekeyReq e), b1) \<and>
    process_rekey_req (sample_session [RekeyReq e, RekeyAck e]) e (Some [9]) [] b1 = (Inr ack, b2) \<and>
    decrypt (sample_session [RekeyReq e, RekeyAck e]) ack a1 = (Inr (RekeyAck e), a2) \<and>
    process_rekey_ack (sample_session [RekeyReq e, RekeyAck e]) e a2 = (Inr (), a3) \<and> mirrored a3 b2 \<and> length (ss_send_key a3) = 32"
proof -
  define e where "e = base64_encode STANDARD (pad32 [9])"
  let ?X = "sample_session [RekeyReq e, RekeyAck e]"
  have e: "eph_text ?X (Some [9]) [] = e" by (simp add: eph_text_def make_ephemeral_def sample_session_def sample_base_def e_def Let_def)
  have "length (pad32 [9]) = 32" by (simp add: pad32_def)
  then have "length e \<le> 100" using length_base64_encode[of STANDARD "pad32 [9]"] by (simp add: e_def)
  note f = sample_frame_ok(1,2)[OF this]
  have "length (ss_send_key sample_state) = 32"
    by (simp add: sample_state_def derive_def derive_with_claim_def Let_def sample_base_def sample_crates_def)
  then have k: "ss_send_key (sample_state\<lparr>ss_recv_key := [1]\<rparr>) \<noteq> ss_recv_key (sample_state\<lparr>ss_recv_key := [1]\<rparr>)" by auto
  have len: "length (cr_hkdf (sx_base ?X) k salt info 64) = 64" for k salt info
    by (simp add: sample_session_def sample_base_def sample_crates_def)
  from session_rekey[where X = ?X, OF sample_session_ok sample_state_open k, where sa = "Some [9]" and sb = "Some [9]" and ra = "[]" and rb = "[]",
      unfolded e, OF f] obtain req a1 b1 ack b2 a2 a3 m where
    run: "request_rekey ?X (Some [9]) [] (sample_state\<lparr>ss_recv_key := [1]\<rparr>) = (Inr req, a1)"
      "decrypt ?X req (sample_state\<lparr>ss_recv_key := ss_send_key sample_state, ss_send_key := [1]\<rparr>) = (Inr (RekeyReq e), b1)"
      "process_rekey_req ?X e (Some [9]) [] b1 = (Inr ack, b2)" "decrypt ?X ack a1 = (Inr (RekeyAck e), a2)"
      "process_rekey_ack ?X e a2 = (Inr (), a3)" "mirrored a3 b2"
    and m: "length m = 64" "(ss_send_key a3, ss_recv_key a3) =
        (if sends_lower (sample_state\<lparr>ss_recv_key := [1]\<rparr>) then (take 32 m, take 32 (drop 32 m)) else (take 32 (drop 32 m), take 32 m))"
    unfolding Let_def by (metis len)
  from m have "length (ss_send_key a3) = 32" by (simp split: if_splits)
  with run show ?thesis by blast
qed

end
