(* ===== verification/Session.thy ===== *)
theory Session
  imports Channel Identifiers
begin

text \<open>
  The handshake of \<open>session.rs\<close>: \<open>HelloI\<close>, \<open>HelloR\<close> and \<open>Auth\<close> between an \<open>Initiator\<close> and a
  \<open>Responder\<close>, with suite negotiation and the optional ML-DSA-65 signatures of the hybrid suite
  (\<open>crypto_pq.rs\<close>). The values that the code draws from the random generator are arguments.
\<close>

subsection \<open>Messages\<close>

definition SESSION_VERSION :: "32 word" where
  "SESSION_VERSION = 0"

definition SESSION_SUITE :: string where
  "SESSION_SUITE = ''x25519-hkdf-sha256-chacha20poly1305-ed25519''"

definition SESSION_SUITE_HYBRID_ED25519_MLDSA65 :: string where
  "SESSION_SUITE_HYBRID_ED25519_MLDSA65 = ''x25519-hkdf-sha256-chacha20poly1305-ed25519+ml-dsa-65''"

definition KNOWN_SESSION_SUITES :: "string list" where
  "KNOWN_SESSION_SUITES = [SESSION_SUITE, SESSION_SUITE_HYBRID_ED25519_MLDSA65]"

definition is_hybrid_suite :: "string \<Rightarrow> bool" where
  "is_hybrid_suite suite =
     (length ''+ml-dsa-65'' \<le> length suite \<and> drop (length suite - length ''+ml-dsa-65'') suite = ''+ml-dsa-65'')"

record hello_i =
  hi_version :: "32 word"
  hi_suite :: string
  hi_supported_suites :: "string list option"
  hi_session_id :: string
  hi_peer_hint :: string
  hi_self_hint :: "string option"
  hi_eph_pub :: string

record hello_r =
  hr_eph_pub :: string
  hr_ident_pub :: string
  hr_selected_suite :: "string option"
  hr_self_hint :: "string option"
  hr_signature_mldsa :: "string option"
  hr_ident_pub_mldsa :: "string option"
  hr_signature :: string

record auth =
  au_ident_pub :: string
  au_signature_mldsa :: "string option"
  au_ident_pub_mldsa :: "string option"
  au_signature :: string

record session_config =
  sc_self_actor :: string
  sc_peer_hint :: "string option"
  sc_self_hint :: "string option"
  sc_identity_priv :: bytes
  sc_identity_pub :: bytes
  sc_preferred_suite :: "string option"
  sc_supported_suites :: "string list option"
  sc_identity_mldsa_priv :: "bytes option"
  sc_identity_mldsa_pub :: "bytes option"
  sc_eph_seed :: "bytes option"
  sc_session_id_seed :: "bytes option"

text \<open>The derived serialisers, with the tag \<open>kind\<close>.\<close>

definition hello_i_fields :: "hello_i \<Rightarrow> (string \<times> json option) list" where
  "hello_i_fields m =
     [(''kind'', Some (JString ''hello-i'')), (''version'', Some (u32_json (hi_version m))), (''suite'', Some (JString (hi_suite m))),
      (''supported_suites'', map_option strings_json (hi_supported_suites m)), (''session_id'', Some (JString (hi_session_id m))),
      (''peer_hint'', Some (JString (hi_peer_hint m))), (''self_hint'', map_option JString (hi_self_hint m)),
      (''eph_pub'', Some (JString (hi_eph_pub m)))]"

definition hello_r_fields :: "hello_r \<Rightarrow> (string \<times> json option) list" where
  "hello_r_fields m =
     [(''kind'', Some (JString ''hello-r'')), (''eph_pub'', Some (JString (hr_eph_pub m))), (''ident_pub'', Some (JString (hr_ident_pub m))),
      (''selected_suite'', map_option JString (hr_selected_suite m)), (''self_hint'', map_option JString (hr_self_hint m)),
      (''signature_mldsa'', map_option JString (hr_signature_mldsa m)),
      (''ident_pub_mldsa'', map_option JString (hr_ident_pub_mldsa m)), (''signature'', Some (JString (hr_signature m)))]"

definition auth_fields :: "auth \<Rightarrow> (string \<times> json option) list" where
  "auth_fields m =
     [(''kind'', Some (JString ''auth'')), (''ident_pub'', Some (JString (au_ident_pub m))),
      (''signature_mldsa'', map_option JString (au_signature_mldsa m)),
      (''ident_pub_mldsa'', map_option JString (au_ident_pub_mldsa m)), (''signature'', Some (JString (au_signature m)))]"

definition message_json :: "(string \<times> json option) list \<Rightarrow> json" where
  "message_json t = JObject (sort_entries (present t))"

fun canonical_concat :: "crates \<Rightarrow> json list \<Rightarrow> session_error + string" where
  "canonical_concat C [] = Inr []"
| "canonical_concat C (v # vs) =
     rbind (session_canonicalize C v) (\<lambda>s. rbind (canonical_concat C vs) (\<lambda>r. Inr (s @ r)))"

subsection \<open>Post-quantum signatures\<close>

definition ml_dsa_65_sign :: "session_crates \<Rightarrow> bytes \<Rightarrow> bytes \<Rightarrow> crypto_error + bytes" where
  "ml_dsa_65_sign X private_key message =
     (if length private_key \<noteq> sx_sk_len X then Inl (Generic (''ml-dsa-65 priv must be '' @ show_nat (sx_sk_len X) @ '' bytes''))
      else (case sx_sk_error X private_key of
          Some e \<Rightarrow> Inl (Generic (''ml-dsa-65 priv parse: '' @ e))
        | None \<Rightarrow> map_err (\<lambda>e. Generic (''ml-dsa-65 sign: '' @ e)) (sx_pq_sign X private_key message)))"

definition ml_dsa_65_verify :: "session_crates \<Rightarrow> bytes \<Rightarrow> bytes \<Rightarrow> bytes \<Rightarrow> bool" where
  "ml_dsa_65_verify X public_key message signature =
     (length public_key = sx_pk_len X \<and> sx_pk_ok X public_key \<and> length signature = sx_sig_len X \<and>
      sx_pq_verify X public_key message signature)"

text \<open>The two checks of the hybrid suite; \<open>who\<close> and \<open>msg\<close> are the words of the error messages.\<close>

definition check_hybrid ::
    "session_crates \<Rightarrow> string \<Rightarrow> string \<Rightarrow> string \<Rightarrow> string option \<Rightarrow> string option \<Rightarrow> bytes \<Rightarrow> session_error + unit" where
  "check_hybrid X who msg suite signature_mldsa ident_pub_mldsa digest =
     (if \<not> is_hybrid_suite suite then Inr () else
      rbind (ok_or (SessionGeneric (''negotiated hybrid suite '' @ suite @ '' but '' @ msg @ '' missing signature_mldsa'')) signature_mldsa) (\<lambda>pq_sig_b64.
      rbind (ok_or (SessionGeneric (''negotiated hybrid suite '' @ suite @ '' but '' @ msg @ '' missing ident_pub_mldsa'')) ident_pub_mldsa) (\<lambda>pq_pub_b64.
      rbind (session_b64decode pq_sig_b64) (\<lambda>pq_sig.
      rbind (session_b64decode pq_pub_b64) (\<lambda>pq_pub.
        if ml_dsa_65_verify X pq_pub digest pq_sig then Inr ()
        else Inl (SessionGeneric (who @ '' ml-dsa-65 signature invalid'')))))))"

definition sign_hybrid ::
    "session_crates \<Rightarrow> string \<Rightarrow> string \<Rightarrow> bytes option \<Rightarrow> bytes \<Rightarrow> session_error + string option" where
  "sign_hybrid X who suite priv digest =
     (if \<not> is_hybrid_suite suite then Inr None else
      rbind (ok_or (SessionGeneric (''negotiated hybrid suite '' @ suite @ '' but '' @ who @ '' is missing identity_mldsa_priv'')) priv) (\<lambda>priv_bytes.
      rbind (map_err (\<lambda>e. SessionGeneric (crypto_error_str e)) (ml_dsa_65_sign X priv_bytes digest)) (\<lambda>pq_sig.
        Inr (Some (base64_encode STANDARD pq_sig)))))"

subsection \<open>The initiator\<close>

datatype initiator_state =
    InitiatorFresh
  | AwaitingHelloR hello_i bytes
  | InitiatorEstablished session_state

record initiator =
  in_cfg :: session_config
  in_state :: initiator_state

definition initiator_new :: "session_config \<Rightarrow> initiator" where
  "initiator_new cfg = \<lparr>in_cfg = cfg, in_state = InitiatorFresh\<rparr>"

definition initiator_session :: "initiator \<Rightarrow> session_state option" where
  "initiator_session ini = (case in_state ini of InitiatorEstablished s \<Rightarrow> Some s | _ \<Rightarrow> None)"

definition start ::
    "session_crates \<Rightarrow> bytes \<Rightarrow> bytes \<Rightarrow> initiator \<Rightarrow> (session_error + hello_i) \<times> initiator" where
  "start X random random_id ini =
     (if in_state ini \<noteq> InitiatorFresh then (Inl (SessionGeneric ''initiator already started''), ini)
      else
        let cfg = in_cfg ini;
            (eph_priv, eph_pub) = make_ephemeral X (sc_eph_seed cfg) random;
            session_id_bytes = unwrap_or (sc_session_id_seed cfg) random_id;
            preferred = unwrap_or (sc_preferred_suite cfg) SESSION_SUITE;
            supported = unwrap_or (sc_supported_suites cfg) KNOWN_SESSION_SUITES;
            hello = \<lparr>hi_version = SESSION_VERSION, hi_suite = preferred,
              hi_supported_suites = Some (preferred # filter (\<lambda>s. s \<noteq> preferred) supported),
              hi_session_id = base64_encode STANDARD session_id_bytes, hi_peer_hint = unwrap_or (sc_peer_hint cfg) [],
              hi_self_hint = sc_self_hint cfg, hi_eph_pub = base64_encode STANDARD eph_pub\<rparr>
        in (Inr hello, ini\<lparr>in_state := AwaitingHelloR hello eph_priv\<rparr>))"

definition identity_check :: "session_crates \<Rightarrow> string \<Rightarrow> string \<Rightarrow> string \<Rightarrow> bytes \<Rightarrow> session_error + bytes" where
  "identity_check X who ident_pub_b64 signature_b64 digest =
     rbind (session_b64decode ident_pub_b64) (\<lambda>ident_pub.
     rbind (session_b64decode signature_b64) (\<lambda>sig.
     rbind (map_err (\<lambda>_. SessionGeneric (who @ '' identity signature invalid'')) (ed25519_verify (sx_base X) ident_pub digest sig)) (\<lambda>_.
       Inr ident_pub)))"

text \<open>\<open>derive_peer_actor\<close> only fails on a key that is not 32 bytes.\<close>

definition peer_actor :: "session_crates \<Rightarrow> bytes \<Rightarrow> session_error + string" where
  "peer_actor X ident_pub =
     map_err (\<lambda>e. SessionGeneric (''derive_peer_actor: actor id path is empty'')) (derive_peer_actor (cr_sha256 (sx_base X)) ident_pub)"

definition claim_of :: "string option \<Rightarrow> string option" where
  "claim_of hint = (case hint of Some s \<Rightarrow> if s = [] then None else Some s | None \<Rightarrow> None)"

definition auth_draft :: "session_config \<Rightarrow> string \<Rightarrow> auth" where
  "auth_draft cfg suite =
     \<lparr>au_ident_pub = base64_encode STANDARD (sc_identity_pub cfg), au_signature_mldsa = None,
      au_ident_pub_mldsa = (if is_hybrid_suite suite
        then map_option (base64_encode STANDARD) (sc_identity_mldsa_pub cfg) else None), au_signature = []\<rparr>"

definition accept_hello_r ::
    "session_crates \<Rightarrow> session_config \<Rightarrow> hello_i \<Rightarrow> bytes \<Rightarrow> hello_r \<Rightarrow> session_error + auth \<times> session_state" where
  "accept_hello_r X cfg hello eph_priv msg =
     (let C = sx_base X; hello_r_unsigned = msg\<lparr>hr_signature := [], hr_signature_mldsa := None\<rparr> in
      rbind (canonical_concat C [message_json (hello_i_fields hello), message_json (hello_r_fields hello_r_unsigned)]) (\<lambda>transcript.
      let transcript_hash = cr_sha256 C (as_bytes transcript) in
      rbind (identity_check X ''responder'' (hr_ident_pub msg) (hr_signature msg) transcript_hash) (\<lambda>ident_pub.
      let suite = unwrap_or (hr_selected_suite msg) (hi_suite hello) in
      rbind (check_hybrid X ''responder'' ''HelloR'' suite (hr_signature_mldsa msg) (hr_ident_pub_mldsa msg) transcript_hash) (\<lambda>_.
      rbind (rbind (session_b64decode (hr_eph_pub msg)) key32) (\<lambda>peer_eph.
      let shared = cr_x25519 C eph_priv peer_eph;
          auth_unsigned = auth_draft cfg suite in
      rbind (canonical_concat C [message_json (hello_i_fields hello), message_json (hello_r_fields msg),
        message_json (auth_fields auth_unsigned)]) (\<lambda>full_transcript.
      let full_hash = cr_sha256 C (as_bytes full_transcript);
          auth_sig = cr_sign C (sc_identity_priv cfg) full_hash in
      rbind (sign_hybrid X ''initiator'' suite (sc_identity_mldsa_priv cfg) full_hash) (\<lambda>auth_pq_sig.
      let auth = auth_unsigned\<lparr>au_signature_mldsa := auth_pq_sig, au_signature := base64_encode STANDARD auth_sig\<rparr> in
      rbind (session_b64decode (hi_session_id hello)) (\<lambda>session_id_bytes.
      rbind (peer_actor X ident_pub) (\<lambda>peer.
        Inr (auth, derive_with_claim C InitiatorRole shared session_id_bytes full_hash (sc_self_actor cfg) peer
          (claim_of (hr_self_hint msg))))))))))))"

definition process_hello_r ::
    "session_crates \<Rightarrow> hello_r \<Rightarrow> initiator \<Rightarrow> (session_error + auth \<times> session_state) \<times> initiator" where
  "process_hello_r X msg ini =
     (case in_state ini of
        AwaitingHelloR hello eph_priv \<Rightarrow>
          (case accept_hello_r X (in_cfg ini) hello eph_priv msg of
             Inl e \<Rightarrow> (Inl e, ini\<lparr>in_state := InitiatorFresh\<rparr>)
           | Inr (auth, session) \<Rightarrow> (Inr (auth, session), ini\<lparr>in_state := InitiatorEstablished session\<rparr>))
      | _ \<Rightarrow> (Inl (SessionGeneric ''not awaiting hello-r''), ini\<lparr>in_state := InitiatorFresh\<rparr>))"

subsection \<open>The responder\<close>

text \<open>\<open>Debug\<close> of a list of strings, as the error message of a failed negotiation prints it. (Characters beyond
  ASCII are printed as they are.)\<close>

definition debug_char :: "char \<Rightarrow> string" where
  "debug_char c =
     (if c = CHR 0x22 \<or> c = CHR 0x5C then [CHR 0x5C, c]
      else if c = CHR 0x09 then [CHR 0x5C, CHR ''t'']
      else if c = CHR 0x0A then [CHR 0x5C, CHR ''n'']
      else if c = CHR 0x0D then [CHR 0x5C, CHR ''r'']
      else if c = CHR 0x00 then [CHR 0x5C, CHR ''0'']
      else if (of_char c :: nat) < 16 \<or> c = CHR 0x7F
        then CHR 0x5C # ''u{'' @ (if c = CHR 0x7F then ''7f'' else [hex_digit (of_char c)]) @ ''}''
      else if (of_char c :: nat) < 32 then CHR 0x5C # ''u{1'' @ [hex_digit (of_char c - 16)] @ ''}''
      else [c])"

definition debug_strings :: "string list \<Rightarrow> string" where
  "debug_strings ss = ''['' @ str_join '', '' (map (\<lambda>s. [CHR 0x22] @ concat (map debug_char s) @ [CHR 0x22]) ss) @ '']''"

datatype responder_state =
    ResponderFresh
  | AwaitingAuth hello_i hello_r bytes
  | ResponderEstablished session_state

record responder =
  rp_cfg :: session_config
  rp_state :: responder_state

definition responder_new :: "session_config \<Rightarrow> responder" where
  "responder_new cfg = \<lparr>rp_cfg = cfg, rp_state = ResponderFresh\<rparr>"

definition responder_session :: "responder \<Rightarrow> session_state option" where
  "responder_session r = (case rp_state r of ResponderEstablished s \<Rightarrow> Some s | _ \<Rightarrow> None)"

definition negotiate :: "string list \<Rightarrow> hello_i \<Rightarrow> session_error + string" where
  "negotiate our_supported msg =
     (case hi_supported_suites msg of
        Some client_supports \<Rightarrow>
          ok_or (SessionGeneric (''no mutually-supported suite (peer offered '' @ debug_strings client_supports @
              '', we support '' @ debug_strings our_supported @ '')''))
            (find (\<lambda>s. list_ex (\<lambda>ours. ours = s) our_supported) client_supports)
      | None \<Rightarrow>
          if \<not> list_ex (\<lambda>s. s = hi_suite msg) our_supported
          then Inl (SessionGeneric (''unsupported suite '' @ hi_suite msg)) else Inr (hi_suite msg))"

definition hello_r_draft :: "session_config \<Rightarrow> bytes \<Rightarrow> string \<Rightarrow> hello_r" where
  "hello_r_draft cfg eph_pub chosen =
     \<lparr>hr_eph_pub = base64_encode STANDARD eph_pub, hr_ident_pub = base64_encode STANDARD (sc_identity_pub cfg),
      hr_selected_suite = Some chosen, hr_self_hint = sc_self_hint cfg, hr_signature_mldsa = None,
      hr_ident_pub_mldsa = (if is_hybrid_suite chosen
        then map_option (base64_encode STANDARD) (sc_identity_mldsa_pub cfg) else None), hr_signature = []\<rparr>"

definition answer_hello_i ::
    "session_crates \<Rightarrow> session_config \<Rightarrow> bytes \<Rightarrow> hello_i \<Rightarrow> session_error + hello_r \<times> bytes" where
  "answer_hello_i X cfg random msg =
     (let C = sx_base X in
      if hi_version msg \<noteq> SESSION_VERSION then
        Inl (SessionGeneric (''unsupported version '' @ show_nat (unat (hi_version msg))))
      else
      rbind (negotiate (unwrap_or (sc_supported_suites cfg) KNOWN_SESSION_SUITES) msg) (\<lambda>chosen.
      let (eph_priv, eph_pub) = make_ephemeral X (sc_eph_seed cfg) random in
      rbind (rbind (session_b64decode (hi_eph_pub msg)) key32) (\<lambda>peer_eph.
      let shared = cr_x25519 C eph_priv peer_eph;
          hello_r_unsigned = hello_r_draft cfg eph_pub chosen in
      rbind (canonical_concat C [message_json (hello_i_fields msg), message_json (hello_r_fields hello_r_unsigned)]) (\<lambda>transcript.
      let transcript_hash = cr_sha256 C (as_bytes transcript);
          sig = cr_sign C (sc_identity_priv cfg) transcript_hash in
      rbind (sign_hybrid X ''responder'' chosen (sc_identity_mldsa_priv cfg) transcript_hash) (\<lambda>pq_sig.
        Inr (hello_r_unsigned\<lparr>hr_signature := base64_encode STANDARD sig, hr_signature_mldsa := pq_sig\<rparr>, shared))))))"

definition process_hello_i ::
    "session_crates \<Rightarrow> bytes \<Rightarrow> hello_i \<Rightarrow> responder \<Rightarrow> (session_error + hello_r) \<times> responder" where
  "process_hello_i X random msg r =
     (if rp_state r \<noteq> ResponderFresh then (Inl (SessionGeneric ''responder already engaged''), r)
      else (case answer_hello_i X (rp_cfg r) random msg of
          Inl e \<Rightarrow> (Inl e, r)
        | Inr (hello, shared) \<Rightarrow> (Inr hello, r\<lparr>rp_state := AwaitingAuth msg hello shared\<rparr>)))"

definition accept_auth ::
    "session_crates \<Rightarrow> session_config \<Rightarrow> hello_i \<Rightarrow> hello_r \<Rightarrow> bytes \<Rightarrow> auth \<Rightarrow> session_error + session_state" where
  "accept_auth X cfg hi hr shared msg =
     (let C = sx_base X; auth_unsigned = msg\<lparr>au_signature := [], au_signature_mldsa := None\<rparr> in
      rbind (canonical_concat C [message_json (hello_i_fields hi), message_json (hello_r_fields hr),
        message_json (auth_fields auth_unsigned)]) (\<lambda>full_transcript.
      let full_hash = cr_sha256 C (as_bytes full_transcript) in
      rbind (identity_check X ''initiator'' (au_ident_pub msg) (au_signature msg) full_hash) (\<lambda>ident_pub.
      let suite = unwrap_or (hr_selected_suite hr) (hi_suite hi) in
      rbind (check_hybrid X ''initiator'' ''Auth'' suite (au_signature_mldsa msg) (au_ident_pub_mldsa msg) full_hash) (\<lambda>_.
      rbind (session_b64decode (hi_session_id hi)) (\<lambda>session_id_bytes.
      rbind (peer_actor X ident_pub) (\<lambda>peer.
        Inr (derive_with_claim C ResponderRole shared session_id_bytes full_hash (sc_self_actor cfg) peer
          (claim_of (hi_self_hint hi)))))))))"

definition process_auth :: "session_crates \<Rightarrow> auth \<Rightarrow> responder \<Rightarrow> (session_error + session_state) \<times> responder" where
  "process_auth X msg r =
     (case rp_state r of
        AwaitingAuth hi hr shared \<Rightarrow>
          (case accept_auth X (rp_cfg r) hi hr shared msg of
             Inl e \<Rightarrow> (Inl e, r\<lparr>rp_state := ResponderFresh\<rparr>)
           | Inr session \<Rightarrow> (Inr session, r\<lparr>rp_state := ResponderEstablished session\<rparr>))
      | _ \<Rightarrow> (Inl (SessionGeneric ''not awaiting auth''), r\<lparr>rp_state := ResponderFresh\<rparr>))"

subsection \<open>Transcripts\<close>

lemma message_frac_free:
  "frac_free_table (hello_i_fields hi)" "frac_free_table (hello_r_fields hr)" "frac_free_table (auth_fields au)"
  by (auto simp: hello_i_fields_def hello_r_fields_def auth_fields_def frac_free_table_def u32_json_def strings_json_def
      list_all_iff split: option.splits)

lemma canonical_concat_messages:
  "list_all frac_free_table ts \<Longrightarrow>
     canonical_concat C (map message_json ts) = Inr (concat (map (struct_text C) ts))"
  by (induction ts) (simp_all add: session_canonicalize_def message_json_def canon_struct)

definition hello_transcript :: "crates \<Rightarrow> hello_i \<Rightarrow> hello_r \<Rightarrow> string" where
  "hello_transcript C hi hr = struct_text C (hello_i_fields hi) @ struct_text C (hello_r_fields hr)"

definition full_transcript :: "crates \<Rightarrow> hello_i \<Rightarrow> hello_r \<Rightarrow> auth \<Rightarrow> string" where
  "full_transcript C hi hr au = struct_text C (hello_i_fields hi) @ struct_text C (hello_r_fields hr) @ struct_text C (auth_fields au)"

lemma concat_transcripts:
  "canonical_concat C [message_json (hello_i_fields hi), message_json (hello_r_fields hr)] = Inr (hello_transcript C hi hr)"
  "canonical_concat C [message_json (hello_i_fields hi), message_json (hello_r_fields hr), message_json (auth_fields au)] =
     Inr (full_transcript C hi hr au)"
  using canonical_concat_messages[of "[hello_i_fields hi, hello_r_fields hr]" C]
    canonical_concat_messages[of "[hello_i_fields hi, hello_r_fields hr, auth_fields au]" C]
  by (simp_all add: message_frac_free hello_transcript_def full_transcript_def del: canonical_concat.simps)

declare canonical_concat.simps [simp del]

subsection \<open>Two honest ends\<close>

text \<open>An end has a key pair of the right sizes.\<close>

definition identity_ready :: "crates \<Rightarrow> session_config \<Rightarrow> bool" where
  "identity_ready C cfg = (sc_identity_pub cfg = cr_public C (sc_identity_priv cfg) \<and> length (cr_public C (sc_identity_priv cfg)) = 32 \<and>
     (\<forall>b. length (cr_sign C (sc_identity_priv cfg) (cr_sha256 C b)) = 64))"

definition pq_ready :: "session_crates \<Rightarrow> session_config \<Rightarrow> bool" where
  "pq_ready X cfg = (\<exists>sk pk. sc_identity_mldsa_priv cfg = Some sk \<and> sc_identity_mldsa_pub cfg = Some pk \<and>
     length sk = sx_sk_len X \<and> sx_sk_error X sk = None \<and> length pk = sx_pk_len X \<and> sx_pk_ok X pk \<and>
     (\<forall>b. \<exists>s. sx_pq_sign X sk (cr_sha256 (sx_base X) b) = Inr s \<and> length s = sx_sig_len X \<and>
        sx_pq_verify X pk (cr_sha256 (sx_base X) b) s))"

definition offered :: "session_config \<Rightarrow> string list" where
  "offered cfg = (let preferred = unwrap_or (sc_preferred_suite cfg) SESSION_SUITE in
     preferred # filter (\<lambda>s. s \<noteq> preferred) (unwrap_or (sc_supported_suites cfg) KNOWN_SESSION_SUITES))"

definition handshake_ready :: "session_crates \<Rightarrow> session_config \<Rightarrow> session_config \<Rightarrow> string \<Rightarrow> bool" where
  "handshake_ready X ci cr suite = (ed25519_ok (sx_base X) \<and> dh_ok X \<and> identity_ready (sx_base X) ci \<and> identity_ready (sx_base X) cr \<and>
     find (\<lambda>s. s \<in> set (unwrap_or (sc_supported_suites cr) KNOWN_SESSION_SUITES)) (offered ci) = Some suite \<and>
     (is_hybrid_suite suite \<longrightarrow> pq_ready X ci \<and> pq_ready X cr))"

lemma identity_check_ok:
  assumes "ed25519_ok (sx_base X)" "identity_ready (sx_base X) cfg"
  shows "identity_check X who (base64_encode STANDARD (sc_identity_pub cfg))
      (base64_encode STANDARD (cr_sign (sx_base X) (sc_identity_priv cfg) (cr_sha256 (sx_base X) b))) (cr_sha256 (sx_base X) b) =
    Inr (sc_identity_pub cfg)"
  using assms by (simp add: identity_check_def session_b64decode_def b64decode_def ed25519_verify_def identity_ready_def ed25519_ok_def)

lemma hybrid_ok:
  assumes "is_hybrid_suite suite \<longrightarrow> pq_ready X cfg"
  obtains pq where "sign_hybrid X who suite (sc_identity_mldsa_priv cfg) (cr_sha256 (sx_base X) b) = Inr pq"
    "check_hybrid X who' msg suite pq
      (if is_hybrid_suite suite then map_option (base64_encode STANDARD) (sc_identity_mldsa_pub cfg) else None) (cr_sha256 (sx_base X) b) = Inr ()"
    "pq \<noteq> None \<longleftrightarrow> is_hybrid_suite suite"
proof (cases "is_hybrid_suite suite")
  case True
  with assms obtain sk pk s where "sc_identity_mldsa_priv cfg = Some sk" "sc_identity_mldsa_pub cfg = Some pk"
     "length sk = sx_sk_len X" "sx_sk_error X sk = None" "length pk = sx_pk_len X" "sx_pk_ok X pk"
     "sx_pq_sign X sk (cr_sha256 (sx_base X) b) = Inr s" "length s = sx_sig_len X"
     "sx_pq_verify X pk (cr_sha256 (sx_base X) b) s" by (fastforce simp: pq_ready_def)
  with True show thesis
    by (intro that[of "Some (base64_encode STANDARD s)"])
      (simp_all add: sign_hybrid_def check_hybrid_def ml_dsa_65_sign_def ml_dsa_65_verify_def session_b64decode_def b64decode_def)
next
  case False
  then show thesis by (intro that[of None]) (simp_all add: sign_hybrid_def check_hybrid_def)
qed

lemma derive_mirrored:
  "mirrored (derive_with_claim C InitiatorRole shared sid h a p c) (derive_with_claim C ResponderRole shared sid h a' p' c')"
  by (simp add: mirrored_def derive_with_claim_def Let_def)

lemma derive_fields [simp]:
  "ss_peer_actor (derive_with_claim C role shared sid h a p c) = p"
  "ss_session_id (derive_with_claim C role shared sid h a p c) = sid"
  by (simp_all add: derive_with_claim_def Let_def split: prod.splits)

definition key_actor :: "crates \<Rightarrow> bytes \<Rightarrow> string" where
  "key_actor C pk = ''tf:actor:process:key/'' @ hex_lower (take 8 (cr_sha256 C pk))"

lemma peer_actor_ok: "length k = 32 \<Longrightarrow> peer_actor X k = Inr (key_actor (sx_base X) k)"
  by (simp add: peer_actor_def derive_peer_actor_def key_actor_def)

lemma session_b64decode_encode [simp]: "session_b64decode (base64_encode STANDARD b) = Inr b"
  by (simp add: session_b64decode_def b64decode_def)

text \<open>The messages of honest ends.\<close>

definition hello_hash :: "crates \<Rightarrow> hello_i \<Rightarrow> session_config \<Rightarrow> bytes \<Rightarrow> string \<Rightarrow> bytes" where
  "hello_hash C hi cfg eph suite = cr_sha256 C (as_bytes (hello_transcript C hi (hello_r_draft cfg eph suite)))"

definition signed_hello_r :: "crates \<Rightarrow> hello_i \<Rightarrow> session_config \<Rightarrow> bytes \<Rightarrow> string \<Rightarrow> string option \<Rightarrow> hello_r" where
  "signed_hello_r C hi cfg eph suite pq = (hello_r_draft cfg eph suite)\<lparr>hr_signature :=
     base64_encode STANDARD (cr_sign C (sc_identity_priv cfg) (hello_hash C hi cfg eph suite)), hr_signature_mldsa := pq\<rparr>"

definition auth_hash :: "crates \<Rightarrow> hello_i \<Rightarrow> hello_r \<Rightarrow> session_config \<Rightarrow> string \<Rightarrow> bytes" where
  "auth_hash C hi hr cfg suite = cr_sha256 C (as_bytes (full_transcript C hi hr (auth_draft cfg suite)))"

definition signed_auth :: "crates \<Rightarrow> hello_i \<Rightarrow> hello_r \<Rightarrow> session_config \<Rightarrow> string \<Rightarrow> string option \<Rightarrow> auth" where
  "signed_auth C hi hr cfg suite pq = (auth_draft cfg suite)\<lparr>au_signature_mldsa := pq, au_signature :=
     base64_encode STANDARD (cr_sign C (sc_identity_priv cfg) (auth_hash C hi hr cfg suite))\<rparr>"

lemma signed_hello_r_simps [simp]:
  "hr_selected_suite (signed_hello_r C hi cfg eph suite pq) = Some suite"
  "hr_signature_mldsa (signed_hello_r C hi cfg eph suite pq) = pq"
  "hr_eph_pub (signed_hello_r C hi cfg eph suite pq) = base64_encode STANDARD eph"
  "(signed_hello_r C hi cfg eph suite pq)\<lparr>hr_signature := [], hr_signature_mldsa := None\<rparr> = hello_r_draft cfg eph suite"
  by (simp_all add: signed_hello_r_def hello_r_draft_def)

lemma signed_auth_simps [simp]:
  "au_signature_mldsa (signed_auth C hi hr cfg suite pq) = pq"
  "(signed_auth C hi hr cfg suite pq)\<lparr>au_signature := [], au_signature_mldsa := None\<rparr> = auth_draft cfg suite"
  by (simp_all add: signed_auth_def auth_draft_def)

lemma answer_hello_i_ok:
  assumes "hi_version hi = SESSION_VERSION" "negotiate (unwrap_or (sc_supported_suites cfg) KNOWN_SESSION_SUITES) hi = Inr suite"
    and "hi_eph_pub hi = base64_encode STANDARD ei" "length ei = 32" "make_ephemeral X (sc_eph_seed cfg) rnd = (pr, er)"
    and "is_hybrid_suite suite \<longrightarrow> pq_ready X cfg"
  obtains pq where "answer_hello_i X cfg rnd hi = Inr (signed_hello_r (sx_base X) hi cfg er suite pq, cr_x25519 (sx_base X) pr ei)"
    "check_hybrid X ''responder'' ''HelloR'' suite pq (hr_ident_pub_mldsa (signed_hello_r (sx_base X) hi cfg er suite pq))
       (hello_hash (sx_base X) hi cfg er suite) = Inr ()"
    "pq \<noteq> None \<longleftrightarrow> is_hybrid_suite suite"
proof -
  have id: "hr_ident_pub_mldsa (signed_hello_r C hi cfg er suite pq) =
      (if is_hybrid_suite suite then map_option (base64_encode STANDARD) (sc_identity_mldsa_pub cfg) else None)" for C pq
    by (simp add: signed_hello_r_def hello_r_draft_def)
  obtain pq where pq: "sign_hybrid X ''responder'' suite (sc_identity_mldsa_priv cfg) (hello_hash (sx_base X) hi cfg er suite) = Inr pq"
    "check_hybrid X ''responder'' ''HelloR'' suite pq (hr_ident_pub_mldsa (signed_hello_r (sx_base X) hi cfg er suite pq))
       (hello_hash (sx_base X) hi cfg er suite) = Inr ()" "pq \<noteq> None \<longleftrightarrow> is_hybrid_suite suite"
    unfolding id hello_hash_def by (rule hybrid_ok[OF assms(6)])
  moreover have "answer_hello_i X cfg rnd hi = Inr (signed_hello_r (sx_base X) hi cfg er suite pq, cr_x25519 (sx_base X) pr ei)"
    using assms(1-5) pq(1)
    by (simp add: answer_hello_i_def Let_def concat_transcripts decode_key signed_hello_r_def key32_def flip: hello_hash_def)
  ultimately show thesis using that by blast
qed

lemma accept_hello_r_ok:
  assumes "ed25519_ok (sx_base X)" "identity_ready (sx_base X) cr" "length er = 32" "is_hybrid_suite suite \<longrightarrow> pq_ready X ci"
    and "hi_session_id hi = base64_encode STANDARD sid" "hr = signed_hello_r (sx_base X) hi cr er suite pq"
    and "check_hybrid X ''responder'' ''HelloR'' suite pq (hr_ident_pub_mldsa hr) (hello_hash (sx_base X) hi cr er suite) = Inr ()"
  obtains pq' where "accept_hello_r X ci hi pi hr = Inr (signed_auth (sx_base X) hi hr ci suite pq',
      derive_with_claim (sx_base X) InitiatorRole (cr_x25519 (sx_base X) pi er) sid (auth_hash (sx_base X) hi hr ci suite)
        (sc_self_actor ci) (key_actor (sx_base X) (sc_identity_pub cr)) (claim_of (hr_self_hint hr)))"
    "check_hybrid X ''initiator'' ''Auth'' suite pq' (au_ident_pub_mldsa (signed_auth (sx_base X) hi hr ci suite pq'))
       (auth_hash (sx_base X) hi hr ci suite) = Inr ()"
    "pq' \<noteq> None \<longleftrightarrow> is_hybrid_suite suite"
proof -
  have id: "au_ident_pub_mldsa (signed_auth C hi hr ci suite pq') =
      (if is_hybrid_suite suite then map_option (base64_encode STANDARD) (sc_identity_mldsa_pub ci) else None)" for C pq'
    by (simp add: signed_auth_def auth_draft_def)
  obtain pq' where pq': "sign_hybrid X ''initiator'' suite (sc_identity_mldsa_priv ci) (auth_hash (sx_base X) hi hr ci suite) = Inr pq'"
    "check_hybrid X ''initiator'' ''Auth'' suite pq' (au_ident_pub_mldsa (signed_auth (sx_base X) hi hr ci suite pq'))
       (auth_hash (sx_base X) hi hr ci suite) = Inr ()" "pq' \<noteq> None \<longleftrightarrow> is_hybrid_suite suite"
    unfolding id auth_hash_def by (rule hybrid_ok[OF assms(4)])
  have idr: "identity_check X ''responder'' (hr_ident_pub hr) (hr_signature hr) (hello_hash (sx_base X) hi cr er suite) =
      Inr (sc_identity_pub cr)"
    using identity_check_ok[OF assms(1,2), of "''responder''"]
    by (simp add: assms(6) signed_hello_r_def hello_r_draft_def hello_hash_def)
  have "length (sc_identity_pub cr) = 32" using assms(2) by (simp add: identity_ready_def)
  moreover have "hr\<lparr>hr_signature := [], hr_signature_mldsa := None\<rparr> = hello_r_draft cr er suite"
    "hr_selected_suite hr = Some suite" "hr_signature_mldsa hr = pq" "hr_eph_pub hr = base64_encode STANDARD er"
    by (simp_all add: assms(6))
  ultimately have "accept_hello_r X ci hi pi hr = Inr (signed_auth (sx_base X) hi hr ci suite pq',
      derive_with_claim (sx_base X) InitiatorRole (cr_x25519 (sx_base X) pi er) sid (auth_hash (sx_base X) hi hr ci suite)
        (sc_self_actor ci) (key_actor (sx_base X) (sc_identity_pub cr)) (claim_of (hr_self_hint hr)))"
    using assms(3,5,7) pq'(1) idr
    by (simp add: accept_hello_r_def Let_def concat_transcripts key32_def peer_actor_ok signed_auth_def
        flip: hello_hash_def auth_hash_def)
  with pq'(2,3) that show thesis by blast
qed

lemma accept_auth_ok:
  assumes "ed25519_ok (sx_base X)" "identity_ready (sx_base X) ci" "hi_session_id hi = base64_encode STANDARD sid"
    and "hr_selected_suite hr = Some suite" "au = signed_auth (sx_base X) hi hr ci suite pq'"
    and "check_hybrid X ''initiator'' ''Auth'' suite pq' (au_ident_pub_mldsa au) (auth_hash (sx_base X) hi hr ci suite) = Inr ()"
  shows "accept_auth X cr hi hr shared au = Inr (derive_with_claim (sx_base X) ResponderRole shared sid
    (auth_hash (sx_base X) hi hr ci suite) (sc_self_actor cr) (key_actor (sx_base X) (sc_identity_pub ci)) (claim_of (hi_self_hint hi)))"
proof -
  have "identity_check X ''initiator'' (au_ident_pub au) (au_signature au) (auth_hash (sx_base X) hi hr ci suite) = Inr (sc_identity_pub ci)"
    using identity_check_ok[OF assms(1,2), of "''initiator''"] by (simp add: assms(5) signed_auth_def auth_draft_def auth_hash_def)
  moreover have "length (sc_identity_pub ci) = 32" using assms(2) by (simp add: identity_ready_def)
  moreover have "au\<lparr>au_signature := [], au_signature_mldsa := None\<rparr> = auth_draft ci suite" "au_signature_mldsa au = pq'"
    by (simp_all add: assms(5))
  ultimately show ?thesis
    using assms(3,4,6) by (simp add: accept_auth_def Let_def concat_transcripts peer_actor_ok flip: auth_hash_def)
qed

text \<open>
  C37. The handshake completes and both ends agree: for two ends with working keys that have a suite in common,
  the three messages are accepted in turn, the suite is the first one the initiator offers that the responder
  supports, each end knows the other by the actor derived from its identity key, the ends are in step with
  matching keys, and in the hybrid suite both messages carry post-quantum signatures.
\<close>

theorem handshake_completes:
  assumes "handshake_ready X ci cr suite"
  shows "\<exists>hi i1 hr r1 au si i2 sr r2.
    start X rnd sid (initiator_new ci) = (Inr hi, i1) \<and> process_hello_i X rnd' hi (responder_new cr) = (Inr hr, r1) \<and>
    process_hello_r X hr i1 = (Inr (au, si), i2) \<and> process_auth X au r1 = (Inr sr, r2) \<and>
    initiator_session i2 = Some si \<and> responder_session r2 = Some sr \<and> mirrored si sr \<and>
    hr_selected_suite hr = Some suite \<and>
    ss_peer_actor si = key_actor (sx_base X) (sc_identity_pub cr) \<and>
    ss_peer_actor sr = key_actor (sx_base X) (sc_identity_pub ci) \<and>
    (hr_signature_mldsa hr \<noteq> None \<longleftrightarrow> is_hybrid_suite suite) \<and> (au_signature_mldsa au \<noteq> None \<longleftrightarrow> is_hybrid_suite suite)"
proof -
  let ?C = "sx_base X"
  note ready = assms[unfolded handshake_ready_def]
  obtain pi ei where ki: "make_ephemeral X (sc_eph_seed ci) rnd = (pi, ei)" by (cases "make_ephemeral X (sc_eph_seed ci) rnd")
  obtain pr er where kr: "make_ephemeral X (sc_eph_seed cr) rnd' = (pr, er)" by (cases "make_ephemeral X (sc_eph_seed cr) rnd'")
  have dh: "cr_x25519 ?C pi er = cr_x25519 ?C pr ei" "length ei = 32" "length er = 32"
    using ki kr ready by (auto simp: make_ephemeral_def dh_ok_def Let_def)
  define hi where "hi = \<lparr>hi_version = SESSION_VERSION, hi_suite = unwrap_or (sc_preferred_suite ci) SESSION_SUITE,
    hi_supported_suites = Some (offered ci), hi_session_id = base64_encode STANDARD (unwrap_or (sc_session_id_seed ci) sid),
    hi_peer_hint = unwrap_or (sc_peer_hint ci) [], hi_self_hint = sc_self_hint ci, hi_eph_pub = base64_encode STANDARD ei\<rparr>"
  have hi: "hi_version hi = SESSION_VERSION" "hi_eph_pub hi = base64_encode STANDARD ei"
    "hi_session_id hi = base64_encode STANDARD (unwrap_or (sc_session_id_seed ci) sid)" by (simp_all add: hi_def)
  have start: "start X rnd sid (initiator_new ci) = (Inr hi, \<lparr>in_cfg = ci, in_state = AwaitingHelloR hi pi\<rparr>)"
    by (simp add: start_def initiator_new_def ki hi_def offered_def Let_def)
  have neg: "negotiate (unwrap_or (sc_supported_suites cr) KNOWN_SESSION_SUITES) hi = Inr suite"
    using ready by (simp add: negotiate_def hi_def list_ex_iff Bex_def)
  obtain pq where pq: "answer_hello_i X cr rnd' hi = Inr (signed_hello_r ?C hi cr er suite pq, cr_x25519 ?C pr ei)"
    "check_hybrid X ''responder'' ''HelloR'' suite pq (hr_ident_pub_mldsa (signed_hello_r ?C hi cr er suite pq))
       (hello_hash ?C hi cr er suite) = Inr ()" "pq \<noteq> None \<longleftrightarrow> is_hybrid_suite suite"
    by (rule answer_hello_i_ok[OF hi(1) neg hi(2) dh(2) kr]) (use ready in blast)+
  define hr where "hr = signed_hello_r ?C hi cr er suite pq"
  obtain pq' where acc: "accept_hello_r X ci hi pi hr = Inr (signed_auth ?C hi hr ci suite pq',
      derive_with_claim ?C InitiatorRole (cr_x25519 ?C pi er) (unwrap_or (sc_session_id_seed ci) sid) (auth_hash ?C hi hr ci suite)
        (sc_self_actor ci) (key_actor ?C (sc_identity_pub cr)) (claim_of (hr_self_hint hr)))"
    "check_hybrid X ''initiator'' ''Auth'' suite pq' (au_ident_pub_mldsa (signed_auth ?C hi hr ci suite pq'))
       (auth_hash ?C hi hr ci suite) = Inr ()" "pq' \<noteq> None \<longleftrightarrow> is_hybrid_suite suite"
    by (rule accept_hello_r_ok[OF _ _ dh(3) _ hi(3) hr_def pq(2)[folded hr_def]]) (use ready in blast)+
  have hrs: "hr_selected_suite hr = Some suite" "hr_signature_mldsa hr = pq" by (simp_all add: hr_def)
  have auth: "accept_auth X cr hi hr (cr_x25519 ?C pr ei) (signed_auth ?C hi hr ci suite pq') =
      Inr (derive_with_claim ?C ResponderRole (cr_x25519 ?C pr ei) (unwrap_or (sc_session_id_seed ci) sid)
        (auth_hash ?C hi hr ci suite) (sc_self_actor cr) (key_actor ?C (sc_identity_pub ci)) (claim_of (hi_self_hint hi)))"
    using ready by (intro accept_auth_ok[OF _ _ hi(3) hrs(1) refl acc(2)]) blast+
  show ?thesis
    using start pq(1)[folded hr_def] acc(1) auth hrs pq(3) acc(3)
    by (simp add: process_hello_i_def process_hello_r_def process_auth_def responder_new_def initiator_session_def
        responder_session_def dh(1) derive_mirrored)
qed

definition sample_config :: "byte \<Rightarrow> session_config" where
  "sample_config b = \<lparr>sc_self_actor = ''me'', sc_peer_hint = None, sc_self_hint = None, sc_identity_priv = replicate 32 b,
     sc_identity_pub = replicate 32 b, sc_preferred_suite = None, sc_supported_suites = None, sc_identity_mldsa_priv = None,
     sc_identity_mldsa_pub = None, sc_eph_seed = Some [b], sc_session_id_seed = Some [4]\<rparr>"

lemma sample_ed25519: "ed25519_ok sample_base"
  by (simp add: ed25519_ok_def sample_base_def sample_crates_def)

lemma sample_identity: "identity_ready sample_base (sample_config b)"
  by (simp add: identity_ready_def sample_config_def sample_base_def sample_crates_def min_def)

lemma sample_sx_base [simp]: "sx_base (sample_session fs) = sample_base"
  by (simp add: sample_session_def)

lemma sample_handshake_ready: "handshake_ready (sample_session []) (sample_config 1) (sample_config 2) SESSION_SUITE"
proof -
  have "offered (sample_config 1) = [SESSION_SUITE, SESSION_SUITE_HYBRID_ED25519_MLDSA65]"
    by (simp add: offered_def sample_config_def KNOWN_SESSION_SUITES_def SESSION_SUITE_def SESSION_SUITE_HYBRID_ED25519_MLDSA65_def)
  moreover have "unwrap_or (sc_supported_suites (sample_config 2)) KNOWN_SESSION_SUITES = KNOWN_SESSION_SUITES"
    by (simp add: sample_config_def)
  moreover have "\<not> is_hybrid_suite SESSION_SUITE" by (simp add: is_hybrid_suite_def SESSION_SUITE_def)
  ultimately show ?thesis
    using sample_session_ok(2)[of "[]"] by (simp add: handshake_ready_def sample_ed25519 sample_identity KNOWN_SESSION_SUITES_def)
qed

theorem handshake_completes_witness:
  "\<exists>hi i1 hr r1 au si i2 sr r2.
    start (sample_session []) [] [] (initiator_new (sample_config 1)) = (Inr hi, i1) \<and>
    process_hello_i (sample_session []) [] hi (responder_new (sample_config 2)) = (Inr hr, r1) \<and>
    process_hello_r (sample_session []) hr i1 = (Inr (au, si), i2) \<and> process_auth (sample_session []) au r1 = (Inr sr, r2) \<and>
    mirrored si sr"
  using handshake_completes[OF sample_handshake_ready, of "[]" "[]" "[]"] by blast

subsection \<open>What a transcript binds\<close>

definition agree :: "crates \<Rightarrow> (string \<times> json option) list \<Rightarrow> (string \<times> json option) list \<Rightarrow> bool" where
  "agree C t u = (map (map_option (json_norm (cr_nfc C)) \<circ> snd) t = map (map_option (json_norm (cr_nfc C)) \<circ> snd) u)"

lemma message_text:
  assumes "frac_free_table t"
  shows "\<exists>es. json_norm (cr_nfc C) (message_json t) = NObj es \<and> struct_text C t = render (NObj es)"
proof -
  have "struct_text C t = render (json_norm (cr_nfc C) (message_json t))"
    using canonicalize_eq_iff(1)[OF frac_free_struct[OF assms] frac_free_struct[OF assms], of "cr_nfc C" "cr_fmt_f64 C"]
      canon_struct[OF assms, of C] by (simp add: canon_def message_json_def)
  then show ?thesis by (simp add: message_json_def)
qed

lemma message_agree:
  assumes "nfc_ok C" "map fst t = map fst u" "distinct (map fst t)" "list_all is_ascii (map fst t)"
    and "json_norm (cr_nfc C) (message_json t) = json_norm (cr_nfc C) (message_json u)"
  shows "agree C t u"
  unfolding agree_def
  by (rule struct_norm_eq[OF assms(2,3) _ assms(5)[unfolded message_json_def]])
    (use assms(1,4) in \<open>auto simp: nfc_ok_def list_all_iff\<close>)

lemma transcript_inject:
  assumes "nfc_ok C" "full_transcript C hi hr au = full_transcript C hi' hr' au'"
  shows "agree C (hello_i_fields hi) (hello_i_fields hi') \<and> agree C (hello_r_fields hr) (hello_r_fields hr') \<and>
    agree C (auth_fields au) (auth_fields au')"
proof -
  let ?n = "\<lambda>t. json_norm (cr_nfc C) (message_json t)"
  have tx: "struct_text C t = render (?n t)" "no_digit_front (struct_text C t @ r)" if "frac_free_table t" for t r
    using message_text[OF that, of C] by (auto simp: no_digit_front_def)
  note [simp] = message_frac_free
  have nil: "no_digit_front []" by (simp add: no_digit_front_def)
  have 1: "?n (hello_i_fields hi) = ?n (hello_i_fields hi')"
    "struct_text C (hello_r_fields hr) @ struct_text C (auth_fields au) = struct_text C (hello_r_fields hr') @ struct_text C (auth_fields au')"
    using render_inject[of "?n (hello_i_fields hi)" _ "?n (hello_i_fields hi')"] assms(2) tx(2)
    by (auto simp: full_transcript_def simp flip: tx(1))
  then have 2: "?n (hello_r_fields hr) = ?n (hello_r_fields hr')" "struct_text C (auth_fields au) = struct_text C (auth_fields au')"
    using render_inject[of "?n (hello_r_fields hr)" "struct_text C (auth_fields au)" "?n (hello_r_fields hr')" "struct_text C (auth_fields au')"]
      tx(2)[of "auth_fields _" "[]"] by (simp_all flip: tx(1))
  then have 3: "?n (auth_fields au) = ?n (auth_fields au')"
    using render_inject[of "?n (auth_fields au)" "[]" "?n (auth_fields au')" "[]"] nil by (simp flip: tx(1))
  show ?thesis
    using message_agree[OF assms(1) _ _ _ 1(1)] message_agree[OF assms(1) _ _ _ 2(1)] message_agree[OF assms(1) _ _ _ 3]
    by (simp add: hello_i_fields_def hello_r_fields_def auth_fields_def is_ascii_def)
qed

text \<open>
  C38. A transcript has one reading: when the initiator and the responder hash the concatenated canonical texts of
  what each takes to be the three messages and get the same digest (the one that is signed and that the keys
  are derived from), they agree on every field of every message, the suites included, up to the normalisation
  of strings, or the two texts are a collision of SHA-256.
\<close>

theorem handshake_transcript_binds:
  assumes "nfc_ok C"
    and "canonical_concat C [message_json (hello_i_fields hi), message_json (hello_r_fields hr), message_json (auth_fields au)] = Inr t"
    and "canonical_concat C [message_json (hello_i_fields hi'), message_json (hello_r_fields hr'), message_json (auth_fields au')] = Inr t'"
    and "cr_sha256 C (as_bytes t) = cr_sha256 C (as_bytes t')"
  shows "agree C (hello_i_fields hi) (hello_i_fields hi') \<and> agree C (hello_r_fields hr) (hello_r_fields hr') \<and>
    agree C (auth_fields au) (auth_fields au') \<or> collision (cr_sha256 C) (as_bytes t) (as_bytes t')"
  using assms transcript_inject[OF assms(1)] by (auto simp: concat_transcripts collision_def)

text \<open>
  C40. The initiator does not check the suite it is told: whatever suites it offered, a responder that answers with
  any suite outside the hybrid family is accepted, and no post-quantum signature is then asked for or given.
\<close>

theorem unoffered_suite_accepted:
  assumes "ed25519_ok (sx_base X)" "identity_ready (sx_base X) cr" "\<not> is_hybrid_suite suite"
    and "start X rnd sid (initiator_new ci) = (Inr hi, i1)"
  shows "\<exists>hr au s i2. hr_selected_suite hr = Some suite \<and> process_hello_r X hr i1 = (Inr (au, s), i2) \<and>
    hr_signature_mldsa hr = None \<and> au_signature_mldsa au = None"
proof -
  obtain ep where st: "in_cfg i1 = ci" "in_state i1 = AwaitingHelloR hi ep"
    "hi_session_id hi = base64_encode STANDARD (unwrap_or (sc_session_id_seed ci) sid)"
    using assms(4) by (auto simp: start_def initiator_new_def Let_def split: prod.splits)
  define er :: bytes where "er = replicate 32 0"
  have er: "length er = 32" by (simp add: er_def)
  let ?hr = "signed_hello_r (sx_base X) hi cr er suite None"
  have c: "check_hybrid X ''responder'' ''HelloR'' suite None (hr_ident_pub_mldsa ?hr) (hello_hash (sx_base X) hi cr er suite) = Inr ()"
    using assms(3) by (simp add: check_hybrid_def)
  obtain pq' s where "accept_hello_r X ci hi ep ?hr = Inr (signed_auth (sx_base X) hi ?hr ci suite pq', s)"
    "pq' \<noteq> None \<longleftrightarrow> is_hybrid_suite suite"
    by (rule accept_hello_r_ok[OF assms(1,2) er _ st(3) refl c, of ci ep]) (use assms(3) in blast)+
  with st assms(3) show ?thesis by (intro exI[of _ ?hr]) (simp add: process_hello_r_def)
qed

lemma sample_start: "\<exists>hi i1. start (sample_session []) [] [] (initiator_new (sample_config 1)) = (Inr hi, i1)"
  by (simp add: start_def initiator_new_def Let_def split: prod.splits)

theorem unoffered_suite_accepted_witness:
  "\<exists>hi i1 hr au s i2. start (sample_session []) [] [] (initiator_new (sample_config 1)) = (Inr hi, i1) \<and>
     hr_selected_suite hr = Some ''none'' \<and> process_hello_r (sample_session []) hr i1 = (Inr (au, s), i2)"
proof -
  obtain hi i1 where st: "start (sample_session []) [] [] (initiator_new (sample_config 1)) = (Inr hi, i1)" using sample_start by blast
  have n: "\<not> is_hybrid_suite ''none''" by (simp add: is_hybrid_suite_def)
  have "ed25519_ok (sx_base (sample_session []))" "identity_ready (sx_base (sample_session [])) (sample_config 2)"
    by (simp_all add: sample_ed25519 sample_identity)
  from unoffered_suite_accepted[OF this n st] st show ?thesis by blast
qed

definition sample_hello :: hello_i where
  "sample_hello = \<lparr>hi_version = 0, hi_suite = ''s'', hi_supported_suites = None, hi_session_id = [], hi_peer_hint = [],
     hi_self_hint = None, hi_eph_pub = []\<rparr>"

theorem handshake_transcript_binds_witness:
  "let hr = hello_r_draft (sample_config 2) [] ''s''; au = auth_draft (sample_config 1) ''s'';
       au' = (signed_auth sample_crates sample_hello hr (sample_config 1) ''s'' None)\<lparr>au_signature := []\<rparr>;
       t = full_transcript sample_crates sample_hello hr au; t' = full_transcript sample_crates sample_hello hr au'
   in agree sample_crates (hello_i_fields sample_hello) (hello_i_fields sample_hello) \<and>
      agree sample_crates (hello_r_fields hr) (hello_r_fields hr) \<and> agree sample_crates (auth_fields au) (auth_fields au') \<or>
      collision (cr_sha256 sample_crates) (as_bytes t) (as_bytes t')"
proof -
  have "auth_draft (sample_config 1) ''s'' = (signed_auth sample_crates hi hr (sample_config 1) ''s'' None)\<lparr>au_signature := []\<rparr>" for hi hr
    by (simp add: signed_auth_def auth_draft_def)
  then show ?thesis
    unfolding Let_def
    by (intro handshake_transcript_binds[OF sample_crates_ok(3) concat_transcripts(2) concat_transcripts(2)]) simp
qed

end
