(* ===== verification/Chain.thy ===== *)
theory Chain
  imports Orl Capability
begin

text \<open>
  Proof events and what holds them together (\<open>chain.rs\<close>, the struct of \<open>generated/proof_event.rs\<close>): the
  hash of an event, the chain of parent hashes, the Merkle root and the rolling chain hash. The Merkle
  loop is a \<open>while\<close> loop, modelled as a partial function, and shown to end. The two summaries of a list of
  events share a contract, the locale \<open>commitment\<close>: equal summaries of lists of the same length mean
  equal events, or one of the strings hashed on one side collides with one hashed on the other.
\<close>

subsection \<open>Proof events\<close>

datatype event_version = EventV1

fun event_version_str :: "event_version \<Rightarrow> string" where
  "event_version_str EventV1 = ''1''"

record provenance =
  pv_human :: "string option"
  pv_agent :: "string option"
  pv_instance :: "string option"
  pv_model :: "string option"
  pv_tool :: "string option"
  pv_requested_action :: "string option"

record proof_event =
  ev_event_version :: event_version
  ev_id :: string
  ev_type :: string
  ev_actor_id :: string
  ev_instance_id :: "string option"
  ev_session_id :: "string option"
  ev_timestamp :: string
  ev_level :: proof_level
  ev_subject_ref :: "string option"
  ev_payload_hash :: "string option"
  ev_parent_hash :: "string option"
  ev_context :: "json option"
  ev_provenance :: "provenance option"
  ev_signature :: signature_envelope

definition provenance_json :: "provenance \<Rightarrow> json" where
  "provenance_json p = JObject (sort_entries (present
     [(''human'', map_option JString (pv_human p)), (''agent'', map_option JString (pv_agent p)),
      (''instance'', map_option JString (pv_instance p)), (''model'', map_option JString (pv_model p)),
      (''tool'', map_option JString (pv_tool p)), (''requested_action'', map_option JString (pv_requested_action p))]))"

definition event_fields :: "proof_event \<Rightarrow> (string \<times> json option) list" where
  "event_fields e =
     [(''event_version'', Some (JString (event_version_str (ev_event_version e)))), (''id'', Some (JString (ev_id e))),
      (''type'', Some (JString (ev_type e))), (''actor_id'', Some (JString (ev_actor_id e))),
      (''instance_id'', map_option JString (ev_instance_id e)), (''session_id'', map_option JString (ev_session_id e)),
      (''timestamp'', Some (JString (ev_timestamp e))), (''level'', Some (JString (proof_level_str (ev_level e)))),
      (''subject_ref'', map_option JString (ev_subject_ref e)), (''payload_hash'', map_option JString (ev_payload_hash e)),
      (''parent_hash'', map_option JString (ev_parent_hash e)), (''context'', ev_context e),
      (''provenance'', map_option provenance_json (ev_provenance e))]"

definition event_json :: "proof_event \<Rightarrow> json" where
  "event_json e = JObject (sort_entries (present (event_fields e @ [(''signature'', Some (envelope_json (ev_signature e)))])))"

subsection \<open>chain.rs\<close>

datatype chain_error =
    ChainCanonical string
  | ChainSerialize string
  | BadHashRef string
  | ParentMismatch nat string string
  | MissingParentHash nat

definition event_signed_payload :: "crates \<Rightarrow> proof_event \<Rightarrow> chain_error + string" where
  "event_signed_payload C e =
     map_err (\<lambda>err. ChainCanonical (canonical_error_str err)) (canon C (without_key ''signature'' (event_json e)))"

definition event_hash :: "crates \<Rightarrow> proof_event \<Rightarrow> chain_error + string" where
  "event_hash C e = rbind (event_signed_payload C e) (\<lambda>payload. Inr (sha256_hashref C (as_bytes payload)))"

text \<open>The loop of \<open>verify_chain\<close>: \<open>i\<close> is the index of the event after \<open>prev\<close>.\<close>

fun verify_links :: "crates \<Rightarrow> nat \<Rightarrow> proof_event \<Rightarrow> proof_event list \<Rightarrow> chain_error + unit" where
  "verify_links C i prev [] = Inr ()"
| "verify_links C i prev (e # es) =
     rbind (event_hash C prev) (\<lambda>expected.
       case ev_parent_hash e of
         None \<Rightarrow> Inl (MissingParentHash i)
       | Some parent \<Rightarrow>
           if parent \<noteq> expected then Inl (ParentMismatch i parent expected) else verify_links C (Suc i) e es)"

fun verify_chain :: "crates \<Rightarrow> proof_event list \<Rightarrow> chain_error + unit" where
  "verify_chain C [] = Inr ()"
| "verify_chain C (e # es) = verify_links C 1 e es"

definition event_leaf :: "crates \<Rightarrow> proof_event \<Rightarrow> chain_error + bytes" where
  "event_leaf C e = rbind (event_hash C e) (\<lambda>hash.
     rbind (map_err (\<lambda>err. BadHashRef (crypto_error_str err)) (parse_hashref hash)) (\<lambda>(_, leaf). Inr leaf))"

fun event_leaves :: "crates \<Rightarrow> proof_event list \<Rightarrow> chain_error + bytes list" where
  "event_leaves C [] = Inr []"
| "event_leaves C (e # es) = rbind (event_leaf C e) (\<lambda>l. rbind (event_leaves C es) (\<lambda>ls. Inr (l # ls)))"

text \<open>One round of the loop: the last node is doubled on an odd level, then \<open>chunks_exact(2)\<close> is hashed.\<close>

definition pad_level :: "bytes list \<Rightarrow> bytes list" where
  "pad_level level = (if length level mod 2 = 1 then level @ [last level] else level)"

fun hash_pairs :: "crates \<Rightarrow> bytes list \<Rightarrow> bytes list" where
  "hash_pairs C (a # b # rest) = cr_sha256 C (a @ b) # hash_pairs C rest"
| "hash_pairs C _ = []"

definition merkle_round :: "crates \<Rightarrow> bytes list \<Rightarrow> bytes list" where
  "merkle_round C level = hash_pairs C (pad_level level)"

partial_function (option) merkle_while :: "crates \<Rightarrow> bytes list \<Rightarrow> bytes list option" where
  "merkle_while C level = (if 1 < length level then merkle_while C (merkle_round C level) else Some level)"

text \<open>\<open>None\<close> would be a loop that does not end.\<close>

definition merkle_root :: "crates \<Rightarrow> proof_event list \<Rightarrow> (chain_error + string) option" where
  "merkle_root C events =
     (if events = [] then Some (Inr (''sha256:'' @ hex_lower (replicate 32 0)))
      else (case event_leaves C events of
          Inl e \<Rightarrow> Some (Inl e)
        | Inr leaves \<Rightarrow> map_option (\<lambda>level. Inr (''sha256:'' @ hex_lower (hd level))) (merkle_while C leaves)))"

fun roll :: "crates \<Rightarrow> bytes \<Rightarrow> proof_event list \<Rightarrow> chain_error + bytes" where
  "roll C state [] = Inr state"
| "roll C state (e # es) = rbind (event_leaf C e) (\<lambda>leaf. roll C (cr_sha256 C (state @ leaf)) es)"

definition chain_hash :: "crates \<Rightarrow> proof_event list \<Rightarrow> chain_error + string" where
  "chain_hash C events = rbind (roll C (replicate 32 0) events) (\<lambda>state. Inr (''sha256:'' @ hex_lower state))"

subsection \<open>The events as signed documents\<close>

definition event_plain :: "proof_event \<Rightarrow> bool" where
  "event_plain e = (case ev_context e of None \<Rightarrow> True | Some c \<Rightarrow> frac_free c)"

definition event_text :: "crates \<Rightarrow> proof_event \<Rightarrow> string" where
  "event_text C e = struct_text C (event_fields e)"

lemma frac_free_opt_string: "(case map_option JString a of None \<Rightarrow> True | Some j \<Rightarrow> frac_free j)"
  by (cases a) simp_all

lemma provenance_frac_free [simp]: "frac_free (provenance_json p)"
  unfolding provenance_json_def by (rule frac_free_struct) (simp only: frac_free_table_def list.pred_inject prod.case frac_free_opt_string simp_thms)

lemma event_frac_free: "event_plain e \<Longrightarrow> frac_free_table (event_fields e)"
  unfolding frac_free_table_def event_fields_def list.pred_inject prod.case
  by (intro conjI frac_free_opt_string TrueI) (auto simp: event_plain_def split: option.splits)

interpretation event_document: signed_document event_fields "\<lambda>C b. cr_sha256 C b" "\<lambda>C e. cr_sha256 C (as_bytes (event_text C e))"
  "se_signature \<circ> ev_signature" "\<lambda>s e. e\<lparr>ev_signature := (ev_signature e)\<lparr>se_signature := s\<rparr>\<rparr>" event_plain
  by unfold_locales (simp_all add: event_text_def event_frac_free, simp_all add: event_fields_def is_ascii_def)

lemma event_payload: "event_plain e \<Longrightarrow> event_signed_payload C e = Inr (event_text C e)"
proof -
  assume e: "event_plain e"
  have "without_key ''signature'' (event_json e) = JObject (sort_entries (present (event_fields e)))"
    unfolding event_json_def by (rule without_key_present) (simp add: event_fields_def)
  then show ?thesis
    using canon_struct[OF event_frac_free[OF e], of C] by (simp add: event_signed_payload_def event_text_def)
qed

lemma event_hash_plain: "event_plain e \<Longrightarrow> event_hash C e = Inr (sha256_hashref C (as_bytes (event_text C e)))"
  by (simp add: event_hash_def event_payload)

lemma event_leaf_hash: "event_leaf C e = rbind (event_signed_payload C e) (\<lambda>t. Inr (cr_sha256 C (as_bytes t)))"
  by (cases "event_signed_payload C e") (simp_all add: event_leaf_def event_hash_def parse_hashref_sha256)

subsection \<open>The Merkle loop ends\<close>

text \<open>The reference: node \<open>i\<close> of height \<open>k\<close> of the tree over \<open>leaves\<close>, where a level of odd width repeats
  its last node, and the height of the root.\<close>

fun width :: "nat \<Rightarrow> nat \<Rightarrow> nat" where
  "width n 0 = n"
| "width n (Suc k) = (width n k + 1) div 2"

fun merkle_node :: "crates \<Rightarrow> bytes list \<Rightarrow> nat \<Rightarrow> nat \<Rightarrow> bytes" where
  "merkle_node C leaves 0 i = leaves ! i"
| "merkle_node C leaves (Suc k) i =
     cr_sha256 C (merkle_node C leaves k (2 * i) @ merkle_node C leaves k (min (2 * i + 1) (width (length leaves) k - 1)))"

fun merkle_depth :: "nat \<Rightarrow> nat" where
  "merkle_depth n = (if n \<le> 1 then 0 else Suc (merkle_depth ((n + 1) div 2)))"

declare merkle_depth.simps [simp del]

lemma merkle_depth_bounds: "n \<le> 2 ^ merkle_depth n \<and> 2 ^ merkle_depth n \<le> 2 * (n - 1) + 1"
proof (induction n rule: merkle_depth.induct)
  case (1 n)
  show ?case
  proof (cases "n \<le> 2")
    case True
    then consider "n = 0" | "n = 1" | "n = 2" by linarith
    then show ?thesis by cases (simp_all add: merkle_depth.simps)
  next
    case False
    define m where "m = (n + 1) div 2"
    with False have m: "2 \<le> m" "n \<le> 2 * m" "2 * m \<le> n + 1" by linarith+
    have d: "merkle_depth n = Suc (merkle_depth m)" using False by (simp add: merkle_depth.simps[of n] m_def)
    have ih: "m \<le> 2 ^ merkle_depth m" "2 ^ merkle_depth m \<le> 2 * (m - 1) + 1" using 1 False by (simp_all add: m_def)
    have "even (2 ^ merkle_depth m :: nat)" using m(1) by (simp add: merkle_depth.simps[of m])
    then have "2 ^ merkle_depth m \<noteq> 2 * (m - 1) + (1 :: nat)" by presburger
    with ih m show ?thesis unfolding d power_Suc by linarith
  qed
qed

lemma width_shift: "width n (Suc k) = width ((n + 1) div 2) k"
  by (induction k) simp_all

lemma width_depth: "0 < n \<Longrightarrow> width n (merkle_depth n) = 1"
proof (induction n rule: merkle_depth.induct)
  case (1 n)
  then show ?case
    by (cases "n \<le> 1") (simp_all add: merkle_depth.simps[of n] width_shift del: width.simps(2))
qed

lemma hash_pairs_nth: "i < length xs div 2 \<Longrightarrow> hash_pairs C xs ! i = cr_sha256 C (xs ! (2 * i) @ xs ! (2 * i + 1))"
  by (induction C xs arbitrary: i rule: hash_pairs.induct) (auto simp: nth_Cons split: nat.splits)

lemma length_hash_pairs [simp]: "length (hash_pairs C xs) = length xs div 2"
  by (induction C xs rule: hash_pairs.induct) simp_all

lemma length_pad_level [simp]: "length (pad_level xs) = 2 * ((length xs + 1) div 2)"
  by (simp add: pad_level_def) presburger

lemma pad_level_nth: "xs \<noteq> [] \<Longrightarrow> j < length (pad_level xs) \<Longrightarrow> pad_level xs ! j = xs ! min j (length xs - 1)"
  unfolding length_pad_level by (auto simp: pad_level_def nth_append last_conv_nth min_def)

lemma length_merkle_round [simp]: "length (merkle_round C xs) = (length xs + 1) div 2"
  by (simp add: merkle_round_def)

lemma merkle_round_map:
  "0 < w \<Longrightarrow> merkle_round C (map f [0..<w]) = map (\<lambda>i. cr_sha256 C (f (2 * i) @ f (min (2 * i + 1) (w - 1)))) [0..<(w + 1) div 2]"
  by (rule nth_equalityI) (auto simp: merkle_round_def hash_pairs_nth pad_level_nth min_def)

lemma merkle_levels:
  assumes "leaves \<noteq> []"
  shows "(merkle_round C ^^ k) leaves = map (merkle_node C leaves k) [0..<width (length leaves) k]"
proof (induction k)
  case 0
  show ?case by (simp add: map_nth)
next
  case (Suc k)
  have "0 < width (length leaves) k" using assms by (induction k) auto
  with Suc show ?case by (simp add: merkle_round_map)
qed

lemma merkle_while_rounds: "merkle_while C level = Some ((merkle_round C ^^ merkle_depth (length level)) level)"
proof (induction "length level" arbitrary: level rule: less_induct)
  case less
  show ?case
  proof (cases "1 < length level")
    case True
    then have "length (merkle_round C level) < length level" by (simp add: div_less_dividend) 
    from less[OF this] True show ?thesis
      by (simp add: merkle_while.simps[of C level] merkle_depth.simps[of "length level"] funpow_swap1)
  qed (simp add: merkle_while.simps[of C level] merkle_depth.simps[of "length level"])
qed

lemma length_event_leaves: "event_leaves C es = Inr ls \<Longrightarrow> length ls = length es"
  by (induction es arbitrary: ls) (auto simp: rbind_Inr_iff)

text \<open>
  C7. The Merkle loop ends and computes the tree: \<open>merkle_root\<close> returns for every list of events, after as many
  rounds as the tree is high (the least power of two that is not below the number of events), with the root
  of the reference tree, or with the error of the first event that cannot be canonicalised.
\<close>

theorem merkle_root_terminates:
  "merkle_root C events = Some (if events = [] then Inr (''sha256:'' @ hex_lower (replicate 32 0))
     else case event_leaves C events of Inl e \<Rightarrow> Inl e
       | Inr leaves \<Rightarrow> Inr (''sha256:'' @ hex_lower (merkle_node C leaves (merkle_depth (length events)) 0))) \<and>
   merkle_while C level = Some ((merkle_round C ^^ merkle_depth (length level)) level) \<and>
   length level \<le> 2 ^ merkle_depth (length level) \<and> 2 ^ merkle_depth (length level) \<le> 2 * (length level - 1) + 1"
proof (intro conjI)
  have "hd ((merkle_round C ^^ merkle_depth (length events)) ls) = merkle_node C ls (merkle_depth (length events)) 0"
    if "event_leaves C events = Inr ls" "events \<noteq> []" for ls
    using length_event_leaves[OF that(1)] that(2) merkle_levels[of ls] width_depth[of "length ls"] by fastforce
  then show "merkle_root C events = Some (if events = [] then Inr (''sha256:'' @ hex_lower (replicate 32 0))
     else case event_leaves C events of Inl e \<Rightarrow> Inl e
       | Inr leaves \<Rightarrow> Inr (''sha256:'' @ hex_lower (merkle_node C leaves (merkle_depth (length events)) 0)))"
    by (simp add: merkle_root_def merkle_while_rounds length_event_leaves split: sum.splits)
qed (use merkle_while_rounds merkle_depth_bounds[of "length level"] in auto)

subsection \<open>The chain commits to its events\<close>

definition event_agree :: "crates \<Rightarrow> proof_event \<Rightarrow> proof_event \<Rightarrow> bool" where
  "event_agree C e f = (map (map_option (json_norm (cr_nfc C)) \<circ> snd) (event_fields e) =
     map (map_option (json_norm (cr_nfc C)) \<circ> snd) (event_fields f))"

definition event_collide :: "crates \<Rightarrow> proof_event \<Rightarrow> proof_event \<Rightarrow> bool" where
  "event_collide C e f = collision (cr_sha256 C) (as_bytes (event_text C e)) (as_bytes (event_text C f))"

lemma event_hash_agree:
  assumes "nfc_ok C" "event_plain e" "event_plain f" "event_hash C e = event_hash C f"
  shows "event_agree C e f \<or> event_collide C e f"
  using event_document.signature_binds[OF assms(1-3)] assms(4)
  by (simp add: event_hash_plain assms(2,3) sha256_hashref_eq event_agree_def event_collide_def event_text_def)

lemma is_ascii_hex_lower: "is_ascii (hex_lower bs)"
proof (induction bs)
  case (Cons b bs)
  have "of_char (hex_digit d) < (128 :: nat)" if "d < 16" for d using that by (simp add: hex_digit_def)
  moreover have "unat b div 16 < 16" using unat_byte_less[of b] by linarith
  ultimately show ?case using Cons by (simp add: is_ascii_def hex_lower_def hex_byte_def)
qed (simp add: is_ascii_def hex_lower_def)

lemma nfc_hashref: "nfc_ok C \<Longrightarrow> cr_nfc C (sha256_hashref C b) = sha256_hashref C b"
  using is_ascii_hex_lower by (simp add: nfc_ok_def sha256_hashref_def is_ascii_def)

lemma parent_hash_agree:
  assumes "event_agree C e f" "nfc_ok C" "ev_parent_hash e = Some (sha256_hashref C a)" "ev_parent_hash f = Some (sha256_hashref C b)"
  shows "sha256_hashref C a = sha256_hashref C b"
proof -
  have "cr_nfc C (sha256_hashref C a) = cr_nfc C (sha256_hashref C b)"
    using assms(1,3,4) by (simp add: event_agree_def event_fields_def)
  with assms(2) show ?thesis by (simp add: nfc_hashref)
qed

lemma verify_links_Cons:
  assumes "event_plain p"
  shows "verify_links C i p (e # es) = Inr () \<longleftrightarrow>
     ev_parent_hash e = Some (sha256_hashref C (as_bytes (event_text C p))) \<and> verify_links C (Suc i) e es = Inr ()"
  by (auto simp: event_hash_plain[OF assms] split: option.splits)

lemma links_bind:
  assumes "nfc_ok C" "list_all event_plain (p # es)" "list_all event_plain (q # fs)" "length es = length fs"
    "verify_links C i p es = Inr ()" "verify_links C j q fs = Inr ()"
    "event_hash C (last (p # es)) = event_hash C (last (q # fs))"
  shows "list_all2 (event_agree C) (p # es) (q # fs) \<or> list_ex (\<lambda>(e, f). event_collide C e f) (zip (p # es) (q # fs))"
  using assms
proof (induction es arbitrary: p q fs i j)
  case Nil
  then show ?case using event_hash_agree[of C p q] by simp
next
  case (Cons e es)
  then obtain f fs' where fs: "fs = f # fs'" by (cases fs) auto
  note plain = Cons.prems(2,3)[unfolded fs]
  have p: "event_plain p" "event_plain q" using plain by simp_all
  note links = Cons.prems(5,6)[unfolded fs verify_links_Cons[OF p(1)] verify_links_Cons[OF p(2)]]
  have "list_all2 (event_agree C) (e # es) (f # fs') \<or> list_ex (\<lambda>(e, f). event_collide C e f) (zip (e # es) (f # fs'))"
    using plain links Cons.prems(1,4,7) fs by (intro Cons.IH) auto
  moreover have "event_agree C p q \<or> event_collide C p q" if "event_agree C e f"
    using event_hash_agree[OF Cons.prems(1) p] parent_hash_agree[OF that Cons.prems(1)] links p
    by (simp add: event_hash_plain)
  ultimately show ?case by (auto simp: fs)
qed

text \<open>
  C6. A verified chain commits to its whole history: two chains of the same length that both verify and end in an
  event with the same hash agree in every signed field of every event (strings up to Unicode normalisation,
  objects up to order), or the payloads of two events at the same position are a collision of SHA-256.
  Changing, reordering or replacing any earlier event of a log therefore changes its head.
\<close>

theorem verified_chain_binds:
  assumes "nfc_ok C" "list_all event_plain es" "list_all event_plain fs" "length es = length fs" "es \<noteq> []"
    and "verify_chain C es = Inr ()" "verify_chain C fs = Inr ()" "event_hash C (last es) = event_hash C (last fs)"
  shows "list_all2 (event_agree C) es fs \<or> list_ex (\<lambda>(e, f). event_collide C e f) (zip es fs)"
proof -
  obtain p es' q fs' where "es = p # es'" "fs = q # fs'"
    using assms(4,5) by (metis length_0_conv neq_Nil_conv)
  with assms links_bind[of C p es' q fs' 1 1] show ?thesis by simp
qed

subsection \<open>The summaries commit to their events\<close>

definition digests :: "bytes list \<Rightarrow> bool" where
  "digests = list_all (\<lambda>d. length d = 32)"

definition crossed :: "crates \<Rightarrow> bytes list \<Rightarrow> bytes list \<Rightarrow> bool" where
  "crossed C as bs = (\<exists>a \<in> set as. \<exists>b \<in> set bs. collision (cr_sha256 C) a b)"

lemma crossed_append: "crossed C as bs \<Longrightarrow> crossed C (l @ as @ r) (l' @ bs @ r')"
  by (auto simp: crossed_def)

definition event_digests :: "crates \<Rightarrow> proof_event list \<Rightarrow> bytes list" where
  "event_digests C es = map (\<lambda>e. cr_sha256 C (as_bytes (event_text C e))) es"

definition event_payloads :: "crates \<Rightarrow> proof_event list \<Rightarrow> bytes list" where
  "event_payloads C es = map (\<lambda>e. as_bytes (event_text C e)) es"

lemma digests_bind:
  assumes "nfc_ok C" "list_all event_plain es" "list_all event_plain fs" "event_digests C es = event_digests C fs"
  shows "list_all2 (event_agree C) es fs \<or> crossed C (event_payloads C es) (event_payloads C fs)"
  using assms(2-4)
proof (induction es arbitrary: fs)
  case (Cons e es)
  then obtain f fs' where fs: "fs = f # fs'" by (cases fs) (auto simp: event_digests_def)
  have "list_all2 (event_agree C) es fs' \<or> crossed C (event_payloads C es) (event_payloads C fs')"
    using Cons.prems fs by (intro Cons.IH) (simp_all add: event_digests_def)
  moreover have "event_agree C e f \<or> event_collide C e f"
    using Cons.prems fs by (intro event_hash_agree[OF assms(1)]) (simp_all add: event_digests_def event_hash_plain sha256_hashref_eq)
  ultimately show ?case by (auto simp: fs crossed_def event_payloads_def event_collide_def)
qed (simp add: event_digests_def)

locale commitment =
  fixes commit :: "crates \<Rightarrow> bytes list \<Rightarrow> 'c"
    and inputs :: "crates \<Rightarrow> bytes list \<Rightarrow> bytes list"
  assumes binding: "digest_ok C \<Longrightarrow> length xs = length ys \<Longrightarrow> digests xs \<Longrightarrow> digests ys \<Longrightarrow>
    commit C xs = commit C ys \<Longrightarrow> xs = ys \<or> crossed C (inputs C xs) (inputs C ys)"
begin

lemma binds_events:
  assumes "nfc_ok C" "digest_ok C" "list_all event_plain es" "list_all event_plain fs" "length es = length fs"
    and "commit C (event_digests C es) = commit C (event_digests C fs)"
  shows "list_all2 (event_agree C) es fs \<or> crossed C (event_payloads C es) (event_payloads C fs) \<or>
    crossed C (inputs C (event_digests C es)) (inputs C (event_digests C fs))"
proof -
  have "digests (event_digests C x)" for x
    using assms(2) by (simp add: digests_def event_digests_def digest_ok_def list_all_iff)
  then show ?thesis
    using binding[OF assms(2), of "event_digests C es" "event_digests C fs"] digests_bind[OF assms(1,3,4)] assms(5,6)
    by (auto simp: event_digests_def)
qed

end

text \<open>The strings hashed by the rounds of the Merkle loop, and by the rolling hash.\<close>

fun pair_texts :: "bytes list \<Rightarrow> bytes list" where
  "pair_texts (a # b # rest) = (a @ b) # pair_texts rest"
| "pair_texts _ = []"

function merkle_inputs :: "crates \<Rightarrow> bytes list \<Rightarrow> bytes list" where
  "merkle_inputs C level =
     (if length level \<le> 1 then [] else pair_texts (pad_level level) @ merkle_inputs C (merkle_round C level))"
  by auto
termination by (relation "measure (length \<circ> snd)") auto

declare merkle_inputs.simps [simp del]

definition rolled :: "crates \<Rightarrow> bytes \<Rightarrow> bytes list \<Rightarrow> bytes" where
  "rolled C = foldl (\<lambda>state leaf. cr_sha256 C (state @ leaf))"

fun roll_inputs :: "crates \<Rightarrow> bytes \<Rightarrow> bytes list \<Rightarrow> bytes list" where
  "roll_inputs C state [] = []"
| "roll_inputs C state (l # ls) = (state @ l) # roll_inputs C (cr_sha256 C (state @ l)) ls"

lemma hash_pairs_bind:
  assumes "length xs = length ys" "even (length xs)" "digests xs" "digests ys" "hash_pairs C xs = hash_pairs C ys"
  shows "xs = ys \<or> crossed C (pair_texts xs) (pair_texts ys)"
  using assms
proof (induction xs arbitrary: ys rule: pair_texts.induct)
  case (1 a b xs)
  then obtain c d ys' where ys: "ys = c # d # ys'" by (cases ys rule: pair_texts.cases) auto
  have "xs = ys' \<or> crossed C (pair_texts xs) (pair_texts ys')"
    using 1 ys by (intro "1.IH") (simp_all add: digests_def)
  moreover have "a @ b = c @ d \<or> collision (cr_sha256 C) (a @ b) (c @ d)"
    using 1 ys by (simp add: collision_def)
  ultimately show ?case using 1 ys by (auto simp: crossed_def digests_def)
qed auto

lemma pad_level_inject: "length xs = length ys \<Longrightarrow> pad_level xs = pad_level ys \<longleftrightarrow> xs = ys"
  by (auto simp: pad_level_def)

lemma digests_round: "digest_ok C \<Longrightarrow> digests (merkle_round C xs)"
proof -
  assume "digest_ok C"
  then have "digests (hash_pairs C ys)" for ys
    by (induction C ys rule: hash_pairs.induct) (simp_all add: digests_def digest_ok_def)
  then show ?thesis by (simp add: merkle_round_def)
qed

lemma digests_pad: "digests xs \<Longrightarrow> digests (pad_level xs)"
  by (cases "xs = []") (auto simp: digests_def pad_level_def list_all_iff)

lemma merkle_while_bind:
  assumes "digest_ok C" "length xs = length ys" "digests xs" "digests ys" "merkle_while C xs = merkle_while C ys"
  shows "xs = ys \<or> crossed C (merkle_inputs C xs) (merkle_inputs C ys)"
  using assms
proof (induction C xs arbitrary: ys rule: merkle_inputs.induct)
  case (1 C xs)
  show ?case
  proof (cases "length xs \<le> 1")
    case True
    with 1 show ?thesis by (simp add: merkle_while.simps)
  next
    case False
    have while: "merkle_while C (merkle_round C xs) = merkle_while C (merkle_round C ys)"
      using False 1 merkle_while.simps[of C xs] merkle_while.simps[of C ys] by simp
    have "merkle_round C xs = merkle_round C ys \<or>
        crossed C (merkle_inputs C (merkle_round C xs)) (merkle_inputs C (merkle_round C ys))"
      using False 1 while by (intro "1.IH") (simp_all add: digests_round)
    moreover have "xs = ys \<or> crossed C (pair_texts (pad_level xs)) (pair_texts (pad_level ys))"
      if "merkle_round C xs = merkle_round C ys"
      using hash_pairs_bind[of "pad_level xs" "pad_level ys" C] that 1
      by (simp add: digests_pad merkle_round_def pad_level_inject)
    ultimately show ?thesis using False 1
      by (auto simp: merkle_inputs.simps[of C xs] merkle_inputs.simps[of C ys] crossed_def)
  qed
qed

lemma rolled_bind:
  assumes "digest_ok C" "length xs = length ys" "digests xs" "digests ys" "length s = length t" "rolled C s xs = rolled C t ys"
  shows "s = t \<and> xs = ys \<or> crossed C (roll_inputs C s xs) (roll_inputs C t ys)"
  using assms(2-)
proof (induction xs arbitrary: s t ys)
  case (Cons x xs)
  then obtain y ys' where ys: "ys = y # ys'" by (cases ys) auto
  have "cr_sha256 C (s @ x) = cr_sha256 C (t @ y) \<and> xs = ys' \<or>
      crossed C (roll_inputs C (cr_sha256 C (s @ x)) xs) (roll_inputs C (cr_sha256 C (t @ y)) ys')"
    using Cons.prems ys assms(1) by (intro Cons.IH) (simp_all add: digests_def rolled_def digest_ok_def)
  moreover have "s @ x = t @ y \<or> collision (cr_sha256 C) (s @ x) (t @ y)" if "cr_sha256 C (s @ x) = cr_sha256 C (t @ y)"
    using that by (auto simp: collision_def)
  ultimately show ?case using Cons.prems ys by (auto simp: crossed_def)
qed (simp add: rolled_def)

interpretation merkle_commitment: commitment merkle_while merkle_inputs
  by unfold_locales (rule merkle_while_bind)

interpretation rolling_commitment: commitment "\<lambda>C. rolled C (replicate 32 0)" "\<lambda>C. roll_inputs C (replicate 32 0)"
  by unfold_locales (use rolled_bind in blast)

lemma event_leaves_plain: "list_all event_plain es \<Longrightarrow> event_leaves C es = Inr (event_digests C es)"
  by (induction es) (simp_all add: event_digests_def event_leaf_hash event_payload)

lemma roll_plain: "list_all event_plain es \<Longrightarrow> roll C s es = Inr (rolled C s (event_digests C es))"
  by (induction es arbitrary: s) (simp_all add: event_digests_def event_leaf_hash event_payload rolled_def)

lemma hex_lower_eq_iff: "hex_lower a = hex_lower b \<longleftrightarrow> a = b"
  by (metis Inr_inject parse_hex_hex_lower)

lemma merkle_root_eqD:
  assumes "list_all event_plain es" "list_all event_plain fs" "length es = length fs" "merkle_root C es = merkle_root C fs"
  shows "merkle_while C (event_digests C es) = merkle_while C (event_digests C fs)"
proof (cases "es = []")
  case False
  have one: "\<exists>h. merkle_while C (event_digests C x) = Some [h]" if "x \<noteq> []" for x
    using that merkle_levels[where C = C and leaves = "event_digests C x" and k = "merkle_depth (length x)"] width_depth[of "length x"]
    by (simp add: merkle_while_rounds event_digests_def)
  from False assms(3) have "fs \<noteq> []" by auto
  with one[OF False] one[OF this] assms False show ?thesis
    by (auto simp: merkle_root_def event_leaves_plain hex_lower_eq_iff)
qed (use assms in simp)

lemma chain_hash_eqD:
  assumes "list_all event_plain es" "list_all event_plain fs" "chain_hash C es = chain_hash C fs"
  shows "rolled C (replicate 32 0) (event_digests C es) = rolled C (replicate 32 0) (event_digests C fs)"
  using assms by (simp add: chain_hash_def roll_plain hex_lower_eq_iff)

definition summary_inputs :: "crates \<Rightarrow> proof_event list \<Rightarrow> bytes list" where
  "summary_inputs C es = event_payloads C es @ merkle_inputs C (event_digests C es) @
     roll_inputs C (replicate 32 0) (event_digests C es)"

text \<open>
  C9. The summaries of a bundle commit to its events: two lists of the same length with the same Merkle root, or with
  the same chain hash, agree in every signed field of every event, or a string hashed for the one list
  collides under SHA-256 with a string hashed for the other. (The length matters: the root of an odd list is
  also the root of the list with its last event doubled.)
\<close>

theorem summaries_bind_events:
  assumes "nfc_ok C" "digest_ok C" "list_all event_plain es" "list_all event_plain fs" "length es = length fs"
    and "merkle_root C es = merkle_root C fs \<or> chain_hash C es = chain_hash C fs"
  shows "list_all2 (event_agree C) es fs \<or> crossed C (summary_inputs C es) (summary_inputs C fs)"
  using merkle_commitment.binds_events[OF assms(1-5)] rolling_commitment.binds_events[OF assms(1-5)] assms(6)
    merkle_root_eqD[OF assms(3-5)] chain_hash_eqD[OF assms(3,4)]
  by (auto simp: summary_inputs_def crossed_def)

lemma event_leaves_append:
  "event_leaves C (es @ fs) = rbind (event_leaves C es) (\<lambda>xs. rbind (event_leaves C fs) (\<lambda>ys. Inr (xs @ ys)))"
proof (induction es)
  case (Cons e es)
  then show ?case by (cases "event_leaf C e"; cases "event_leaves C es"; cases "event_leaves C fs") simp_all
qed (cases "event_leaves C fs"; simp)

lemma merkle_while_doubled:
  assumes "even (length xs)" "xs \<noteq> []"
  shows "merkle_while C (xs @ [l]) = merkle_while C (xs @ [l, l])"
proof -
  from assms(1) have "pad_level (xs @ [l]) = pad_level (xs @ [l, l])" by (auto simp: pad_level_def)
  with assms show ?thesis
    by (subst (1 2) merkle_while.simps) (simp add: merkle_round_def)
qed

lemma merkle_root_doubled:
  assumes "even (length es)" "es \<noteq> []"
  shows "merkle_root C (es @ [e]) = merkle_root C (es @ [e, e])"
proof (cases "event_leaf C e"; cases "event_leaves C es")
  fix l xs
  assume "event_leaf C e = Inr l" and xs: "event_leaves C es = Inr xs"
  moreover from length_event_leaves[OF xs] assms have "merkle_while C (xs @ [l]) = merkle_while C (xs @ [l, l])"
    by (intro merkle_while_doubled) auto
  ultimately show ?thesis by (simp add: merkle_root_def event_leaves_append)
qed (simp_all add: merkle_root_def event_leaves_append)

subsection \<open>An example\<close>

definition sample_event :: "string \<Rightarrow> string option \<Rightarrow> proof_event" where
  "sample_event name parent = \<lparr>ev_event_version = EventV1, ev_id = name, ev_type = ''action.approved'',
     ev_actor_id = ''tf:actor:agent:example.com/a'', ev_instance_id = None, ev_session_id = None,
     ev_timestamp = ''2026-04-24T12:00:00Z'', ev_level = L2, ev_subject_ref = None, ev_payload_hash = None,
     ev_parent_hash = parent, ev_context = None, ev_provenance = None,
     ev_signature = \<lparr>se_algorithm = ''ed25519'', se_signer = ''tf:actor:agent:example.com/a'', se_signature = ''AAAA'',
       se_hash_alg = None, se_alt_algorithm = None, se_alt_signature = None\<rparr>\<rparr>"

text \<open>With a constant hash two different chains have the same head, so the hypotheses hold and the payloads collide.\<close>

definition flat_crates :: crates where
  "flat_crates = sample_crates\<lparr>cr_sha256 := \<lambda>_. replicate 32 0\<rparr>"

definition sample_chain :: "string \<Rightarrow> proof_event list" where
  "sample_chain name = [sample_event name None,
     sample_event ''e2'' (Some (sha256_hashref flat_crates (as_bytes (event_text flat_crates (sample_event name None)))))]"

lemma flat_crates_ok: "nfc_ok flat_crates" "digest_ok flat_crates"
  by (simp_all add: flat_crates_def sample_crates_def nfc_ok_def digest_ok_def)

lemma sample_event_plain [simp]: "event_plain (sample_event name parent)"
  by (simp add: event_plain_def sample_event_def)

lemma sample_chain_plain [simp]: "list_all event_plain (sample_chain name)"
  by (simp add: sample_chain_def)

lemma sample_chain_verifies: "verify_chain flat_crates (sample_chain name) = Inr ()"
  by (simp add: sample_chain_def event_hash_plain) (simp add: sample_event_def)

lemma sample_chain_head: "event_hash flat_crates (last (sample_chain a)) = event_hash flat_crates (last (sample_chain b))"
  by (simp add: sample_chain_def event_hash_plain sha256_hashref_def) (simp add: flat_crates_def)

theorem verified_chain_binds_witness:
  "verify_chain flat_crates (sample_chain ''e1'') = Inr () \<and>
   (list_all2 (event_agree flat_crates) (sample_chain ''e1'') (sample_chain ''x1'') \<or>
    list_ex (\<lambda>(e, f). event_collide flat_crates e f) (zip (sample_chain ''e1'') (sample_chain ''x1'')))"
proof -
  have "length (sample_chain ''e1'') = length (sample_chain ''x1'')" "sample_chain ''e1'' \<noteq> []" by (simp_all add: sample_chain_def)
  from verified_chain_binds[OF flat_crates_ok(1) sample_chain_plain sample_chain_plain this
      sample_chain_verifies sample_chain_verifies sample_chain_head] sample_chain_verifies
  show ?thesis by blast
qed

theorem summaries_bind_events_witness:
  "chain_hash flat_crates (sample_chain ''e1'') = chain_hash flat_crates (sample_chain ''x1'') \<and>
   (list_all2 (event_agree flat_crates) (sample_chain ''e1'') (sample_chain ''x1'') \<or>
    crossed flat_crates (summary_inputs flat_crates (sample_chain ''e1'')) (summary_inputs flat_crates (sample_chain ''x1'')))"
proof -
  have l: "length (sample_chain ''e1'') = length (sample_chain ''x1'')" by (simp add: sample_chain_def)
  have "rolled flat_crates (replicate 32 0) (event_digests flat_crates (sample_chain n)) = replicate 32 0" for n
    by (simp add: rolled_def event_digests_def sample_chain_def flat_crates_def)
  then have c: "chain_hash flat_crates (sample_chain ''e1'') = chain_hash flat_crates (sample_chain ''x1'')"
    by (simp add: chain_hash_def roll_plain)
  with summaries_bind_events[OF flat_crates_ok sample_chain_plain sample_chain_plain l] show ?thesis by blast
qed

end
