(* ===== verification/Framing.thy ===== *)
theory Framing
  imports Chain Cbor
begin

text \<open>
  The file and wire containers: \<open>.tflog\<close> and \<open>.tfproof\<close> (\<open>format.rs\<close>), \<open>.tfbundle\<close> and \<open>.tfpkt\<close>
  (\<open>binary_format.rs\<close>). The code that \<open>serde\<close> derives for reading a struct back, and the parser of
  \<open>serde_json\<close>, are parameters: the record \<open>readers\<close>, and for the generic functions of
  \<open>binary_format.rs\<close> an argument per trait (\<open>ser\<close> for \<open>Serialize\<close>, \<open>de\<close> for \<open>DeserializeOwned\<close>).
\<close>

subsection \<open>Bundles\<close>

datatype bundle_version = BundleV1

fun bundle_version_str :: "bundle_version \<Rightarrow> string" where
  "bundle_version_str BundleV1 = ''1''"

record transparency_anchor =
  ta_kind :: string
  ta_url :: "string option"
  ta_inclusion_proof :: "json option"

record proof_bundle =
  pb_bundle_version :: bundle_version
  pb_events :: "proof_event list"
  pb_merkle_root :: "string option"
  pb_chain_hash :: "string option"
  pb_transparency_anchor :: "transparency_anchor option"
  pb_signature :: signature_envelope

definition anchor_json :: "transparency_anchor \<Rightarrow> json" where
  "anchor_json a = JObject (sort_entries (present
     [(''kind'', Some (JString (ta_kind a))), (''url'', map_option JString (ta_url a)),
      (''inclusion_proof'', ta_inclusion_proof a)]))"

definition bundle_json :: "proof_bundle \<Rightarrow> json" where
  "bundle_json b = JObject (sort_entries (present
     [(''bundle_version'', Some (JString (bundle_version_str (pb_bundle_version b)))),
      (''events'', Some (JArray (map event_json (pb_events b)))),
      (''merkle_root'', map_option JString (pb_merkle_root b)), (''chain_hash'', map_option JString (pb_chain_hash b)),
      (''transparency_anchor'', map_option anchor_json (pb_transparency_anchor b)),
      (''signature'', Some (envelope_json (pb_signature b)))]))"

subsection \<open>format.rs\<close>

record readers =
  rd_crates :: crates
  rd_event :: "json \<Rightarrow> string + proof_event"
  rd_bundle :: "json \<Rightarrow> string + proof_bundle"

datatype format_error =
    FmtTruncated nat
  | FmtBadMagic nat
  | FmtBadLength nat nat
  | FmtCanonical string
  | FmtSerde string
  | FmtUtf8 string

definition TFLOG_MAGIC :: bytes where
  "TFLOG_MAGIC = as_bytes ''TFLOG'' @ [1, 0, 0]"

definition TFPROOF_MAGIC :: bytes where
  "TFPROOF_MAGIC = as_bytes ''TFPROOF'' @ [1]"

definition put_u32_be :: "bytes \<Rightarrow> nat \<Rightarrow> format_error + bytes" where
  "put_u32_be buf n = (if n < 2 ^ 32 then Inr (buf @ be_bytes 4 n) else Inl (FmtBadLength (length buf) (2 ^ 32 - 1)))"

definition read_u32_be :: "bytes \<Rightarrow> nat \<Rightarrow> format_error + nat" where
  "read_u32_be buf off = (if off + 4 > length buf then Inl (FmtTruncated off) else Inr (be_nat (take 4 (drop off buf))))"

text \<open>\<open>Utf8Error\<close>: where the first ill-formed sequence starts, and how long it is unless the input ends in it.\<close>

fun utf8_fault :: "nat \<Rightarrow> nat list \<Rightarrow> (nat \<times> nat option) option" where
  "utf8_fault i [] = None"
| "utf8_fault i (a # r) =
     (if a < 128 then utf8_fault (i + 1) r
      else if 194 \<le> a \<and> a < 224 then
        (case r of [] \<Rightarrow> Some (i, None)
         | b # r2 \<Rightarrow> if utf8_cont b then utf8_fault (i + 2) r2 else Some (i, Some 1))
      else if 224 \<le> a \<and> a < 240 then
        (case r of [] \<Rightarrow> Some (i, None)
         | b # r2 \<Rightarrow> if \<not> (utf8_cont b \<and> (a = 224 \<longrightarrow> 160 \<le> b) \<and> (a = 237 \<longrightarrow> b < 160)) then Some (i, Some 1) else
        (case r2 of [] \<Rightarrow> Some (i, None)
         | c # r3 \<Rightarrow> if utf8_cont c then utf8_fault (i + 3) r3 else Some (i, Some 2)))
      else if 240 \<le> a \<and> a < 245 then
        (case r of [] \<Rightarrow> Some (i, None)
         | b # r2 \<Rightarrow> if \<not> (utf8_cont b \<and> (a = 240 \<longrightarrow> 144 \<le> b) \<and> (a = 244 \<longrightarrow> b < 144)) then Some (i, Some 1) else
        (case r2 of [] \<Rightarrow> Some (i, None)
         | c # r3 \<Rightarrow> if \<not> utf8_cont c then Some (i, Some 2) else
        (case r3 of [] \<Rightarrow> Some (i, None)
         | d # r4 \<Rightarrow> if utf8_cont d then utf8_fault (i + 4) r4 else Some (i, Some 3))))
      else Some (i, Some 1))"

fun utf8_error_str :: "nat \<times> nat option \<Rightarrow> string" where
  "utf8_error_str (i, Some n) = ''invalid utf-8 sequence of '' @ show_nat n @ '' bytes from index '' @ show_nat i"
| "utf8_error_str (i, None) = ''incomplete utf-8 byte sequence from index '' @ show_nat i"

definition str_from_utf8 :: "bytes \<Rightarrow> format_error + string" where
  "str_from_utf8 bs = (case utf8_fault 0 (map unat bs) of None \<Rightarrow> Inr (of_bytes bs) | Some e \<Rightarrow> Inl (FmtUtf8 (utf8_error_str e)))"

definition json_body :: "crates \<Rightarrow> json \<Rightarrow> format_error + string" where
  "json_body C v = map_err (\<lambda>e. FmtCanonical (canonical_error_str e)) (canon C v)"

definition parse_body :: "crates \<Rightarrow> (json \<Rightarrow> string + 'a) \<Rightarrow> bytes \<Rightarrow> format_error + 'a" where
  "parse_body C de bs =
     rbind (str_from_utf8 bs) (\<lambda>s.
     rbind (map_err FmtSerde (cr_json_parse C (as_bytes s))) (\<lambda>v.
     map_err FmtSerde (de v)))"

definition put_block :: "bytes \<Rightarrow> bytes \<Rightarrow> format_error + bytes" where
  "put_block buf block = rbind (put_u32_be buf (length block)) (\<lambda>buf'. Inr (buf' @ block))"

fun write_frames :: "crates \<Rightarrow> bytes \<Rightarrow> proof_event list \<Rightarrow> format_error + bytes" where
  "write_frames C buf [] = Inr buf"
| "write_frames C buf (e # es) =
     rbind (json_body C (event_json e)) (\<lambda>body.
     rbind (put_block buf (as_bytes body)) (\<lambda>buf'. write_frames C buf' es))"

definition write_tflog :: "crates \<Rightarrow> proof_event list \<Rightarrow> format_error + bytes" where
  "write_tflog C events = write_frames C TFLOG_MAGIC events"

text \<open>\<open>append_tflog\<close> extends the caller's buffer, whose new value is the second component.\<close>

definition append_tflog :: "crates \<Rightarrow> proof_event \<Rightarrow> bytes \<Rightarrow> (format_error + unit) \<times> bytes" where
  "append_tflog C event existing =
     (if existing \<noteq> [] \<and> (length existing < length TFLOG_MAGIC \<or> take (length TFLOG_MAGIC) existing \<noteq> TFLOG_MAGIC)
      then (Inl (FmtBadMagic 0), existing)
      else
        let existing1 = (if existing = [] then TFLOG_MAGIC else existing) in
        case rbind (json_body C (event_json event)) (\<lambda>body. put_block existing1 (as_bytes body)) of
          Inl e \<Rightarrow> (Inl e, existing1)
        | Inr existing2 \<Rightarrow> (Inr (), existing2))"

function read_frames :: "readers \<Rightarrow> bytes \<Rightarrow> nat \<Rightarrow> format_error + proof_event list" where
  "read_frames R buf off =
     (if off < length buf then
        rbind (read_u32_be buf off) (\<lambda>len.
        if off + 4 + len > length buf then Inl (FmtBadLength off len)
        else rbind (parse_body (rd_crates R) (rd_event R) (take len (drop (off + 4) buf))) (\<lambda>event.
        rbind (read_frames R buf (off + 4 + len)) (\<lambda>es. Inr (event # es))))
      else Inr [])"
  by auto
termination by (relation "measure (\<lambda>(R, buf, off). length buf - off)") auto

declare read_frames.simps [simp del]

definition read_tflog :: "readers \<Rightarrow> bytes \<Rightarrow> format_error + proof_event list" where
  "read_tflog R buf =
     (if length buf < length TFLOG_MAGIC then Inl (FmtTruncated 0)
      else if take (length TFLOG_MAGIC) buf \<noteq> TFLOG_MAGIC then Inl (FmtBadMagic 0)
      else read_frames R buf (length TFLOG_MAGIC))"

definition write_tfproof :: "crates \<Rightarrow> proof_bundle \<Rightarrow> bytes \<Rightarrow> format_error + bytes" where
  "write_tfproof C bundle signature =
     rbind (json_body C (bundle_json bundle)) (\<lambda>body.
     rbind (put_block TFPROOF_MAGIC (as_bytes body)) (\<lambda>buf. put_block buf signature))"

record tfproof_parts =
  tp_bundle :: proof_bundle
  tp_signature :: bytes
  tp_canonical_body :: bytes

text \<open>A length prefix and the block it announces, with the offset after them.\<close>

definition read_block :: "bytes \<Rightarrow> nat \<Rightarrow> format_error + bytes \<times> nat" where
  "read_block buf off =
     rbind (read_u32_be buf off) (\<lambda>len.
       if off + 4 + len > length buf then Inl (FmtBadLength off len)
       else Inr (take len (drop (off + 4) buf), off + 4 + len))"

definition read_tfproof :: "readers \<Rightarrow> bytes \<Rightarrow> format_error + tfproof_parts" where
  "read_tfproof R buf =
     (if length buf < length TFPROOF_MAGIC then Inl (FmtTruncated 0)
      else if take (length TFPROOF_MAGIC) buf \<noteq> TFPROOF_MAGIC then Inl (FmtBadMagic 0)
      else
        rbind (read_block buf (length TFPROOF_MAGIC)) (\<lambda>(body_slice, off).
        rbind (parse_body (rd_crates R) (rd_bundle R) body_slice) (\<lambda>bundle.
        rbind (read_block buf off) (\<lambda>(signature, _).
          Inr \<lparr>tp_bundle = bundle, tp_signature = signature, tp_canonical_body = body_slice\<rparr>))))"

subsection \<open>binary_format.rs\<close>

definition TFBUNDLE_MAGIC :: bytes where
  "TFBUNDLE_MAGIC = [0x54, 0x46, 0x42, 0x4e, 0x44, 0x01, 0x00, 0x00]"

definition TFPKT_MAGIC :: bytes where
  "TFPKT_MAGIC = [0x54, 0x46, 0x50, 0x4b, 0x54, 0x01, 0x00, 0x00]"

datatype binary_format_error =
    BinBadMagic
  | BinTruncated nat
  | BinCbor string
  | LengthOutOfRange nat

definition bin_put_u32_be :: "bytes \<Rightarrow> nat \<Rightarrow> binary_format_error + bytes" where
  "bin_put_u32_be buf n = (if n > 2 ^ 32 - 1 then Inl (LengthOutOfRange n) else Inr (buf @ be_bytes 4 n))"

definition bin_read_u32_be :: "bytes \<Rightarrow> nat \<Rightarrow> binary_format_error + nat" where
  "bin_read_u32_be buf off = (if off + 4 > length buf then Inl (BinTruncated off) else Inr (be_nat (take 4 (drop off buf))))"

fun canonicalize_json :: "json \<Rightarrow> json" where
  "canonicalize_json (JObject es) =
     JObject (fold (\<lambda>(k, v). obj_insert k v) (sort_entries (map (\<lambda>(k, v). (k, canonicalize_json v)) es)) [])"
| "canonicalize_json (JArray xs) = JArray (map canonicalize_json xs)"
| "canonicalize_json other = other"

definition cbor_encode_as :: "('a \<Rightarrow> json) \<Rightarrow> 'a \<Rightarrow> binary_format_error + bytes" where
  "cbor_encode_as ser v =
     map_err (\<lambda>e. BinCbor (cbor_error_str e)) (rbind (from_json (canonicalize_json (ser v))) cbor_encode)"

definition cbor_decode_as :: "(json \<Rightarrow> string + 'a) \<Rightarrow> bytes \<Rightarrow> binary_format_error + 'a" where
  "cbor_decode_as de bs =
     rbind (map_err (\<lambda>e. BinCbor (cbor_error_str e)) (rbind (cbor_decode bs) to_json)) (\<lambda>j. map_err BinCbor (de j))"

definition bin_put_block :: "bytes \<Rightarrow> bytes \<Rightarrow> binary_format_error + bytes" where
  "bin_put_block buf block = rbind (bin_put_u32_be buf (length block)) (\<lambda>buf'. Inr (buf' @ block))"

definition bin_read_block :: "bytes \<Rightarrow> nat \<Rightarrow> binary_format_error + bytes \<times> nat" where
  "bin_read_block buf off =
     rbind (bin_read_u32_be buf off) (\<lambda>len.
       if off + 4 + len > length buf then Inl (BinTruncated (off + 4))
       else Inr (take len (drop (off + 4) buf), off + 4 + len))"

definition write_tfbundle :: "('a \<Rightarrow> json) \<Rightarrow> 'a \<Rightarrow> bytes option \<Rightarrow> binary_format_error + bytes" where
  "write_tfbundle ser body signature =
     rbind (cbor_encode_as ser body) (\<lambda>body_bytes.
     rbind (bin_put_block TFBUNDLE_MAGIC body_bytes) (\<lambda>out.
     bin_put_block out (unwrap_or signature [])))"

record tfbundle_parts =
  tb_body :: cbor
  tb_signature :: bytes
  tb_body_bytes :: bytes

definition read_tfbundle :: "bytes \<Rightarrow> binary_format_error + tfbundle_parts" where
  "read_tfbundle buf =
     (if length buf < length TFBUNDLE_MAGIC then Inl BinBadMagic
      else if take (length TFBUNDLE_MAGIC) buf \<noteq> TFBUNDLE_MAGIC then Inl BinBadMagic
      else
        rbind (bin_read_block buf (length TFBUNDLE_MAGIC)) (\<lambda>(body_bytes, off).
        rbind (map_err (\<lambda>e. BinCbor (cbor_error_str e)) (cbor_decode body_bytes)) (\<lambda>body.
        rbind (bin_read_block buf off) (\<lambda>(signature, _).
          Inr \<lparr>tb_body = body, tb_signature = signature, tb_body_bytes = body_bytes\<rparr>))))"

definition read_tfbundle_typed :: "(json \<Rightarrow> string + 'a) \<Rightarrow> bytes \<Rightarrow> binary_format_error + 'a \<times> bytes" where
  "read_tfbundle_typed de buf =
     rbind (read_tfbundle buf) (\<lambda>parts.
     rbind (cbor_decode_as de (tb_body_bytes parts)) (\<lambda>body. Inr (body, tb_signature parts)))"

definition write_tfpkt :: "('p \<Rightarrow> json) \<Rightarrow> 'p \<Rightarrow> binary_format_error + bytes" where
  "write_tfpkt ser packet =
     rbind (cbor_encode_as ser packet) (\<lambda>body_bytes. bin_put_block TFPKT_MAGIC body_bytes)"

definition read_tfpkt :: "(json \<Rightarrow> string + 'p) \<Rightarrow> bytes \<Rightarrow> binary_format_error + 'p" where
  "read_tfpkt de buf =
     (if length buf < length TFPKT_MAGIC then Inl BinBadMagic
      else if take (length TFPKT_MAGIC) buf \<noteq> TFPKT_MAGIC then Inl BinBadMagic
      else rbind (bin_read_block buf (length TFPKT_MAGIC)) (\<lambda>(body_bytes, _). cbor_decode_as de body_bytes))"

subsection \<open>Reading blocks back\<close>

lemma utf8_fault_None: "utf8_fault i bs = None \<longleftrightarrow> utf8_decode bs \<noteq> None"
  by (induction i bs rule: utf8_fault.induct) (auto split: list.splits)

lemma str_from_utf8_as_bytes: "utf8_valid s \<Longrightarrow> str_from_utf8 (as_bytes s) = Inr s"
proof -
  have "map unat (as_bytes s) = map of_char s" by (simp add: as_bytes_def unat_of_char comp_def)
  moreover assume "utf8_valid s"
  ultimately show ?thesis using utf8_fault_None[of 0 "map of_char s"] by (simp add: str_from_utf8_def utf8_valid_def)
qed

text \<open>A block as both formats write it.\<close>

definition block :: "bytes \<Rightarrow> bytes" where
  "block b = be_bytes 4 (length b) @ b"

lemma length_block [simp]: "length (block b) = 4 + length b"
  by (simp add: block_def)

lemma block_length: "short b \<Longrightarrow> be_nat (take 4 (block b @ r)) = length b"
  using be_nat_be_bytes[of "length b" 4] by (simp add: block_def short_def)

lemma put_block_short: "short b \<Longrightarrow> put_block buf b = Inr (buf @ block b)"
  by (simp add: put_block_def put_u32_be_def block_def short_def)

lemma bin_put_block_short: "short b \<Longrightarrow> bin_put_block buf b = Inr (buf @ block b)"
  by (simp add: bin_put_block_def bin_put_u32_be_def block_def short_def)

lemma drop_append_block: "drop (length pre + 4) (pre @ block b @ r) = b @ r"
  by (simp add: block_def)

lemma take_block: "take (length b) (drop (length pre + 4) (pre @ block b @ r)) = b"
  unfolding drop_append_block by simp

lemma read_block_at:
  assumes "short b"
  shows "read_block (pre @ block b @ r) (length pre) = Inr (b, length pre + 4 + length b)"
    and "bin_read_block (pre @ block b @ r) (length pre) = Inr (b, length pre + 4 + length b)"
  using block_length[OF assms, of r] take_block[of b pre r]
  by (simp_all add: read_block_def bin_read_block_def read_u32_be_def bin_read_u32_be_def)

subsection \<open>Logs\<close>

text \<open>What the log relies on: the text of the event is short enough for a prefix, and the parser and the
  derived reader return the event from it.\<close>

definition reads_text :: "crates \<Rightarrow> (json \<Rightarrow> string + 'a) \<Rightarrow> json \<Rightarrow> 'a \<Rightarrow> bool" where
  "reads_text C de v x = (\<exists>body w. json_body C v = Inr body \<and> short body \<and> utf8_valid body \<and>
     cr_json_parse C (as_bytes body) = Inr w \<and> de w = Inr x)"

definition loggable :: "readers \<Rightarrow> proof_event \<Rightarrow> bool" where
  "loggable R e = reads_text (rd_crates R) (rd_event R) (event_json e) e"

definition body_of :: "crates \<Rightarrow> json \<Rightarrow> bytes" where
  "body_of C v = as_bytes (unwrap_or_default (json_body C v))"

definition frame :: "readers \<Rightarrow> proof_event \<Rightarrow> bytes" where
  "frame R e = block (body_of (rd_crates R) (event_json e))"

lemma reads_text_body:
  "reads_text C de v x \<Longrightarrow> short (body_of C v) \<and> json_body C v = Inr (of_bytes (body_of C v)) \<and> parse_body C de (body_of C v) = Inr x"
  by (auto simp: reads_text_def parse_body_def body_of_def str_from_utf8_as_bytes)

lemma loggable_body:
  assumes "loggable R e"
  shows "short (body_of (rd_crates R) (event_json e))"
    "json_body (rd_crates R) (event_json e) = Inr (of_bytes (body_of (rd_crates R) (event_json e)))"
    "parse_body (rd_crates R) (rd_event R) (body_of (rd_crates R) (event_json e)) = Inr e"
  using reads_text_body[OF assms[unfolded loggable_def]] by simp_all

lemma write_frames_loggable:
  "list_all (loggable R) es \<Longrightarrow> write_frames (rd_crates R) buf es = Inr (buf @ concat (map (frame R) es))"
  by (induction es arbitrary: buf)
    (simp_all add: loggable_body frame_def put_block_short)

lemma read_frames_end: "length buf \<le> off \<Longrightarrow> read_frames R buf off = Inr []"
  by (simp add: read_frames.simps)

lemma read_frames_step:
  assumes "loggable R e"
  shows "read_frames R (pre @ frame R e @ r) (length pre) =
     rbind (read_frames R ((pre @ frame R e) @ r) (length (pre @ frame R e))) (\<lambda>es. Inr (e # es))"
proof -
  let ?b = "body_of (rd_crates R) (event_json e)"
  note b = loggable_body(1,3)[OF assms]
  have "read_u32_be (pre @ block ?b @ r) (length pre) = Inr (length ?b)"
    using block_length[OF b(1), of r] by (simp add: read_u32_be_def)
  with b take_block[of ?b pre r] show ?thesis
    by (subst read_frames.simps) (simp add: frame_def add.assoc)
qed

lemma read_frames_all:
  "list_all (loggable R) es \<Longrightarrow> read_frames R (pre @ concat (map (frame R) es)) (length pre) = Inr es"
proof (induction es arbitrary: pre)
  case (Cons e es)
  then show ?case using Cons.IH[of "pre @ frame R e"] by (simp add: read_frames_step)
qed (simp add: read_frames_end)

text \<open>A frame cut short is refused.\<close>

lemma read_frames_torn:
  assumes "loggable R e" "0 < k" "k < length (frame R e)"
  shows "\<exists>err. read_frames R (pre @ take k (frame R e)) (length pre) = Inl err"
proof (cases "k < 4")
  case True
  with assms show ?thesis by (subst read_frames.simps) (simp add: read_u32_be_def frame_def min_def)
next
  case False
  let ?b = "body_of (rd_crates R) (event_json e)"
  note b = loggable_body(1)[OF assms(1)]
  have "take 4 (take k (frame R e)) = take 4 (block ?b @ [])" using False by (simp add: frame_def min_def)
  then have "read_u32_be (pre @ take k (frame R e)) (length pre) = Inr (length ?b)"
    using False assms(3) block_length[OF b, of "[]"] by (simp add: read_u32_be_def min_def frame_def)
  with False assms show ?thesis
    by (subst read_frames.simps) (simp add: min_def frame_def)
qed

lemma read_frames_prefix:
  assumes "list_all (loggable R) es" "read_frames R (pre @ take k (concat (map (frame R) es))) (length pre) = Inr es'"
  shows "\<exists>n. es' = take n es \<and> take k (concat (map (frame R) es)) = concat (map (frame R) (take n es))"
  using assms
proof (induction es arbitrary: pre k es')
  case Nil
  then show ?case by (simp add: read_frames_end)
next
  case (Cons e es)
  consider "k = 0" | "0 < k" "k < length (frame R e)" | "length (frame R e) \<le> k" by linarith
  then show ?case
  proof cases
    case 1
    with Cons show ?thesis by (intro exI[of _ 0]) (simp add: read_frames_end)
  next
    case 2
    with Cons read_frames_torn[of R e k pre] show ?thesis by auto
  next
    case 3
    then have t: "take k (concat (map (frame R) (e # es))) = frame R e @ take (k - length (frame R e)) (concat (map (frame R) es))"
      by simp
    from Cons.prems(1) have e: "loggable R e" by simp
    from Cons.prems(2)[unfolded t read_frames_step[OF e]] obtain es1 where es1: "es' = e # es1"
      "read_frames R ((pre @ frame R e) @ take (k - length (frame R e)) (concat (map (frame R) es))) (length (pre @ frame R e)) = Inr es1"
      by (auto simp: rbind_Inr_iff)
    from Cons.IH[OF _ this(2)] Cons.prems(1) obtain n where
      "es1 = take n es" "take (k - length (frame R e)) (concat (map (frame R) es)) = concat (map (frame R) (take n es))" by auto
    with es1 t show ?thesis by (intro exI[of _ "Suc n"]) simp
  qed
qed

text \<open>
  C10. Logs read back: a log written from any list of events reads back as that list, and appending an event to the file
  gives the log of the longer list, as if it had been written at once.
\<close>

theorem tflog_roundtrip:
  assumes "list_all (loggable R) es" "loggable R e"
  shows "\<exists>buf buf'. write_tflog (rd_crates R) es = Inr buf \<and> read_tflog R buf = Inr es \<and>
     append_tflog (rd_crates R) e buf = (Inr (), buf') \<and>
     write_tflog (rd_crates R) (es @ [e]) = Inr buf' \<and> read_tflog R buf' = Inr (es @ [e])"
proof -
  let ?log = "\<lambda>es. TFLOG_MAGIC @ concat (map (frame R) es)"
  have w: "write_tflog (rd_crates R) xs = Inr (?log xs)" if "list_all (loggable R) xs" for xs
    using that by (simp add: write_tflog_def write_frames_loggable)
  have r: "read_tflog R (?log xs) = Inr xs" if "list_all (loggable R) xs" for xs
    using that by (simp add: read_tflog_def read_frames_all)
  have "TFLOG_MAGIC \<noteq> []" by (simp add: TFLOG_MAGIC_def)
  then have "append_tflog (rd_crates R) e (?log es) = (Inr (), ?log (es @ [e]))"
    by (simp add: append_tflog_def loggable_body[OF assms(2)] put_block_short frame_def)
  with w[OF assms(1)] r[OF assms(1)] w[of "es @ [e]"] r[of "es @ [e]"] assms show ?thesis by auto
qed

text \<open>
  C8. A torn log is never misread: whatever part of a log has reached the disk, reading it either fails or returns
  an initial segment of the events that were logged, and then the part is exactly the log of that segment.
  An event that was cut off is neither lost silently nor read in part.
\<close>

theorem tflog_torn_write:
  assumes "list_all (loggable R) es" "write_tflog (rd_crates R) es = Inr buf" "read_tflog R (take k buf) = Inr es'"
  shows "\<exists>n. es' = take n es \<and> write_tflog (rd_crates R) (take n es) = Inr (take k buf)"
proof -
  have buf: "buf = TFLOG_MAGIC @ concat (map (frame R) es)"
    using assms(1,2) by (simp add: write_tflog_def write_frames_loggable)
  have k: "length TFLOG_MAGIC \<le> k" "read_frames R (take k buf) (length TFLOG_MAGIC) = Inr es'"
    using assms(3) by (auto simp: read_tflog_def split: if_splits)
  then have t: "take k buf = TFLOG_MAGIC @ take (k - length TFLOG_MAGIC) (concat (map (frame R) es))"
    by (simp add: buf)
  from read_frames_prefix[OF assms(1) k(2)[unfolded t]] obtain n where
    "es' = take n es" "take (k - length TFLOG_MAGIC) (concat (map (frame R) es)) = concat (map (frame R) (take n es))" by blast
  moreover have "list_all (loggable R) (take n es)" using assms(1) by (auto simp: list_all_iff dest: in_set_takeD)
  ultimately show ?thesis using t by (intro exI[of _ n]) (simp add: write_tflog_def write_frames_loggable)
qed

subsection \<open>Containers\<close>

lemma read_tfproof_written:
  assumes "reads_text (rd_crates R) (rd_bundle R) (bundle_json b) b" "short sig"
  shows "\<exists>buf. write_tfproof (rd_crates R) b sig = Inr buf \<and>
     read_tfproof R buf = Inr \<lparr>tp_bundle = b, tp_signature = sig, tp_canonical_body = body_of (rd_crates R) (bundle_json b)\<rparr>"
proof -
  let ?b = "body_of (rd_crates R) (bundle_json b)"
  from reads_text_body[OF assms(1)] have b: "short ?b" "json_body (rd_crates R) (bundle_json b) = Inr (of_bytes ?b)"
    "parse_body (rd_crates R) (rd_bundle R) ?b = Inr b" by auto
  have "write_tfproof (rd_crates R) b sig = Inr (TFPROOF_MAGIC @ block ?b @ block sig)"
    using b assms(2) by (simp add: write_tfproof_def put_block_short)
  moreover have "read_tfproof R (TFPROOF_MAGIC @ block ?b @ block sig) =
      Inr \<lparr>tp_bundle = b, tp_signature = sig, tp_canonical_body = ?b\<rparr>"
    using read_block_at(1)[OF b(1), of TFPROOF_MAGIC "block sig"] b(3)
      read_block_at(1)[OF assms(2), of "TFPROOF_MAGIC @ block ?b" "[]"]
    by (simp add: read_tfproof_def add.assoc)
  ultimately show ?thesis by blast
qed

lemma canonicalize_json_wf: "json_wf j \<Longrightarrow> canonicalize_json j = j"
proof (induction j rule: canonicalize_json.induct)
  case (1 es)
  have "map (\<lambda>(k, v). (k, canonicalize_json v)) es = es"
    using 1 by (auto intro!: map_idI simp: list_all_iff)
  moreover have "sort_entries es = es" using 1
    by (auto simp: sort_entries_def strict_sorted_iff intro!: sort_key_id_if_sorted)
  ultimately show ?case using 1 by (simp add: obj_inserts_sorted)
next
  case (2 xs)
  then show ?case by (auto intro!: map_idI simp: list_all_iff)
qed simp_all

lemma canonicalize_json_order:
  assumes "distinct (map fst es)" "mset es = mset fs"
  shows "canonicalize_json (JObject es) = canonicalize_json (JObject fs)"
proof -
  let ?c = "map (\<lambda>(k, v). (k, canonicalize_json v))"
  have "map fst (?c es) = map fst es" by (induction es) auto
  then have "inj_on fst (set (?c es))" using assms(1) by (metis distinct_map)
  moreover have "mset (?c es) = mset (?c fs)" using assms(2) by simp
  ultimately have "sort_entries (?c es) = sort_entries (?c fs)"
    unfolding sort_entries_def by (intro sort_key_inj_key_eq) simp_all
  then show ?thesis by simp
qed

text \<open>
  Binary containers read back: a value whose JSON form is within the limits of the CBOR codec, and from whose JSON
  form the derived reader returns it, is returned, with the signature, from the \<open>.tfbundle\<close> file written
  for it, and from the \<open>.tfpkt\<close> frame.
\<close>

lemma container_roundtrip:
  assumes "json_wf (ser x)" "json_depth (ser x) \<le> MAX_DEPTH" "json_weight (ser x) < 2 ^ 64" "de (ser x) = Inr x"
    and "cbor_encode_as ser x = Inr body" "short body" "short (unwrap_or signature [])"
  shows "\<exists>bundle pkt. write_tfbundle ser x signature = Inr bundle \<and>
     read_tfbundle_typed de bundle = Inr (x, unwrap_or signature []) \<and>
     write_tfpkt ser x = Inr pkt \<and> read_tfpkt de pkt = Inr x"
proof -
  let ?sig = "unwrap_or signature []"
  have enc: "rbind (from_json (ser x)) cbor_encode = Inr body"
    using assms(5) by (simp add: cbor_encode_as_def canonicalize_json_wf[OF assms(1)])
  with json_cbor_roundtrip[OF assms(1-3)] obtain c where c: "cbor_decode body = Inr c" "to_json c = Inr (ser x)"
    by (auto simp: rbind_Inr_iff)
  then have d: "cbor_decode_as de body = Inr x" using assms(4) by (simp add: cbor_decode_as_def)
  have "write_tfbundle ser x signature = Inr (TFBUNDLE_MAGIC @ block body @ block ?sig)"
    using assms(5-7) by (simp add: write_tfbundle_def bin_put_block_short)
  moreover have "read_tfbundle_typed de (TFBUNDLE_MAGIC @ block body @ block ?sig) = Inr (x, ?sig)"
    using read_block_at(2)[OF assms(6), of TFBUNDLE_MAGIC "block ?sig"] c(1) d
      read_block_at(2)[OF assms(7), of "TFBUNDLE_MAGIC @ block body" "[]"]
    by (simp add: read_tfbundle_typed_def read_tfbundle_def add.assoc)
  moreover have "write_tfpkt ser x = Inr (TFPKT_MAGIC @ block body)"
    using assms(5,6) by (simp add: write_tfpkt_def bin_put_block_short)
  moreover have "read_tfpkt de (TFPKT_MAGIC @ block body) = Inr x"
    using read_block_at(2)[OF assms(6), of TFPKT_MAGIC "[]"] d by (simp add: read_tfpkt_def)
  ultimately show ?thesis by blast
qed

subsection \<open>Examples\<close>

definition sample_readers :: readers where
  "sample_readers = \<lparr>rd_crates = sample_crates\<lparr>cr_json_parse := \<lambda>_. Inr JNull\<rparr>,
     rd_event = \<lambda>_. Inr (sample_event ''e1'' None), rd_bundle = \<lambda>_. Inl []\<rparr>"

lemma sample_body:
  "case json_body (rd_crates sample_readers) (event_json (sample_event ''e1'' None)) of
     Inr body \<Rightarrow> length body < 1000 \<and> utf8_valid body | Inl _ \<Rightarrow> False"
  by code_simp

lemma sample_loggable: "loggable sample_readers (sample_event ''e1'' None)"
  using sample_body by (auto simp: loggable_def reads_text_def short_def sample_readers_def split: sum.splits)

theorem tflog_roundtrip_witness:
  "\<exists>buf buf'. write_tflog (rd_crates sample_readers) [sample_event ''e1'' None] = Inr buf \<and>
     read_tflog sample_readers buf = Inr [sample_event ''e1'' None] \<and>
     append_tflog (rd_crates sample_readers) (sample_event ''e1'' None) buf = (Inr (), buf') \<and>
     write_tflog (rd_crates sample_readers) ([sample_event ''e1'' None] @ [sample_event ''e1'' None]) = Inr buf' \<and>
     read_tflog sample_readers buf' = Inr ([sample_event ''e1'' None] @ [sample_event ''e1'' None])"
  by (rule tflog_roundtrip) (simp_all add: sample_loggable)

theorem tflog_torn_write_witness:
  "\<exists>buf n. write_tflog (rd_crates sample_readers) [sample_event ''e1'' None] = Inr buf \<and>
     [] = take n [sample_event ''e1'' None] \<and>
     write_tflog (rd_crates sample_readers) (take n [sample_event ''e1'' None]) = Inr (take 8 buf)"
proof -
  let ?es = "[sample_event ''e1'' None]"
  have l: "list_all (loggable sample_readers) ?es" by (simp add: sample_loggable)
  define buf where "buf = TFLOG_MAGIC @ concat (map (frame sample_readers) ?es)"
  have w: "write_tflog (rd_crates sample_readers) ?es = Inr buf"
    unfolding write_tflog_def buf_def by (rule write_frames_loggable[OF l])
  have "take 8 buf = TFLOG_MAGIC" by (simp add: buf_def TFLOG_MAGIC_def)
  then have "read_tflog sample_readers (take 8 buf) = Inr []" by (simp add: read_tflog_def read_frames_end)
  from tflog_torn_write[OF l w this] w show ?thesis by blast
qed

end
