(* ===== verification/Documents.thy ===== *)
theory Documents
  imports Signed Clock Validity
begin

text \<open>
  What the modules with a signed JSON document of their own share (\<open>permission.rs\<close>, \<open>session_migration.rs\<close>,
  \<open>offline_approval.rs\<close>, \<open>federation.rs\<close>, \<open>evidence.rs\<close>): each declares the same three-field signature
  envelope, hashes the canonical text of the document without its signature, and checks signatures in the
  same steps. The locale \<open>hashed_document\<close> extends \<open>signed_document\<close> with the value the derived serialiser
  builds, so that each module only has to name its table of fields.
\<close>

record ed_signature =
  es_algorithm :: string
  es_signer :: string
  es_signature :: string

definition ed_signature_json :: "ed_signature \<Rightarrow> json" where
  "ed_signature_json s = JObject (sort_entries
     [(''algorithm'', JString (es_algorithm s)), (''signer'', JString (es_signer s)), (''signature'', JString (es_signature s))])"

definition unsigned_by :: "string \<Rightarrow> ed_signature" where
  "unsigned_by signer = \<lparr>es_algorithm = ''ed25519'', es_signer = signer, es_signature = []\<rparr>"

definition struct_json :: "(string \<times> json option) list \<Rightarrow> json" where
  "struct_json t = JObject (sort_entries (present t))"

text \<open>\<open>migration_signing_bytes\<close> and its like: hash the canonical text without the entry \<open>signature\<close>.\<close>

definition doc_signing_bytes :: "crates \<Rightarrow> json \<Rightarrow> bytes" where
  "doc_signing_bytes C v = cr_sha256 C (as_bytes (unwrap_or_default (canon C (without_key ''signature'' v))))"

record doc_result =
  dc_ok :: bool
  dc_reason :: "string option"

definition doc_rejected :: "string \<Rightarrow> doc_result" where
  "doc_rejected reason = \<lparr>dc_ok = False, dc_reason = Some reason\<rparr>"

text \<open>The steps on the signature; \<open>b64\<close> and \<open>bad\<close> are the words of the module.\<close>

definition check_document :: "crates \<Rightarrow> bytes \<Rightarrow> bytes \<Rightarrow> string \<Rightarrow> string \<Rightarrow> string \<Rightarrow> doc_result" where
  "check_document C public_key digest sig b64 bad =
     (case check_signature C public_key digest sig of
        SigBase64 e \<Rightarrow> doc_rejected (b64 @ decode_error_str e)
      | SigParse e \<Rightarrow> doc_rejected (''signature parse: '' @ e)
      | SigKey e \<Rightarrow> doc_rejected (''verifying key: '' @ e)
      | SigBad \<Rightarrow> doc_rejected bad
      | SigOk \<Rightarrow> \<lparr>dc_ok = True, dc_reason = None\<rparr>)"

lemma doc_rejected_ok [simp]: "\<not> dc_ok (doc_rejected r)"
  by (simp add: doc_rejected_def)

lemma check_document_ok: "dc_ok (check_document C pk d s b bad) \<longleftrightarrow> check_signature C pk d s = SigOk"
  by (simp add: check_document_def split: sig_check.splits)

lemma unsigned_by_simps [simp]:
  "es_algorithm (unsigned_by s) = ''ed25519''" "es_signer (unsigned_by s) = s" "es_signature (unsigned_by s) = []"
  by (simp_all add: unsigned_by_def)

lemma doc_signing_struct:
  assumes "''signature'' \<notin> set (map fst t)"
  shows "doc_signing_bytes C (struct_json (t @ [(''signature'', Some v)])) = cr_sha256 C (as_bytes (struct_text C t))"
  unfolding doc_signing_bytes_def struct_json_def struct_text_def by (simp only: without_key_present[OF assms])

lemma frac_free_struct_json: "frac_free_table t \<Longrightarrow> frac_free (struct_json t)"
  unfolding struct_json_def by (rule frac_free_struct)

text \<open>Fields of a table whose value is a text, or absent, are free of fractions.\<close>

definition opt_plain :: "json option \<Rightarrow> bool" where
  "opt_plain v = (case v of None \<Rightarrow> True | Some j \<Rightarrow> frac_free j)"

lemma opt_plain_simps [simp]:
  "opt_plain None" "opt_plain (Some (JString s))" "opt_plain (map_option JString a)" "opt_plain (map_option JBool b)"
  "opt_plain (Some (JNumber (PosInt n)))" "opt_plain (map_option strings_json l)"
  by (simp_all add: opt_plain_def strings_json_def list_all_iff split: option.splits)

lemma opt_plain_Some: "opt_plain (Some j) \<longleftrightarrow> frac_free j"
  by (simp add: opt_plain_def)

lemma frac_free_table_plain: "frac_free_table t \<longleftrightarrow> list_all (\<lambda>e. opt_plain (snd e)) t"
  by (simp add: frac_free_table_def opt_plain_def list_all_iff case_prod_beta')

locale hashed_document =
  fixes fields :: "'d \<Rightarrow> (string \<times> json option) list"
    and signature :: "'d \<Rightarrow> ed_signature"
    and set_sig :: "string \<Rightarrow> 'd \<Rightarrow> 'd"
    and plain :: "'d \<Rightarrow> bool"
    and doc_json :: "'d \<Rightarrow> json"
  assumes doc_json_def: "doc_json d = struct_json (fields d @ [(''signature'', Some (ed_signature_json (signature d)))])"
    and fields_set_sig: "fields (set_sig s d) = fields d"
    and sig_set_sig: "es_signature (signature (set_sig s d)) = s"
    and same_keys: "map fst (fields d) = map fst (fields e)"
    and keys_ok: "distinct (map fst (fields d)) \<and> list_all is_ascii (map fst (fields d)) \<and> ''signature'' \<notin> set (map fst (fields d))"
    and no_fractions: "plain d \<Longrightarrow> frac_free_table (fields d)"
begin

lemma digest_eq: "doc_signing_bytes C (doc_json d) = cr_sha256 C (as_bytes (struct_text C (fields d)))"
  unfolding doc_json_def by (rule doc_signing_struct) (use keys_ok[of d] in blast)

end

sublocale hashed_document \<subseteq> doc: signed_document fields "\<lambda>C b. cr_sha256 C b" "\<lambda>C d. doc_signing_bytes C (doc_json d)"
  "es_signature \<circ> signature" set_sig plain
  by unfold_locales (use keys_ok same_keys in \<open>auto simp: digest_eq fields_set_sig sig_set_sig no_fractions\<close>)

end
