(* ===== verification/Permission.thy ===== *)
theory Permission
  imports Documents Chain
begin

text \<open>
  \<open>permission.rs\<close>: an agent asks for a permission, an issuer signs a grant or a denial of it. A grant names the
  request it answers and a validity window. The clock reading is the argument \<open>clock\<close>; the provenance record is
  the one of the proof events, which declares the same fields.
\<close>

record permission_request =
  rq_version :: string
  rq_id :: string
  rq_agent :: string
  rq_instance :: "string option"
  rq_human :: "string option"
  rq_model :: "string option"
  rq_tool :: "string option"
  rq_action :: string
  rq_target :: "string option"
  rq_risk :: "string option"
  rq_danger_tags :: "string list option"
  rq_duration_seconds :: "64 word option"
  rq_reason :: string
  rq_proof_level_offered :: "string option"
  rq_requested_at :: string
  rq_context :: "json option"

record permission_grant =
  gr_version :: string
  gr_request_id :: string
  gr_decision :: string
  gr_capability :: "json option"
  gr_constraints :: "json list option"
  gr_policy_decision :: "json option"
  gr_ceremony_id :: "string option"
  gr_denial_reason :: "string option"
  gr_valid_from :: "string option"
  gr_valid_until :: "string option"
  gr_issued_at :: string
  gr_issuer :: string
  gr_signature :: ed_signature

definition grant_fields :: "permission_grant \<Rightarrow> (string \<times> json option) list" where
  "grant_fields g =
     [(''grant_version'', Some (JString (gr_version g))), (''request_id'', Some (JString (gr_request_id g))),
      (''decision'', Some (JString (gr_decision g))), (''capability'', gr_capability g),
      (''constraints'', map_option JArray (gr_constraints g)), (''policy_decision'', gr_policy_decision g),
      (''ceremony_id'', map_option JString (gr_ceremony_id g)), (''denial_reason'', map_option JString (gr_denial_reason g)),
      (''valid_from'', map_option JString (gr_valid_from g)), (''valid_until'', map_option JString (gr_valid_until g)),
      (''issued_at'', Some (JString (gr_issued_at g))), (''issuer'', Some (JString (gr_issuer g)))]"

definition grant_json :: "permission_grant \<Rightarrow> json" where
  "grant_json g = struct_json (grant_fields g @ [(''signature'', Some (ed_signature_json (gr_signature g)))])"

definition permission_grant_signing_bytes :: "crates \<Rightarrow> permission_grant \<Rightarrow> bytes" where
  "permission_grant_signing_bytes C g = doc_signing_bytes C (grant_json g)"

definition seal_grant :: "string \<Rightarrow> permission_grant \<Rightarrow> permission_grant" where
  "seal_grant sig g = g\<lparr>gr_signature := (gr_signature g)\<lparr>es_signature := sig\<rparr>\<rparr>"

definition sign_permission_grant ::
    "crates \<Rightarrow> int \<Rightarrow> permission_request \<Rightarrow> string \<Rightarrow> string \<Rightarrow> bytes \<Rightarrow> json option \<Rightarrow> json list option \<Rightarrow> json option \<Rightarrow>
     string option \<Rightarrow> string option \<Rightarrow> string option \<Rightarrow> string option \<Rightarrow> string option \<Rightarrow> permission_grant" where
  "sign_permission_grant C clock request decision issuer private_key capability constraints policy_decision
       ceremony_id denial_reason issued_at valid_from valid_until =
     (let grant = \<lparr>gr_version = ''1'', gr_request_id = rq_id request, gr_decision = decision, gr_capability = capability,
            gr_constraints = (case constraints of Some c \<Rightarrow> if c = [] then None else Some c | None \<Rightarrow> None),
            gr_policy_decision = policy_decision, gr_ceremony_id = ceremony_id, gr_denial_reason = denial_reason,
            gr_valid_from = valid_from, gr_valid_until = valid_until,
            gr_issued_at = unwrap_or issued_at (now_iso8601 clock), gr_issuer = issuer, gr_signature = unsigned_by issuer\<rparr>
      in seal_grant (sign_text C private_key (permission_grant_signing_bytes C grant)) grant)"

definition verify_permission_grant ::
    "crates \<Rightarrow> int \<Rightarrow> permission_grant \<Rightarrow> bytes \<Rightarrow> permission_request option \<Rightarrow> string option \<Rightarrow> doc_result" where
  "verify_permission_grant C clock grant public_key request now =
     (if gr_version grant \<noteq> ''1'' then doc_rejected (''unsupported grant_version '' @ gr_version grant)
      else if es_signer (gr_signature grant) \<noteq> gr_issuer grant then doc_rejected ''signature signer does not match issuer''
      else if es_algorithm (gr_signature grant) \<noteq> ''ed25519''
        then doc_rejected (''unsupported signature algorithm '' @ es_algorithm (gr_signature grant))
      else if (case request of Some req \<Rightarrow> gr_request_id grant \<noteq> rq_id req | None \<Rightarrow> False)
        then doc_rejected ''grant.request_id does not match request.id''
      else if \<not> is_within_window (default_window\<lparr>w_valid_from := gr_valid_from grant, w_valid_until := gr_valid_until grant\<rparr>)
          (unwrap_or now (now_iso8601 clock))
        then doc_rejected ''grant outside valid_from/valid_until window''
      else check_document C public_key (permission_grant_signing_bytes C grant) (es_signature (gr_signature grant))
        ''signature base64 decode: '' ''grant signature did not verify'')"

definition provenance_from_request :: "permission_request \<Rightarrow> provenance" where
  "provenance_from_request req =
     \<lparr>pv_human = rq_human req, pv_agent = Some (rq_agent req), pv_instance = rq_instance req, pv_model = rq_model req,
      pv_tool = rq_tool req, pv_requested_action = Some (rq_action req)\<rparr>"

subsection \<open>Grants as documents\<close>

definition grant_plain :: "permission_grant \<Rightarrow> bool" where
  "grant_plain g = (opt_plain (gr_capability g) \<and> opt_plain (map_option JArray (gr_constraints g)) \<and> opt_plain (gr_policy_decision g))"

interpretation grant_document: hashed_document grant_fields gr_signature seal_grant grant_plain grant_json
  by unfold_locales (simp_all add: grant_json_def grant_fields_def seal_grant_def is_ascii_def grant_plain_def frac_free_table_plain)

lemma seal_grant_simps [simp]:
  "gr_version (seal_grant s g) = gr_version g" "gr_request_id (seal_grant s g) = gr_request_id g"
  "gr_issuer (seal_grant s g) = gr_issuer g" "gr_valid_from (seal_grant s g) = gr_valid_from g"
  "gr_valid_until (seal_grant s g) = gr_valid_until g" "es_algorithm (gr_signature (seal_grant s g)) = es_algorithm (gr_signature g)"
  "es_signer (gr_signature (seal_grant s g)) = es_signer (gr_signature g)"
  by (simp_all add: seal_grant_def)

lemma verify_permission_grant_ok:
  "dc_ok (verify_permission_grant C clock g pk request now) \<longleftrightarrow>
     gr_version g = ''1'' \<and> es_signer (gr_signature g) = gr_issuer g \<and> es_algorithm (gr_signature g) = ''ed25519'' \<and>
     list_all (\<lambda>req. gr_request_id g = rq_id req) (case request of None \<Rightarrow> [] | Some r \<Rightarrow> [r]) \<and>
     is_within_window (default_window\<lparr>w_valid_from := gr_valid_from g, w_valid_until := gr_valid_until g\<rparr>)
       (unwrap_or now (now_iso8601 clock)) \<and>
     check_signature C pk (permission_grant_signing_bytes C g) (es_signature (gr_signature g)) = SigOk"
  by (auto simp: verify_permission_grant_def check_document_ok split: option.splits)

text \<open>
  A signed grant verifies exactly where it should: under the key of its issuer it is accepted if and only if the request
  it is checked against (if any) has the id of the request it was signed for, and the time lies within its
  validity window, whose bounds are inclusive and optional.
\<close>

lemma grant_verified_iff:
  assumes "ed25519_ok C"
  shows "dc_ok (verify_permission_grant C clock
      (sign_permission_grant C clock' req decision issuer key cap cons pol cer den iss valid_from valid_until)
      (cr_public C key) request now) \<longleftrightarrow>
    (case request of None \<Rightarrow> True | Some r \<Rightarrow> rq_id r = rq_id req) \<and>
    (case valid_from of None \<Rightarrow> True | Some f \<Rightarrow> f \<le> unwrap_or now (now_iso8601 clock)) \<and>
    (case valid_until of None \<Rightarrow> True | Some u \<Rightarrow> unwrap_or now (now_iso8601 clock) \<le> u)"
proof -
  have seal: "check_signature C (cr_public C key) (permission_grant_signing_bytes C (seal_grant (sign_text C key (permission_grant_signing_bytes C g)) g))
      (es_signature (gr_signature (seal_grant (sign_text C key (permission_grant_signing_bytes C g)) g))) = SigOk" for g
    using grant_document.doc.sealed_verifies[OF assms, of key g] by (simp add: permission_grant_signing_bytes_def)
  show ?thesis
    unfolding sign_permission_grant_def Let_def verify_permission_grant_ok seal
    by (auto simp: is_within_window_iff default_window_def split: option.splits)
qed

definition sample_request :: permission_request where
  "sample_request = \<lparr>rq_version = ''1'', rq_id = ''req-1'', rq_agent = ''tf:actor:agent:example.com/a'', rq_instance = None,
     rq_human = None, rq_model = None, rq_tool = None, rq_action = ''file.read'', rq_target = None, rq_risk = None,
     rq_danger_tags = None, rq_duration_seconds = None, rq_reason = ''r'', rq_proof_level_offered = None,
     rq_requested_at = ''2026-04-24T12:00:00Z'', rq_context = None\<rparr>"

end
