(* ===== verification/Migration.thy ===== *)
theory Migration
  imports Documents
begin

text \<open>
  \<open>session_migration.rs\<close>: the signed statement that a session moves to another transport, whose generation number
  protects it against replay, and the symmetric ratchet that renews a key after a number of messages. HKDF
  without a salt is HKDF with a salt of 32 zero bytes. The counters of the ratchet are words: that the message
  counter never wraps is part of what is shown.
\<close>

record transport_binding =
  tb_binding_version :: string
  tb_kind :: string
  tb_endpoint :: "string option"
  tb_exporter_key :: "string option"
  tb_peer_cert_fingerprint :: "string option"
  tb_tls_alpn :: "string option"
  tb_established_at :: "string option"
  tb_metadata :: "json option"

record session_migration =
  sm_version :: string
  sm_session_id :: string
  sm_generation :: "64 word"
  sm_from_binding :: transport_binding
  sm_to_binding :: transport_binding
  sm_preserved_capabilities :: "json list option"
  sm_rotated_keys :: "bool option"
  sm_migrated_at :: string
  sm_reason :: "string option"
  sm_signer :: string
  sm_signature :: ed_signature

definition binding_fields :: "transport_binding \<Rightarrow> (string \<times> json option) list" where
  "binding_fields b =
     [(''binding_version'', Some (JString (tb_binding_version b))), (''kind'', Some (JString (tb_kind b))),
      (''endpoint'', map_option JString (tb_endpoint b)), (''exporter_key'', map_option JString (tb_exporter_key b)),
      (''peer_cert_fingerprint'', map_option JString (tb_peer_cert_fingerprint b)),
      (''tls_alpn'', map_option JString (tb_tls_alpn b)), (''established_at'', map_option JString (tb_established_at b)),
      (''metadata'', tb_metadata b)]"

definition binding_json :: "transport_binding \<Rightarrow> json" where
  "binding_json b = struct_json (binding_fields b)"

definition migration_fields :: "session_migration \<Rightarrow> (string \<times> json option) list" where
  "migration_fields m =
     [(''migration_version'', Some (JString (sm_version m))), (''session_id'', Some (JString (sm_session_id m))),
      (''generation'', Some (JNumber (PosInt (sm_generation m)))), (''from_binding'', Some (binding_json (sm_from_binding m))),
      (''to_binding'', Some (binding_json (sm_to_binding m))),
      (''preserved_capabilities'', map_option JArray (sm_preserved_capabilities m)),
      (''rotated_keys'', map_option JBool (sm_rotated_keys m)), (''migrated_at'', Some (JString (sm_migrated_at m))),
      (''reason'', map_option JString (sm_reason m)), (''signer'', Some (JString (sm_signer m)))]"

definition migration_json :: "session_migration \<Rightarrow> json" where
  "migration_json m = struct_json (migration_fields m @ [(''signature'', Some (ed_signature_json (sm_signature m)))])"

definition migration_signing_bytes :: "crates \<Rightarrow> session_migration \<Rightarrow> bytes" where
  "migration_signing_bytes C m = doc_signing_bytes C (migration_json m)"

definition seal_migration :: "string \<Rightarrow> session_migration \<Rightarrow> session_migration" where
  "seal_migration sig m = m\<lparr>sm_signature := (sm_signature m)\<lparr>es_signature := sig\<rparr>\<rparr>"

definition migrate_session ::
    "crates \<Rightarrow> int \<Rightarrow> string \<Rightarrow> 64 word \<Rightarrow> transport_binding \<Rightarrow> transport_binding \<Rightarrow> bool \<Rightarrow> string option \<Rightarrow> string \<Rightarrow>
     bytes \<Rightarrow> string option \<Rightarrow> session_migration" where
  "migrate_session C clock session_id generation from_binding to_binding rotated_keys reason signer private_key migrated_at =
     (let m = \<lparr>sm_version = ''1'', sm_session_id = session_id, sm_generation = generation, sm_from_binding = from_binding,
            sm_to_binding = to_binding, sm_preserved_capabilities = None,
            sm_rotated_keys = (if rotated_keys then Some True else None),
            sm_migrated_at = unwrap_or migrated_at (now_iso8601 clock), sm_reason = reason, sm_signer = signer,
            sm_signature = unsigned_by signer\<rparr>
      in seal_migration (sign_text C private_key (migration_signing_bytes C m)) m)"

definition verify_session_migration ::
    "crates \<Rightarrow> session_migration \<Rightarrow> bytes \<Rightarrow> 64 word option \<Rightarrow> string option \<Rightarrow> doc_result" where
  "verify_session_migration C m public_key last_generation expected_session_id =
     (if sm_version m \<noteq> ''1'' then doc_rejected (''unsupported migration_version '' @ sm_version m)
      else if es_signer (sm_signature m) \<noteq> sm_signer m then doc_rejected ''signature signer does not match signer''
      else if es_algorithm (sm_signature m) \<noteq> ''ed25519''
        then doc_rejected (''unsupported signature algorithm '' @ es_algorithm (sm_signature m))
      else if (case expected_session_id of Some expected \<Rightarrow> sm_session_id m \<noteq> expected | None \<Rightarrow> False)
        then doc_rejected ''session_id mismatch''
      else case last_generation of
        Some seen \<Rightarrow>
          if sm_generation m \<le> seen
          then doc_rejected (''generation '' @ show_nat (unat (sm_generation m)) @ '' <= last seen '' @ show_nat (unat seen) @ '' (replay)'')
          else check_document C public_key (migration_signing_bytes C m) (es_signature (sm_signature m))
            ''signature base64 decode: '' ''migration signature did not verify''
      | None \<Rightarrow> check_document C public_key (migration_signing_bytes C m) (es_signature (sm_signature m))
            ''signature base64 decode: '' ''migration signature did not verify'')"

subsection \<open>The ratchet\<close>

definition RATCHET_INFO :: bytes where
  "RATCHET_INFO = as_bytes ''tf-session/ratchet''"

record ratchet =
  ra_current_key :: bytes
  ra_rotation_count :: "64 word"
  ra_messages_since_rotation :: "32 word"
  ra_max_messages :: "32 word"

definition ratchet_new :: "bytes \<Rightarrow> 32 word option \<Rightarrow> ratchet" where
  "ratchet_new initial_key max_messages =
     \<lparr>ra_current_key = initial_key, ra_rotation_count = 0, ra_messages_since_rotation = 0,
      ra_max_messages = unwrap_or max_messages 1024\<rparr>"

definition ratchet_rotate :: "crates \<Rightarrow> ratchet \<Rightarrow> ratchet" where
  "ratchet_rotate C r = r\<lparr>ra_current_key := cr_hkdf C (ra_current_key r) (replicate 32 0) RATCHET_INFO 32,
     ra_rotation_count := ra_rotation_count r + 1, ra_messages_since_rotation := 0\<rparr>"

definition observe_message :: "crates \<Rightarrow> ratchet \<Rightarrow> bool \<times> ratchet" where
  "observe_message C r =
     (let r1 = r\<lparr>ra_messages_since_rotation := ra_messages_since_rotation r + 1\<rparr> in
      if ra_messages_since_rotation r1 \<ge> ra_max_messages r1 then (True, ratchet_rotate C r1) else (False, r1))"

subsection \<open>Migrations as documents\<close>

definition migration_plain :: "session_migration \<Rightarrow> bool" where
  "migration_plain m = (opt_plain (tb_metadata (sm_from_binding m)) \<and> opt_plain (tb_metadata (sm_to_binding m)) \<and>
     opt_plain (map_option JArray (sm_preserved_capabilities m)))"

lemma binding_frac_free: "opt_plain (tb_metadata b) \<Longrightarrow> frac_free (binding_json b)"
  unfolding binding_json_def by (rule frac_free_struct_json) (simp add: binding_fields_def frac_free_table_plain)

interpretation migration_document: hashed_document migration_fields sm_signature seal_migration migration_plain migration_json
  by unfold_locales (simp_all add: migration_json_def migration_fields_def seal_migration_def is_ascii_def migration_plain_def
      frac_free_table_plain opt_plain_Some binding_frac_free)

lemma seal_migration_simps [simp]:
  "sm_version (seal_migration s m) = sm_version m" "sm_session_id (seal_migration s m) = sm_session_id m"
  "sm_signer (seal_migration s m) = sm_signer m" "sm_generation (seal_migration s m) = sm_generation m"
  "es_algorithm (sm_signature (seal_migration s m)) = es_algorithm (sm_signature m)"
  "es_signer (sm_signature (seal_migration s m)) = es_signer (sm_signature m)"
  by (simp_all add: seal_migration_def)

lemma verify_session_migration_ok:
  "dc_ok (verify_session_migration C m pk seen expected) \<longleftrightarrow>
     sm_version m = ''1'' \<and> es_signer (sm_signature m) = sm_signer m \<and> es_algorithm (sm_signature m) = ''ed25519'' \<and>
     (case expected of None \<Rightarrow> True | Some s \<Rightarrow> sm_session_id m = s) \<and>
     (case seen of None \<Rightarrow> True | Some g \<Rightarrow> g < sm_generation m) \<and>
     check_signature C pk (migration_signing_bytes C m) (es_signature (sm_signature m)) = SigOk"
  by (auto simp: verify_session_migration_def check_document_ok not_le split: option.splits)

text \<open>
  The receiver of migrations keeps the generation of the last one it accepted: the accepted part of any
  sequence of migrations of a session.
\<close>

fun accept_migrations :: "crates \<Rightarrow> bytes \<Rightarrow> string \<Rightarrow> 64 word option \<Rightarrow> session_migration list \<Rightarrow> session_migration list" where
  "accept_migrations C pk session seen [] = []"
| "accept_migrations C pk session seen (m # ms) =
     (if dc_ok (verify_session_migration C m pk seen (Some session))
      then m # accept_migrations C pk session (Some (sm_generation m)) ms
      else accept_migrations C pk session seen ms)"

lemma accepted_generations:
  "sorted_wrt (<) (map sm_generation (accept_migrations C pk session seen ms)) \<and>
   list_all (\<lambda>m. case seen of None \<Rightarrow> True | Some g \<Rightarrow> g < sm_generation m) (accept_migrations C pk session seen ms)"
proof (induction ms arbitrary: seen)
  case (Cons m ms)
  from Cons[of seen] Cons[of "Some (sm_generation m)"] show ?case
    by (auto simp: verify_session_migration_ok list_all_iff split: option.splits)
qed simp

text \<open>
  C11. Migrations are accepted once and in order: a migration signed by the session's key verifies exactly when it is for the
  expected session and newer than the last generation seen; and whatever sequence of migrations a receiver is shown
  (replayed, reordered or duplicated), the generations it accepts are strictly increasing, so none is
  accepted twice.
\<close>

theorem migration_no_replay:
  assumes "ed25519_ok C"
  shows "(dc_ok (verify_session_migration C
        (migrate_session C clock session generation from to rotated reason signer key at) (cr_public C key) seen expected) \<longleftrightarrow>
      (case expected of None \<Rightarrow> True | Some s \<Rightarrow> session = s) \<and>
      (case seen of None \<Rightarrow> True | Some g \<Rightarrow> g < generation)) \<and>
    sorted_wrt (<) (map sm_generation (accept_migrations C pk session seen ms))"
proof -
  have seal: "check_signature C (cr_public C key) (migration_signing_bytes C (seal_migration (sign_text C key (migration_signing_bytes C m)) m))
      (es_signature (sm_signature (seal_migration (sign_text C key (migration_signing_bytes C m)) m))) = SigOk" for m
    using migration_document.doc.sealed_verifies[OF assms, of key m] by (simp add: migration_signing_bytes_def)
  show ?thesis
    unfolding migrate_session_def Let_def verify_session_migration_ok seal using accepted_generations[of C pk session seen ms]
    by (simp split: option.splits)
qed

subsection \<open>The schedule of the ratchet\<close>

definition next_key :: "crates \<Rightarrow> bytes \<Rightarrow> bytes" where
  "next_key C k = cr_hkdf C k (replicate 32 0) RATCHET_INFO 32"

definition observed :: "crates \<Rightarrow> nat \<Rightarrow> ratchet \<Rightarrow> ratchet" where
  "observed C n = (\<lambda>r. snd (observe_message C r)) ^^ n"

text \<open>A limit of zero behaves as a limit of one.\<close>

definition period :: "32 word \<Rightarrow> nat" where
  "period limit = max 1 (unat limit)"

lemma observe_message_step:
  assumes "unat (ra_messages_since_rotation r) < period (ra_max_messages r)"
  shows "observe_message C r =
    (if Suc (unat (ra_messages_since_rotation r)) = period (ra_max_messages r) then (True, ratchet_rotate C r)
     else (False, r\<lparr>ra_messages_since_rotation := ra_messages_since_rotation r + 1\<rparr>))"
    and "Suc (unat (ra_messages_since_rotation r)) < period (ra_max_messages r) \<Longrightarrow>
      unat (ra_messages_since_rotation r + 1) = Suc (unat (ra_messages_since_rotation r))"
proof -
  let ?c = "ra_messages_since_rotation r" and ?m = "ra_max_messages r"
  have lt: "unat w < 2 ^ 32" for w :: "32 word" using unsigned_less[of w, where ?'a = nat] by simp
  have le: "Suc (unat ?c) \<le> period ?m" using assms by simp
  have "period ?m < 2 ^ 32" using lt[of ?m] by (simp add: period_def)
  with le have suc: "unat (?c + 1) = Suc (unat ?c)" by (simp add: unat_word_ariths)
  then have "?m \<le> ?c + 1 \<longleftrightarrow> Suc (unat ?c) = period ?m"
    using le by (auto simp: word_le_nat_alt period_def max_def split: if_splits)
  then show "observe_message C r =
    (if Suc (unat ?c) = period ?m then (True, ratchet_rotate C r) else (False, r\<lparr>ra_messages_since_rotation := ?c + 1\<rparr>))"
    by (simp add: observe_message_def Let_def ratchet_rotate_def)
  show "Suc (unat ?c) < period ?m \<Longrightarrow> unat (?c + 1) = Suc (unat ?c)" by (rule suc)
qed

text \<open>
  C12. The ratchet renews its key on schedule: after any number of messages the key has been rotated once per full period of
  max_messages messages (1024 by default), the counter holds the remainder and has never wrapped around, and the
  key is the initial key put through HKDF once per rotation. No key is used for more than max_messages messages.
\<close>

theorem ratchet_schedule:
  "let m = period (unwrap_or limit 1024); r = observed C n (ratchet_new key limit) in
   unat (ra_messages_since_rotation r) = n mod m \<and> ra_rotation_count r = of_nat (n div m) \<and>
   ra_current_key r = (next_key C ^^ (n div m)) key \<and>
   (fst (observe_message C r) \<longleftrightarrow> Suc n mod m = 0)"
proof -
  define m where "m = period (unwrap_or limit 1024)"
  define R where "R = (\<lambda>n. observed C n (ratchet_new key limit))"
  have m: "0 < m" by (simp add: m_def period_def)
  have step: "R (Suc n) = snd (observe_message C (R n))" for n by (simp add: R_def observed_def)
  have inv: "ra_max_messages (R n) = unwrap_or limit 1024 \<and> unat (ra_messages_since_rotation (R n)) = n mod m \<and>
      ra_rotation_count (R n) = of_nat (n div m) \<and> ra_current_key (R n) = (next_key C ^^ (n div m)) key" for n
  proof (induction n)
    case 0
    show ?case by (simp add: R_def observed_def ratchet_new_def)
  next
    case (Suc n)
    then have lt: "unat (ra_messages_since_rotation (R n)) < period (ra_max_messages (R n))"
      using m by (simp add: m_def[symmetric])
    show ?case
    proof (cases "Suc (n mod m) = m")
      case True
      then have "Suc n mod m = 0" "Suc n div m = Suc (n div m)" by (simp_all add: mod_Suc div_Suc)
      with True Suc show ?thesis
        by (simp add: step observe_message_step(1)[OF lt] ratchet_rotate_def next_key_def m_def[symmetric])
    next
      case False
      then have d: "Suc n mod m = Suc (n mod m)" "Suc n div m = n div m" by (simp_all add: mod_Suc div_Suc)
      have "Suc (n mod m) < m" using False m mod_less_divisor[of m n] by linarith
      with False Suc d show ?thesis
        using observe_message_step(2)[OF lt] by (simp add: step observe_message_step(1)[OF lt] m_def[symmetric])
    qed
  qed
  have "unat (ra_messages_since_rotation (R n)) < period (ra_max_messages (R n))"
    using inv[of n] m by (simp add: m_def[symmetric])
  moreover have "observed C n (ratchet_new key limit) = R n" by (simp add: R_def)
  ultimately show ?thesis
    using observe_message_step(1)[of "R n" C] inv[of n] m by (simp add: Let_def m_def[symmetric] mod_Suc)
qed

definition sample_binding :: transport_binding where
  "sample_binding = \<lparr>tb_binding_version = ''1'', tb_kind = ''quic'', tb_endpoint = None, tb_exporter_key = None,
     tb_peer_cert_fingerprint = None, tb_tls_alpn = None, tb_established_at = None, tb_metadata = None\<rparr>"

theorem migration_no_replay_witness:
  "dc_ok (verify_session_migration sample_crates
      (migrate_session sample_crates 0 ''s'' 3 sample_binding sample_binding True None ''a'' [7] None)
      (cr_public sample_crates [7]) (Some 2) (Some ''s''))"
  using migration_no_replay[OF sample_crates_ok(1), of 0 "''s''" 3 sample_binding sample_binding True None "''a''" "[7]" None
      "Some 2" "Some ''s''"] by simp

end
