(* ===== verification/Offline_Approval.thy ===== *)
theory Offline_Approval
  imports Documents
begin

text \<open>
  \<open>offline_approval.rs\<close>: an approval signed on a device that has no connection, carried by hand, and verified later.
  The signature covers the request, the decision, the responder and the time of the response. The timestamp reader
  of this module slices the string, which panics where a slice would split a character: the outer option of
  the results is that panic.
\<close>

record offline_approval_packet =
  oa_packet_version :: string
  oa_request :: json
  oa_decision :: string
  oa_responder :: string
  oa_responded_at :: string
  oa_transport_hint :: string
  oa_signature :: ed_signature

record offline_approval_ceremony =
  oc_ceremony_version :: string
  oc_ceremony_id :: string
  oc_kind :: string
  oc_request_id :: string
  oc_responder :: string
  oc_packet_id :: string
  oc_transport_hint :: string
  oc_signature :: string

record offline_response =
  or_response_version :: string
  or_request_id :: string
  or_decision :: string
  or_responder :: string
  or_signed_at :: string
  or_signature :: ed_signature

record offline_result =
  of_ok :: bool
  of_reason :: "string option"
  of_response :: "offline_response option"
  of_ceremony :: "offline_approval_ceremony option"

definition offline_rejected :: "string \<Rightarrow> offline_result" where
  "offline_rejected reason = \<lparr>of_ok = False, of_reason = Some reason, of_response = None, of_ceremony = None\<rparr>"

definition approval_fields :: "json \<Rightarrow> string \<Rightarrow> string \<Rightarrow> string \<Rightarrow> (string \<times> json option) list" where
  "approval_fields request decision responder responded_at =
     [(''request'', Some request), (''decision'', Some (JString decision)), (''responder'', Some (JString responder)),
      (''responded_at'', Some (JString responded_at))]"

definition approval_digest :: "crates \<Rightarrow> json \<Rightarrow> string \<Rightarrow> string \<Rightarrow> string \<Rightarrow> bytes" where
  "approval_digest C request decision responder responded_at =
     cr_sha256 C (as_bytes (unwrap_or_default (canon C (struct_json (approval_fields request decision responder responded_at)))))"

definition sign_offline_approval_packet ::
    "crates \<Rightarrow> int \<Rightarrow> json \<Rightarrow> string \<Rightarrow> string \<Rightarrow> bytes \<Rightarrow> string \<Rightarrow> string option \<Rightarrow> offline_approval_packet" where
  "sign_offline_approval_packet C clock request decision responder private_key transport_hint responded_at =
     (let at = unwrap_or responded_at (now_iso8601 clock) in
      \<lparr>oa_packet_version = ''1'', oa_request = request, oa_decision = decision, oa_responder = responder, oa_responded_at = at,
       oa_transport_hint = transport_hint,
       oa_signature = (unsigned_by responder)\<lparr>es_signature :=
         sign_text C private_key (approval_digest C request decision responder at)\<rparr>\<rparr>)"

text \<open>\<open>s[a..b].parse()\<close>: \<open>None\<close> is the panic, \<open>Some None\<close> the parse error.\<close>

definition slice_parse :: "(string \<Rightarrow> int option) \<Rightarrow> string \<Rightarrow> nat \<Rightarrow> nat \<Rightarrow> int option option" where
  "slice_parse p s a b = map_option p (str_get s a b)"

definition and_then :: "int option option \<Rightarrow> (int \<Rightarrow> int option option) \<Rightarrow> int option option" where
  "and_then m f = (case m of None \<Rightarrow> None | Some None \<Rightarrow> Some None | Some (Some x) \<Rightarrow> f x)"

definition parse_iso8601_slices :: "string \<Rightarrow> int option option" where
  "parse_iso8601_slices s =
     (if length s < 19 \<or> last s \<noteq> CHR ''Z'' then Some None else
      and_then (slice_parse parse_signed s 0 4) (\<lambda>year.
      and_then (slice_parse parse_unsigned s 5 7) (\<lambda>month.
      and_then (slice_parse parse_unsigned s 8 10) (\<lambda>day.
      and_then (slice_parse parse_unsigned s 11 13) (\<lambda>hour.
      and_then (slice_parse parse_unsigned s 14 16) (\<lambda>minute.
      and_then (slice_parse parse_unsigned s 17 19) (\<lambda>second.
        Some (Some (unix_from_civil year month day hour minute second)))))))))"

text \<open>The age the verifier compares, when both times are present and can be read.\<close>

definition packet_age :: "offline_approval_packet \<Rightarrow> string option \<Rightarrow> int option option" where
  "packet_age packet now =
     and_then (parse_iso8601_slices (oa_responded_at packet)) (\<lambda>then_secs.
       case now of
         None \<Rightarrow> Some None
       | Some now_str \<Rightarrow> and_then (parse_iso8601_slices now_str) (\<lambda>now_secs. Some (Some (now_secs - then_secs))))"

definition accept_offline :: "bytes \<Rightarrow> offline_approval_packet \<Rightarrow> offline_result" where
  "accept_offline digest packet =
     (let packet_id = ''pkt-'' @ take 16 (hex_lower digest);
          request_id = unwrap_or (get_str (oa_request packet) ''id'') []
      in \<lparr>of_ok = True, of_reason = None,
          of_response = Some \<lparr>or_response_version = ''1'', or_request_id = request_id, or_decision = oa_decision packet,
            or_responder = oa_responder packet, or_signed_at = oa_responded_at packet, or_signature = oa_signature packet\<rparr>,
          of_ceremony = Some \<lparr>oc_ceremony_version = ''1'', oc_ceremony_id = ''cer-'' @ packet_id,
            oc_kind = ''offline-signed-packet'', oc_request_id = request_id, oc_responder = oa_responder packet,
            oc_packet_id = packet_id, oc_transport_hint = oa_transport_hint packet,
            oc_signature = es_signature (oa_signature packet)\<rparr>\<rparr>)"

definition check_offline :: "crates \<Rightarrow> offline_approval_packet \<Rightarrow> bytes \<Rightarrow> offline_result" where
  "check_offline C packet public_key =
     (let digest = approval_digest C (oa_request packet) (oa_decision packet) (oa_responder packet) (oa_responded_at packet) in
      case check_signature C public_key digest (es_signature (oa_signature packet)) of
        SigBase64 e \<Rightarrow> offline_rejected (''signature base64 decode: '' @ decode_error_str e)
      | SigParse e \<Rightarrow> offline_rejected (''signature parse: '' @ e)
      | SigKey e \<Rightarrow> offline_rejected (''verifying key: '' @ e)
      | SigBad \<Rightarrow> offline_rejected ''signature verification failed''
      | SigOk \<Rightarrow> accept_offline digest packet)"

definition verify_offline_approval_packet ::
    "crates \<Rightarrow> offline_approval_packet \<Rightarrow> bytes \<Rightarrow> string option \<Rightarrow> int option \<Rightarrow> offline_result option" where
  "verify_offline_approval_packet C packet public_key now max_age_seconds =
     (if oa_packet_version packet \<noteq> ''1''
        then Some (offline_rejected (''unsupported packet_version '' @ oa_packet_version packet))
      else if es_signer (oa_signature packet) \<noteq> oa_responder packet
        then Some (offline_rejected ''signature signer does not match responder'')
      else if es_algorithm (oa_signature packet) \<noteq> ''ed25519''
        then Some (offline_rejected (''unsupported signature algorithm '' @ es_algorithm (oa_signature packet)))
      else
        let limit = unwrap_or max_age_seconds 86400 in
        map_option (\<lambda>age. case age of
            None \<Rightarrow> check_offline C packet public_key
          | Some a \<Rightarrow>
              if a > limit then offline_rejected (''packet older than '' @ show_int limit @ ''s'')
              else if a < - 300 then offline_rejected ''packet timestamp is in the future''
              else check_offline C packet public_key)
          (packet_age packet now))"

subsection \<open>What is accepted\<close>

lemma check_offline_signed:
  assumes "ed25519_ok C"
  shows "check_offline C (sign_offline_approval_packet C clock request decision responder key hint at) (cr_public C key) =
    accept_offline (approval_digest C request decision responder (unwrap_or at (now_iso8601 clock)))
      (sign_offline_approval_packet C clock request decision responder key hint at)"
  by (simp add: check_offline_def sign_offline_approval_packet_def Let_def check_signature_sign_text[OF assms])

lemma accept_offline_ok [simp]: "of_ok (accept_offline d p)"
  by (simp add: accept_offline_def Let_def)

lemma offline_rejected_ok [simp]: "\<not> of_ok (offline_rejected r)"
  by (simp add: offline_rejected_def)

text \<open>
  C15. When a carried approval counts: a packet signed by the responder is accepted exactly when its age, wherever both times
  can be read, is at most the limit and no more than 300 seconds in the future; the response and the ceremony then
  carry the decision, the responder and the id of the signed request. But when the caller passes no time, or
  the time of the response cannot be read, the age is not checked at all and the packet is accepted at any time.
\<close>

theorem offline_approval_accepted:
  assumes "ed25519_ok C" "p = sign_offline_approval_packet C clock request decision responder key hint at"
    and "verify_offline_approval_packet C p (cr_public C key) now max_age = Some r"
  shows "(of_ok r \<longleftrightarrow> (case packet_age p now of Some (Some a) \<Rightarrow> - 300 \<le> a \<and> a \<le> unwrap_or max_age 86400 | _ \<Rightarrow> True)) \<and>
    (of_ok r \<longrightarrow> (\<exists>resp cer. of_response r = Some resp \<and> of_ceremony r = Some cer \<and> or_decision resp = decision \<and>
       or_responder resp = responder \<and> or_request_id resp = unwrap_or (get_str request ''id'') [] \<and>
       oc_request_id cer = or_request_id resp \<and> oc_responder cer = responder)) \<and>
    (now = None \<or> parse_iso8601_slices (unwrap_or at (now_iso8601 clock)) = Some None \<longrightarrow> of_ok r)"
proof -
  have fields: "oa_packet_version p = ''1''" "es_signer (oa_signature p) = oa_responder p" "es_algorithm (oa_signature p) = ''ed25519''"
    "oa_responded_at p = unwrap_or at (now_iso8601 clock)"
    by (simp_all add: assms(2) sign_offline_approval_packet_def Let_def)
  obtain age where age: "packet_age p now = Some age"
    and r: "r = (case age of None \<Rightarrow> check_offline C p (cr_public C key)
      | Some a \<Rightarrow> if a > unwrap_or max_age 86400 then offline_rejected (''packet older than '' @ show_int (unwrap_or max_age 86400) @ ''s'')
          else if a < - 300 then offline_rejected ''packet timestamp is in the future'' else check_offline C p (cr_public C key))"
    using assms(3) fields by (auto simp: verify_offline_approval_packet_def Let_def)
  have none: "age = None" if "now = None \<or> parse_iso8601_slices (unwrap_or at (now_iso8601 clock)) = Some None"
    using age that fields(4) by (auto simp: packet_age_def and_then_def split: option.splits)
  have c: "check_offline C p (cr_public C key) = accept_offline (approval_digest C request decision responder (unwrap_or at (now_iso8601 clock))) p"
    unfolding assms(2) by (rule check_offline_signed[OF assms(1)])
  have d: "oa_decision p = decision" "oa_responder p = responder" "oa_request p = request"
    by (simp_all add: assms(2) sign_offline_approval_packet_def Let_def)
  have "\<exists>resp cer. of_response (accept_offline dg p) = Some resp \<and> of_ceremony (accept_offline dg p) = Some cer \<and> or_decision resp = decision \<and>
       or_responder resp = responder \<and> or_request_id resp = unwrap_or (get_str request ''id'') [] \<and>
       oc_request_id cer = or_request_id resp \<and> oc_responder cer = responder" for dg
    by (simp add: accept_offline_def Let_def d)
  moreover have "age \<noteq> None \<Longrightarrow> now \<noteq> None \<and> parse_iso8601_slices (unwrap_or at (now_iso8601 clock)) \<noteq> Some None"
    by (meson none)
  ultimately show ?thesis unfolding age by (cases age) (auto simp: r c simp del: not_None_eq)
qed

lemma verify_offline_ok:
  "verify_offline_approval_packet C p pk now max_age = Some r \<and> of_ok r \<longleftrightarrow>
     oa_packet_version p = ''1'' \<and> es_signer (oa_signature p) = oa_responder p \<and> es_algorithm (oa_signature p) = ''ed25519'' \<and>
     (\<exists>age. packet_age p now = Some age \<and> (case age of None \<Rightarrow> True | Some a \<Rightarrow> - 300 \<le> a \<and> a \<le> unwrap_or max_age 86400)) \<and>
     r = check_offline C p pk \<and> of_ok r"
  by (cases "packet_age p now") (auto simp: verify_offline_approval_packet_def Let_def not_less split: if_splits option.splits)

text \<open>
  The way a packet travelled is not protected: whoever carries an accepted packet can replace its transport hint, and the
  packet is accepted all the same, with the replaced hint in the record of the ceremony.
\<close>

lemma offline_hint_rewritable:
  assumes "verify_offline_approval_packet C p pk now max_age = Some r" "of_ok r"
  shows "\<exists>r' cer. verify_offline_approval_packet C (p\<lparr>oa_transport_hint := hint\<rparr>) pk now max_age = Some r' \<and> of_ok r' \<and>
    of_response r' = of_response r \<and> of_ceremony r' = Some cer \<and> oc_transport_hint cer = hint"
proof -
  let ?p = "p\<lparr>oa_transport_hint := hint\<rparr>"
  have age: "packet_age ?p now = packet_age p now" by (simp add: packet_age_def)
  have check: "of_ok (check_offline C p pk) \<Longrightarrow> of_ok (check_offline C ?p pk) \<and>
      of_response (check_offline C ?p pk) = of_response (check_offline C p pk) \<and>
      (\<exists>cer. of_ceremony (check_offline C ?p pk) = Some cer \<and> oc_transport_hint cer = hint)"
    by (auto simp: check_offline_def Let_def accept_offline_def split: sig_check.splits)
  note ok = verify_offline_ok[THEN iffD1, OF conjI[OF assms]]
  then have r: "r = check_offline C p pk" by (elim conjE)
  have "verify_offline_approval_packet C ?p pk now max_age = Some (check_offline C ?p pk) \<and> of_ok (check_offline C ?p pk)"
    unfolding verify_offline_ok age using ok check assms(2) unfolding r by simp
  with check r assms(2) show ?thesis by blast
qed

subsection \<open>Examples\<close>

definition sample_approval :: offline_approval_packet where
  "sample_approval = sign_offline_approval_packet sample_crates 0 (JObject [(''id'', JString ''req-1'')]) ''approve'' ''r'' [7] ''usb'' (Some ''yesterday'')"

lemma sample_approval_verified:
  "verify_offline_approval_packet sample_crates sample_approval (cr_public sample_crates [7]) (Some ''2099-01-01T00:00:00Z'') None =
     Some (check_offline sample_crates sample_approval (cr_public sample_crates [7]))"
  by (simp add: verify_offline_approval_packet_def sample_approval_def sign_offline_approval_packet_def Let_def packet_age_def
      parse_iso8601_slices_def and_then_def)

theorem offline_approval_accepted_witness:
  "of_ok (check_offline sample_crates sample_approval (cr_public sample_crates [7]))"
proof -
  have p: "parse_iso8601_slices (unwrap_or (Some ''yesterday'') (now_iso8601 0)) = Some None" by (simp add: parse_iso8601_slices_def)
  show ?thesis
    using offline_approval_accepted[OF sample_crates_ok(1) sample_approval_def sample_approval_verified] p by blast
qed

end
