(* ===== verification/Federation.thy ===== *)
theory Federation
  imports Documents
begin

text \<open>
  \<open>federation.rs\<close>: a domain attests keys, trust levels and scopes of another domain, and the trust store decides
  whether a foreign actor is vouched for. The store is a \<open>HashMap\<close>; the order in which it hands out its values
  is not determined by its contents, so the lookups take that order as the argument \<open>order\<close>, and
  \<open>iterates\<close> says what every order has in common.
\<close>

record trust_bundle_entry =
  te_kind :: string
  te_value :: string
  te_key_id :: "string option"

record federation_attestation =
  fa_version :: string
  fa_id :: string
  fa_issuer_domain :: string
  fa_subject_domain :: string
  fa_subject_actor :: "string option"
  fa_scope :: "string list option"
  fa_trust_levels_granted :: "string list option"
  fa_trust_bundle :: "trust_bundle_entry list"
  fa_constraints :: "json list option"
  fa_issued_at :: string
  fa_valid_until :: string
  fa_issuer :: string
  fa_signature :: ed_signature

definition bundle_entry_json :: "trust_bundle_entry \<Rightarrow> json" where
  "bundle_entry_json e = struct_json
     [(''kind'', Some (JString (te_kind e))), (''value'', Some (JString (te_value e))), (''key_id'', map_option JString (te_key_id e))]"

definition attestation_fields :: "federation_attestation \<Rightarrow> (string \<times> json option) list" where
  "attestation_fields a =
     [(''attestation_version'', Some (JString (fa_version a))), (''attestation_id'', Some (JString (fa_id a))),
      (''issuer_domain'', Some (JString (fa_issuer_domain a))), (''subject_domain'', Some (JString (fa_subject_domain a))),
      (''subject_actor'', map_option JString (fa_subject_actor a)), (''scope'', map_option strings_json (fa_scope a)),
      (''trust_levels_granted'', map_option strings_json (fa_trust_levels_granted a)),
      (''trust_bundle'', Some (JArray (map bundle_entry_json (fa_trust_bundle a)))),
      (''constraints'', map_option JArray (fa_constraints a)), (''issued_at'', Some (JString (fa_issued_at a))),
      (''valid_until'', Some (JString (fa_valid_until a))), (''issuer'', Some (JString (fa_issuer a)))]"

definition attestation_json :: "federation_attestation \<Rightarrow> json" where
  "attestation_json a = struct_json (attestation_fields a @ [(''signature'', Some (ed_signature_json (fa_signature a)))])"

definition attestation_signing_bytes :: "crates \<Rightarrow> federation_attestation \<Rightarrow> bytes" where
  "attestation_signing_bytes C a = doc_signing_bytes C (attestation_json a)"

record sign_attestation_args =
  aa_attestation_id :: string
  aa_issuer_domain :: string
  aa_subject_domain :: string
  aa_subject_actor :: "string option"
  aa_scope :: "string list option"
  aa_trust_levels_granted :: "string list option"
  aa_trust_bundle :: "trust_bundle_entry list"
  aa_constraints :: "json list option"
  aa_issued_at :: "string option"
  aa_valid_until :: string
  aa_issuer :: string
  aa_private_key :: bytes

definition non_empty :: "'a list option \<Rightarrow> 'a list option" where
  "non_empty v = (case v of Some s \<Rightarrow> if s = [] then None else Some s | None \<Rightarrow> None)"

definition seal_attestation :: "string \<Rightarrow> federation_attestation \<Rightarrow> federation_attestation" where
  "seal_attestation sig a = a\<lparr>fa_signature := (fa_signature a)\<lparr>es_signature := sig\<rparr>\<rparr>"

definition attestation_draft :: "int \<Rightarrow> sign_attestation_args \<Rightarrow> federation_attestation" where
  "attestation_draft clock args =
     \<lparr>fa_version = ''1'', fa_id = aa_attestation_id args, fa_issuer_domain = aa_issuer_domain args,
      fa_subject_domain = aa_subject_domain args, fa_subject_actor = aa_subject_actor args, fa_scope = non_empty (aa_scope args),
      fa_trust_levels_granted = non_empty (aa_trust_levels_granted args), fa_trust_bundle = aa_trust_bundle args,
      fa_constraints = non_empty (aa_constraints args), fa_issued_at = unwrap_or (aa_issued_at args) (now_iso8601 clock),
      fa_valid_until = aa_valid_until args, fa_issuer = aa_issuer args, fa_signature = unsigned_by (aa_issuer args)\<rparr>"

definition sign_federation_attestation :: "crates \<Rightarrow> int \<Rightarrow> sign_attestation_args \<Rightarrow> string + federation_attestation" where
  "sign_federation_attestation C clock args =
     (if aa_trust_bundle args = [] then Inl ''trust_bundle must be non-empty''
      else let att = attestation_draft clock args
        in Inr (seal_attestation (sign_text C (aa_private_key args) (attestation_signing_bytes C att)) att))"

definition attestation_window :: "federation_attestation \<Rightarrow> window" where
  "attestation_window a = default_window\<lparr>w_valid_from := Some (fa_issued_at a), w_valid_until := Some (fa_valid_until a)\<rparr>"

definition verify_federation_attestation ::
    "crates \<Rightarrow> int \<Rightarrow> federation_attestation \<Rightarrow> bytes \<Rightarrow> string option \<Rightarrow> doc_result" where
  "verify_federation_attestation C clock a issuer_public_key now =
     (if fa_version a \<noteq> ''1'' then doc_rejected (''unsupported version '' @ fa_version a)
      else if es_signer (fa_signature a) \<noteq> fa_issuer a then doc_rejected ''signature signer does not match issuer''
      else if es_algorithm (fa_signature a) \<noteq> ''ed25519''
        then doc_rejected (''unsupported algorithm '' @ es_algorithm (fa_signature a))
      else if \<not> is_within_window (attestation_window a) (unwrap_or now (now_iso8601 clock))
        then doc_rejected ''attestation outside valid window''
      else check_document C issuer_public_key (attestation_signing_bytes C a) (es_signature (fa_signature a))
        ''signature base64: '' ''signature did not verify'')"

subsection \<open>The trust store\<close>

type_synonym federated_trust_store = "string \<Rightarrow> federation_attestation option"

definition store_new :: federated_trust_store where
  "store_new = Map.empty"

definition store_add :: "federation_attestation \<Rightarrow> federated_trust_store \<Rightarrow> federated_trust_store" where
  "store_add att by_id = by_id(fa_id att \<mapsto> att)"

definition store_remove :: "string \<Rightarrow> federated_trust_store \<Rightarrow> bool \<times> federated_trust_store" where
  "store_remove attestation_id by_id = (by_id attestation_id \<noteq> None, by_id(attestation_id := None))"

definition iterates :: "federation_attestation list \<Rightarrow> federated_trust_store \<Rightarrow> bool" where
  "iterates order by_id = (distinct order \<and> set order = ran by_id)"

definition vouches :: "string \<Rightarrow> string \<Rightarrow> string \<Rightarrow> federation_attestation \<Rightarrow> bool" where
  "vouches actor subject_domain now a =
     (fa_subject_domain a = subject_domain \<and>
      (case fa_subject_actor a of Some s \<Rightarrow> s = actor | None \<Rightarrow> True) \<and>
      is_within_window (attestation_window a) now)"

definition find_for ::
    "federation_attestation list \<Rightarrow> int \<Rightarrow> string \<Rightarrow> string \<Rightarrow> string option \<Rightarrow> federation_attestation option" where
  "find_for order clock actor subject_domain now = find (vouches actor subject_domain (unwrap_or now (now_iso8601 clock))) order"

record foreign_identity_check =
  fc_ok :: bool
  fc_reason :: "string option"
  fc_matched_attestation_id :: "string option"
  fc_trust_levels :: "string list option"
  fc_scope :: "string list option"

definition foreign_rejected :: "string \<Rightarrow> string option \<Rightarrow> foreign_identity_check" where
  "foreign_rejected reason matched =
     \<lparr>fc_ok = False, fc_reason = Some reason, fc_matched_attestation_id = matched, fc_trust_levels = None, fc_scope = None\<rparr>"

text \<open>An entry of the bundle under whose key the signature verifies.\<close>

definition entry_verifies :: "crates \<Rightarrow> bytes \<Rightarrow> bytes \<Rightarrow> trust_bundle_entry \<Rightarrow> bool" where
  "entry_verifies C message sig e =
     (te_kind e = ''ed25519'' \<and>
      (case base64_decode STANDARD (te_value e) of
         Inl _ \<Rightarrow> False
       | Inr pk \<Rightarrow> length pk = 32 \<and> cr_key_error C pk = None \<and> cr_verify C pk message sig))"

definition verify_foreign ::
    "crates \<Rightarrow> federation_attestation list \<Rightarrow> int \<Rightarrow> string \<Rightarrow> string \<Rightarrow> (bytes \<times> bytes) option \<Rightarrow> string option \<Rightarrow>
     foreign_identity_check" where
  "verify_foreign C order clock actor subject_domain signed_msg now =
     (case find_for order clock actor subject_domain now of
        None \<Rightarrow> foreign_rejected (''no active attestation for '' @ actor @ '' in '' @ subject_domain) None
      | Some a \<Rightarrow>
          let ok = \<lparr>fc_ok = True, fc_reason = None, fc_matched_attestation_id = Some (fa_id a),
                fc_trust_levels = fa_trust_levels_granted a, fc_scope = fa_scope a\<rparr> in
          (case signed_msg of
             None \<Rightarrow> ok
           | Some (message, sig) \<Rightarrow>
               (case cr_sig_error C sig of
                  Some e \<Rightarrow> foreign_rejected (''foreign sig parse: '' @ e) (Some (fa_id a))
                | None \<Rightarrow>
                    if list_ex (entry_verifies C message sig) (fa_trust_bundle a) then ok
                    else foreign_rejected ''no bundle key matched the foreign actor's signature'' (Some (fa_id a)))))"

subsection \<open>Attestations as documents\<close>

definition attestation_plain :: "federation_attestation \<Rightarrow> bool" where
  "attestation_plain a = opt_plain (map_option JArray (fa_constraints a))"

lemma bundle_entry_frac_free: "frac_free (bundle_entry_json e)"
  unfolding bundle_entry_json_def by (rule frac_free_struct_json) (simp add: frac_free_table_plain)

interpretation attestation_document: hashed_document attestation_fields fa_signature seal_attestation attestation_plain attestation_json
  by unfold_locales (simp_all add: attestation_json_def attestation_fields_def seal_attestation_def is_ascii_def attestation_plain_def
      frac_free_table_plain opt_plain_Some bundle_entry_frac_free list_all_iff)

lemma seal_attestation_simps [simp]:
  "fa_version (seal_attestation s a) = fa_version a" "fa_issuer (seal_attestation s a) = fa_issuer a"
  "attestation_window (seal_attestation s a) = attestation_window a"
  "es_algorithm (fa_signature (seal_attestation s a)) = es_algorithm (fa_signature a)"
  "es_signer (fa_signature (seal_attestation s a)) = es_signer (fa_signature a)"
  by (simp_all add: seal_attestation_def attestation_window_def)

lemma within_attestation: "is_within_window (attestation_window a) now \<longleftrightarrow> fa_issued_at a \<le> now \<and> now \<le> fa_valid_until a"
  by (simp add: is_within_window_iff attestation_window_def default_window_def)

lemma signed_attestation_verifies:
  assumes "ed25519_ok C" "sign_federation_attestation C clock' args = Inr a"
  shows "dc_ok (verify_federation_attestation C clock a (cr_public C (aa_private_key args)) now) \<longleftrightarrow>
     fa_issued_at a \<le> unwrap_or now (now_iso8601 clock) \<and> unwrap_or now (now_iso8601 clock) \<le> aa_valid_until args"
proof -
  let ?d = "attestation_draft clock' args"
  let ?a = "seal_attestation (sign_text C (aa_private_key args) (attestation_signing_bytes C ?d)) ?d"
  have a: "a = ?a" using assms(2) by (simp add: sign_federation_attestation_def Let_def split: if_splits)
  have "check_signature C (cr_public C (aa_private_key args)) (attestation_signing_bytes C ?a) (es_signature (fa_signature ?a)) = SigOk"
    using attestation_document.doc.sealed_verifies[OF assms(1), of "aa_private_key args" ?d] by (simp add: attestation_signing_bytes_def)
  then show ?thesis
    unfolding a by (simp add: verify_federation_attestation_def check_document_ok within_attestation)
      (simp add: attestation_draft_def seal_attestation_def)
qed

subsection \<open>Foreign identities\<close>

lemma find_for_iterates:
  assumes "iterates order by_id"
  shows "find_for order clock actor domain now = Some a \<Longrightarrow>
      a \<in> ran by_id \<and> vouches actor domain (unwrap_or now (now_iso8601 clock)) a"
    and "find_for order clock actor domain now = None \<longleftrightarrow>
      \<not> (\<exists>a \<in> ran by_id. vouches actor domain (unwrap_or now (now_iso8601 clock)) a)"
  using assms by (auto simp: find_for_def iterates_def find_None_iff dest: find_SomeD)

text \<open>
  C13. A foreign actor is only believed on the word of an attestation: whatever order the store iterates in, an accepted check
  names an attestation in the store that covers the actor and the domain and is valid at the time, reports exactly
  its trust levels and scope, and, when a signed message is given, that attestation lists an Ed25519 key under which
  the signature verifies. When no attestation vouches for the actor, the check fails.
\<close>

theorem foreign_identity_sound:
  assumes "iterates order by_id" "c = verify_foreign C order clock actor domain signed_msg now"
  shows "(fc_ok c \<longrightarrow> (\<exists>a \<in> ran by_id. vouches actor domain (unwrap_or now (now_iso8601 clock)) a \<and>
       fc_matched_attestation_id c = Some (fa_id a) \<and> fc_trust_levels c = fa_trust_levels_granted a \<and> fc_scope c = fa_scope a \<and>
       (\<forall>message sig. signed_msg = Some (message, sig) \<longrightarrow> list_ex (entry_verifies C message sig) (fa_trust_bundle a)))) \<and>
    (\<not> (\<exists>a \<in> ran by_id. vouches actor domain (unwrap_or now (now_iso8601 clock)) a) \<longrightarrow> \<not> fc_ok c)"
proof (cases "find_for order clock actor domain now")
  case None
  then show ?thesis by (simp add: assms(2) verify_foreign_def foreign_rejected_def)
next
  case (Some a)
  with find_for_iterates(1)[OF assms(1) Some] show ?thesis
    by (auto simp: assms(2) verify_foreign_def foreign_rejected_def Let_def split: option.splits if_splits)
qed

subsection \<open>Two attestations for one actor\<close>

definition sample_attestation :: "string \<Rightarrow> bytes \<Rightarrow> federation_attestation" where
  "sample_attestation name key = \<lparr>fa_version = ''1'', fa_id = name, fa_issuer_domain = ''a.example'', fa_subject_domain = ''b.example'',
     fa_subject_actor = None, fa_scope = None, fa_trust_levels_granted = None,
     fa_trust_bundle = [\<lparr>te_kind = ''ed25519'', te_value = base64_encode STANDARD key, te_key_id = None\<rparr>], fa_constraints = None,
     fa_issued_at = ''2026-01-01T00:00:00Z'', fa_valid_until = ''2026-12-31T00:00:00Z'', fa_issuer = ''i'',
     fa_signature = unsigned_by ''i''\<rparr>"

definition sample_store :: federated_trust_store where
  "sample_store = store_add (sample_attestation ''new'' (replicate 32 2)) (store_add (sample_attestation ''old'' (replicate 32 1)) store_new)"

lemma sample_store_iterates:
  "iterates [sample_attestation ''new'' (replicate 32 2), sample_attestation ''old'' (replicate 32 1)] sample_store"
  "iterates [sample_attestation ''old'' (replicate 32 1), sample_attestation ''new'' (replicate 32 2)] sample_store"
  by (auto simp: iterates_def sample_store_def store_add_def store_new_def sample_attestation_def)

lemma sample_vouches: "vouches ''x'' ''b.example'' ''2026-04-24T12:00:00Z'' (sample_attestation name key)"
  by (simp add: vouches_def within_attestation) (simp add: sample_attestation_def)

text \<open>
  The answer can depend on the order of a hash map: with two valid attestations of one domain in the store (a key being
  rolled over), the same signed message is accepted in one iteration order and refused in another, because only
  the first attestation found is consulted.
\<close>

lemma foreign_check_order_dependent:
  "\<exists>by_id order order' message sig.
     iterates order by_id \<and> iterates order' by_id \<and>
     fc_ok (verify_foreign sample_crates order 0 ''x'' ''b.example'' (Some (message, sig)) (Some ''2026-04-24T12:00:00Z'')) \<and>
     \<not> fc_ok (verify_foreign sample_crates order' 0 ''x'' ''b.example'' (Some (message, sig)) (Some ''2026-04-24T12:00:00Z''))"
proof -
  let ?new = "sample_attestation ''new'' (replicate 32 2)" and ?old = "sample_attestation ''old'' (replicate 32 1)"
  let ?s = "Some ([9], replicate 32 2 @ [9])"
  have e: "list_ex (entry_verifies sample_crates [9] (replicate 32 2 @ [9])) (fa_trust_bundle ?new)"
    "\<not> list_ex (entry_verifies sample_crates [9] (replicate 32 2 @ [9])) (fa_trust_bundle ?old)"
    by (simp_all add: sample_attestation_def entry_verifies_def sample_crates_def)
  have n: "cr_sig_error sample_crates s = None" for s by (simp add: sample_crates_def)
  have "fc_ok (verify_foreign sample_crates [?new, ?old] 0 ''x'' ''b.example'' ?s (Some ''2026-04-24T12:00:00Z''))"
    "\<not> fc_ok (verify_foreign sample_crates [?old, ?new] 0 ''x'' ''b.example'' ?s (Some ''2026-04-24T12:00:00Z''))"
    using e by (simp_all add: verify_foreign_def find_for_def sample_vouches n foreign_rejected_def Let_def)
  with sample_store_iterates show ?thesis by blast
qed

theorem foreign_identity_sound_witness:
  "fc_ok (verify_foreign sample_crates [sample_attestation ''old'' (replicate 32 1), sample_attestation ''new'' (replicate 32 2)]
      0 ''x'' ''b.example'' None (Some ''2026-04-24T12:00:00Z'')) \<and>
   (\<exists>a \<in> ran sample_store. fc_matched_attestation_id (verify_foreign sample_crates
      [sample_attestation ''old'' (replicate 32 1), sample_attestation ''new'' (replicate 32 2)]
      0 ''x'' ''b.example'' None (Some ''2026-04-24T12:00:00Z'')) = Some (fa_id a))"
proof -
  have ok: "fc_ok (verify_foreign sample_crates [sample_attestation ''old'' (replicate 32 1), sample_attestation ''new'' (replicate 32 2)]
      0 ''x'' ''b.example'' None (Some ''2026-04-24T12:00:00Z''))"
    by (simp add: verify_foreign_def find_for_def sample_vouches Let_def)
  with foreign_identity_sound[OF sample_store_iterates(2) refl, of sample_crates 0 "''x''" "''b.example''" None "Some ''2026-04-24T12:00:00Z''"]
  show ?thesis by blast
qed

end
