(* ===== verification/Evidence.thy ===== *)
theory Evidence
  imports Documents
begin

text \<open>
  \<open>evidence.rs\<close>: the evidence bundle of an incident, a signed selection of proof events. Events are JSON values here.
  The regular-expression crate is the argument \<open>compile\<close>: the error text of a bad pattern, or its matcher.
\<close>

record evidence_incident =
  ei_label :: string
  ei_started_at :: string
  ei_ended_at :: "string option"
  ei_domains :: "string list option"
  ei_description :: "string option"

record evidence_anchor =
  ea_kind :: string
  ea_url :: "string option"
  ea_inclusion_proof :: "json option"

record evidence_bundle =
  eb_version :: string
  eb_bundle_id :: string
  eb_trust_domain :: string
  eb_incident :: evidence_incident
  eb_actors :: "string list option"
  eb_events :: "json list"
  eb_policy_decisions :: "json list"
  eb_approvals :: "json list"
  eb_ceremonies :: "json list option"
  eb_quorum_outcomes :: "json list option"
  eb_anchors :: "evidence_anchor list option"
  eb_encrypted_payload :: "json option"
  eb_level :: "string option"
  eb_issued_at :: string
  eb_issuer :: string
  eb_signature :: ed_signature

definition incident_json :: "evidence_incident \<Rightarrow> json" where
  "incident_json i = struct_json
     [(''label'', Some (JString (ei_label i))), (''started_at'', Some (JString (ei_started_at i))),
      (''ended_at'', map_option JString (ei_ended_at i)), (''domains'', map_option strings_json (ei_domains i)),
      (''description'', map_option JString (ei_description i))]"

definition evidence_anchor_json :: "evidence_anchor \<Rightarrow> json" where
  "evidence_anchor_json a = struct_json
     [(''kind'', Some (JString (ea_kind a))), (''url'', map_option JString (ea_url a)), (''inclusion_proof'', ea_inclusion_proof a)]"

definition evidence_fields :: "evidence_bundle \<Rightarrow> (string \<times> json option) list" where
  "evidence_fields b =
     [(''evidence_version'', Some (JString (eb_version b))), (''bundle_id'', Some (JString (eb_bundle_id b))),
      (''trust_domain'', Some (JString (eb_trust_domain b))), (''incident'', Some (incident_json (eb_incident b))),
      (''actors'', map_option strings_json (eb_actors b)), (''events'', Some (JArray (eb_events b))),
      (''policy_decisions'', Some (JArray (eb_policy_decisions b))), (''approvals'', Some (JArray (eb_approvals b))),
      (''ceremonies'', map_option JArray (eb_ceremonies b)), (''quorum_outcomes'', map_option JArray (eb_quorum_outcomes b)),
      (''anchors'', map_option (\<lambda>l. JArray (map evidence_anchor_json l)) (eb_anchors b)),
      (''encrypted_payload'', eb_encrypted_payload b), (''level'', map_option JString (eb_level b)),
      (''issued_at'', Some (JString (eb_issued_at b))), (''issuer'', Some (JString (eb_issuer b)))]"

definition evidence_json :: "evidence_bundle \<Rightarrow> json" where
  "evidence_json b = struct_json (evidence_fields b @ [(''signature'', Some (ed_signature_json (eb_signature b)))])"

definition evidence_signing_bytes :: "crates \<Rightarrow> evidence_bundle \<Rightarrow> bytes" where
  "evidence_signing_bytes C b = doc_signing_bytes C (evidence_json b)"

record assemble_args =
  as_bundle_id :: string
  as_trust_domain :: string
  as_label :: string
  as_started_at :: string
  as_ended_at :: "string option"
  as_domains :: "string list option"
  as_description :: "string option"
  as_actor_filter :: "string list option"
  as_event_type_pattern :: "string option"
  as_policy_decisions :: "json list"
  as_approvals :: "json list"
  as_ceremonies :: "json list option"
  as_quorum_outcomes :: "json list option"
  as_issuer :: string
  as_private_key :: bytes

record assemble_result =
  ar_bundle :: evidence_bundle
  ar_skipped :: nat

definition str_field :: "json \<Rightarrow> string \<Rightarrow> string" where
  "str_field ev key = unwrap_or (get_str ev key) []"

text \<open>The checks of one event, in the order of the loop.\<close>

definition keep_event :: "assemble_args \<Rightarrow> (string \<Rightarrow> bool) option \<Rightarrow> json \<Rightarrow> bool" where
  "keep_event args regex ev =
     (if str_field ev ''timestamp'' < as_started_at args then False
      else if (case as_ended_at args of Some stop \<Rightarrow> str_field ev ''timestamp'' > stop | None \<Rightarrow> False) then False
      else if (case as_actor_filter args of Some actors \<Rightarrow> str_field ev ''actor_id'' \<notin> set actors | None \<Rightarrow> False) then False
      else (case regex of Some is_match \<Rightarrow> is_match (str_field ev ''type'') | None \<Rightarrow> True))"

fun filter_events :: "(json \<Rightarrow> bool) \<Rightarrow> json list \<Rightarrow> json list \<times> nat" where
  "filter_events keep [] = ([], 0)"
| "filter_events keep (ev # evs) =
     (let (filtered, skipped) = filter_events keep evs in
      if keep ev then (ev # filtered, skipped) else (filtered, Suc skipped))"

definition level_order :: "string list" where
  "level_order = [''L0'', ''L1'', ''L2'', ''L3'', ''L4'', ''L5'']"

definition evidence_level :: "json list \<Rightarrow> string" where
  "evidence_level events =
     level_order ! foldl (\<lambda>top ev.
       case position (\<lambda>x. x = unwrap_or (get_str ev ''level'') ''L0'') level_order of
         Some idx \<Rightarrow> if idx > top then idx else top
       | None \<Rightarrow> top) 0 events"

definition seal_evidence :: "string \<Rightarrow> evidence_bundle \<Rightarrow> evidence_bundle" where
  "seal_evidence sig b = b\<lparr>eb_signature := (eb_signature b)\<lparr>es_signature := sig\<rparr>\<rparr>"

definition evidence_draft :: "int \<Rightarrow> assemble_args \<Rightarrow> json list \<Rightarrow> evidence_bundle" where
  "evidence_draft clock args filtered =
     \<lparr>eb_version = ''1'', eb_bundle_id = as_bundle_id args, eb_trust_domain = as_trust_domain args,
      eb_incident = \<lparr>ei_label = as_label args, ei_started_at = as_started_at args, ei_ended_at = as_ended_at args,
        ei_domains = as_domains args, ei_description = as_description args\<rparr>,
      eb_actors = Some (remdups_adj (sort (List.map_filter (\<lambda>ev. get_str ev ''actor_id'') filtered))),
      eb_events = filtered, eb_policy_decisions = as_policy_decisions args, eb_approvals = as_approvals args,
      eb_ceremonies = as_ceremonies args, eb_quorum_outcomes = as_quorum_outcomes args, eb_anchors = None,
      eb_encrypted_payload = None, eb_level = Some (evidence_level filtered), eb_issued_at = now_iso8601 clock,
      eb_issuer = as_issuer args, eb_signature = unsigned_by (as_issuer args)\<rparr>"

definition compile_pattern :: "(string \<Rightarrow> string + (string \<Rightarrow> bool)) \<Rightarrow> string option \<Rightarrow> string + (string \<Rightarrow> bool) option" where
  "compile_pattern compile pattern =
     (case pattern of
        Some p \<Rightarrow> (case compile p of Inl e \<Rightarrow> Inl (''type pattern: '' @ e) | Inr m \<Rightarrow> Inr (Some m))
      | None \<Rightarrow> Inr None)"

definition assemble_evidence_bundle ::
    "crates \<Rightarrow> (string \<Rightarrow> string + (string \<Rightarrow> bool)) \<Rightarrow> int \<Rightarrow> json list \<Rightarrow> assemble_args \<Rightarrow> string + assemble_result" where
  "assemble_evidence_bundle C compile clock events args =
     rbind (compile_pattern compile (as_event_type_pattern args)) (\<lambda>regex.
       let (filtered, skipped) = filter_events (keep_event args regex) events in
       if filtered = [] then Inl ''evidence bundle requires at least one matching event''
       else let bundle = evidence_draft clock args filtered in
         Inr \<lparr>ar_bundle = seal_evidence (sign_text C (as_private_key args) (evidence_signing_bytes C bundle)) bundle,
              ar_skipped = skipped\<rparr>)"

record evidence_result =
  er_ok :: bool
  er_reason :: "string option"
  er_outer_signature_ok :: bool
  er_events_verified :: nat
  er_events_skipped :: nat

definition evidence_refused :: "string \<Rightarrow> evidence_result" where
  "evidence_refused reason =
     \<lparr>er_ok = False, er_reason = Some reason, er_outer_signature_ok = False, er_events_verified = 0, er_events_skipped = 0\<rparr>"

definition verify_evidence_bundle :: "crates \<Rightarrow> evidence_bundle \<Rightarrow> bytes \<Rightarrow> evidence_result" where
  "verify_evidence_bundle C bundle issuer_public_key =
     (case check_signature C issuer_public_key (evidence_signing_bytes C bundle) (es_signature (eb_signature bundle)) of
        SigBase64 e \<Rightarrow> evidence_refused (''signature base64: '' @ decode_error_str e)
      | SigParse e \<Rightarrow> evidence_refused (''signature parse: '' @ e)
      | SigKey e \<Rightarrow> evidence_refused (''verifying key: '' @ e)
      | SigBad \<Rightarrow> evidence_refused ''outer signature did not verify''
      | SigOk \<Rightarrow> \<lparr>er_ok = True, er_reason = None, er_outer_signature_ok = True, er_events_verified = 0, er_events_skipped = 0\<rparr>)"

subsection \<open>Bundles as documents\<close>

definition evidence_plain :: "evidence_bundle \<Rightarrow> bool" where
  "evidence_plain b = frac_free_table (evidence_fields b)"

interpretation evidence_document: hashed_document evidence_fields eb_signature seal_evidence evidence_plain evidence_json
  by unfold_locales (simp_all add: evidence_json_def seal_evidence_def evidence_plain_def, simp_all add: evidence_fields_def is_ascii_def)

lemma seal_evidence_simps [simp]:
  "eb_events (seal_evidence s b) = eb_events b" "eb_actors (seal_evidence s b) = eb_actors b" "eb_level (seal_evidence s b) = eb_level b"
  by (simp_all add: seal_evidence_def)

subsection \<open>What a bundle selects\<close>

lemma filter_events_eq: "filter_events keep evs = (filter keep evs, length evs - length (filter keep evs))"
  by (induction evs) (simp_all add: Let_def Suc_diff_le length_filter_le)

lemma distinct_dedup: "sorted xs \<Longrightarrow> distinct (remdups_adj xs)" for xs :: "'a::linorder list"
  by (induction xs rule: remdups_adj.induct) (auto simp: order.antisym)

definition level_index :: "json \<Rightarrow> nat" where
  "level_index ev = unwrap_or (position (\<lambda>x. x = unwrap_or (get_str ev ''level'') ''L0'') level_order) 0"

lemma evidence_level_max: "evidence_level evs = level_order ! fold max (map level_index evs) 0"
proof -
  have "foldl (\<lambda>top ev. case position (\<lambda>x. x = unwrap_or (get_str ev ''level'') ''L0'') level_order of
       Some idx \<Rightarrow> if idx > top then idx else top | None \<Rightarrow> top) a evs = fold max (map level_index evs) a" for a
    by (induction evs arbitrary: a) (auto simp: level_index_def max_def not_less split: option.splits)
  then show ?thesis by (simp add: evidence_level_def)
qed

definition selects :: "assemble_args \<Rightarrow> (string \<Rightarrow> bool) option \<Rightarrow> json \<Rightarrow> bool" where
  "selects args regex ev \<longleftrightarrow>
     as_started_at args \<le> str_field ev ''timestamp'' \<and>
     list_all (\<lambda>stop. str_field ev ''timestamp'' \<le> stop) (case as_ended_at args of None \<Rightarrow> [] | Some s \<Rightarrow> [s]) \<and>
     list_all (\<lambda>actors. str_field ev ''actor_id'' \<in> set actors) (case as_actor_filter args of None \<Rightarrow> [] | Some a \<Rightarrow> [a]) \<and>
     list_all (\<lambda>is_match. is_match (str_field ev ''type'')) (case regex of None \<Rightarrow> [] | Some m \<Rightarrow> [m])"

lemma keep_event_selects: "keep_event args regex = selects args regex"
  by (rule ext) (auto simp: keep_event_def selects_def not_less not_le split: option.splits)

lemma assembled:
  assumes "assemble_evidence_bundle C compile clock events args = Inr r"
  obtains regex where "compile_pattern compile (as_event_type_pattern args) = Inr regex" "filter (selects args regex) events \<noteq> []"
    "ar_skipped r = length events - length (filter (selects args regex) events)"
    "ar_bundle r = (let b = evidence_draft clock args (filter (selects args regex) events)
       in seal_evidence (sign_text C (as_private_key args) (evidence_signing_bytes C b)) b)"
  using assms by (auto simp: assemble_evidence_bundle_def rbind_Inr_iff filter_events_eq keep_event_selects Let_def split: if_splits)

text \<open>
  C14. An evidence bundle is a faithful selection: it holds exactly the events of the log within the time span, of the
  requested actors and with a matching type, in their order, at least one; the number of skipped events is that of the
  others; the list of actors is sorted, without repetition, and names exactly the actors of the selected events; the level
  is the highest level among them; and the bundle verifies under the key of its issuer.
\<close>

theorem evidence_selection:
  assumes "ed25519_ok C" "assemble_evidence_bundle C compile clock events args = Inr r"
  shows "\<exists>regex actors. compile_pattern compile (as_event_type_pattern args) = Inr regex \<and>
    eb_events (ar_bundle r) = filter (selects args regex) events \<and> eb_events (ar_bundle r) \<noteq> [] \<and>
    ar_skipped r + length (eb_events (ar_bundle r)) = length events \<and>
    eb_actors (ar_bundle r) = Some actors \<and> sorted actors \<and> distinct actors \<and>
    set actors = {a. \<exists>ev \<in> set (eb_events (ar_bundle r)). get_str ev ''actor_id'' = Some a} \<and>
    eb_level (ar_bundle r) = Some (level_order ! fold max (map level_index (eb_events (ar_bundle r))) 0) \<and>
    er_ok (verify_evidence_bundle C (ar_bundle r) (cr_public C (as_private_key args)))"
proof -
  from assembled[OF assms(2)] obtain regex where
    regex: "compile_pattern compile (as_event_type_pattern args) = Inr regex" "filter (selects args regex) events \<noteq> []"
      "ar_skipped r = length events - length (filter (selects args regex) events)"
    and b: "ar_bundle r = (let b = evidence_draft clock args (filter (selects args regex) events)
       in seal_evidence (sign_text C (as_private_key args) (evidence_signing_bytes C b)) b)" by metis
  let ?f = "filter (selects args regex) events"
  let ?actors = "remdups_adj (sort (List.map_filter (\<lambda>ev. get_str ev ''actor_id'') ?f))"
  have f: "eb_events (ar_bundle r) = ?f" "eb_actors (ar_bundle r) = Some ?actors"
    "eb_level (ar_bundle r) = Some (level_order ! fold max (map level_index ?f) 0)"
    by (simp_all add: b Let_def evidence_draft_def evidence_level_max)
  have "er_ok (verify_evidence_bundle C (ar_bundle r) (cr_public C (as_private_key args)))"
    using evidence_document.doc.sealed_verifies[OF assms(1), of "as_private_key args" "evidence_draft clock args ?f"]
    by (simp add: b Let_def verify_evidence_bundle_def evidence_signing_bytes_def)
  moreover have "sorted ?actors" "distinct ?actors" by (simp_all add: sorted_remdups_adj distinct_dedup)
  moreover have "set ?actors = {a. \<exists>ev \<in> set ?f. get_str ev ''actor_id'' = Some a}"
    by (force simp: List.map_filter_def)
  moreover have "ar_skipped r + length ?f = length events" using regex(3) length_filter_le[of "selects args regex" events] by simp
  ultimately show ?thesis using regex(1,2) f by auto
qed

text \<open>
  The events in a bundle are taken on trust: verification looks at the signature of the issuer only, so it accepts
  any bundle that the issuer signed, whatever the events in it and whatever signatures they carry, and it reports
  that no event was verified.
\<close>

lemma evidence_events_unchecked:
  assumes "ed25519_ok C"
  shows "\<exists>sig. verify_evidence_bundle C (seal_evidence sig (b\<lparr>eb_events := forged\<rparr>)) (cr_public C key) =
    \<lparr>er_ok = True, er_reason = None, er_outer_signature_ok = True, er_events_verified = 0, er_events_skipped = 0\<rparr>"
  using evidence_document.doc.sealed_verifies[OF assms, of key "b\<lparr>eb_events := forged\<rparr>"]
  by (intro exI[of _ "sign_text C key (evidence_signing_bytes C (b\<lparr>eb_events := forged\<rparr>))"])
    (simp add: verify_evidence_bundle_def evidence_signing_bytes_def)

subsection \<open>An example\<close>

definition sample_assemble_args :: assemble_args where
  "sample_assemble_args = \<lparr>as_bundle_id = ''b1'', as_trust_domain = ''a.example'', as_label = ''i'', as_started_at = ''2026-01-01T00:00:00Z'',
     as_ended_at = None, as_domains = None, as_description = None, as_actor_filter = Some [''x''], as_event_type_pattern = None,
     as_policy_decisions = [], as_approvals = [], as_ceremonies = None, as_quorum_outcomes = None, as_issuer = ''i'', as_private_key = [7]\<rparr>"

definition sample_log :: "json list" where
  "sample_log = [JObject [(''actor_id'', JString ''y''), (''timestamp'', JString ''2026-02-01T00:00:00Z'')],
     JObject [(''actor_id'', JString ''x''), (''level'', JString ''L3''), (''timestamp'', JString ''2026-02-01T00:00:00Z'')]]"

theorem evidence_selection_witness:
  "\<exists>r regex. assemble_evidence_bundle sample_crates (\<lambda>_. Inl []) 0 sample_log sample_assemble_args = Inr r \<and>
     eb_events (ar_bundle r) = filter (selects sample_assemble_args regex) sample_log \<and>
     er_ok (verify_evidence_bundle sample_crates (ar_bundle r) (cr_public sample_crates [7]))"
proof -
  have "filter (selects sample_assemble_args None) sample_log \<noteq> []"
    by (simp add: sample_log_def selects_def sample_assemble_args_def str_field_def get_str_def)
  then obtain r where r: "assemble_evidence_bundle sample_crates (\<lambda>_. Inl []) 0 sample_log sample_assemble_args = Inr r"
    by (simp add: assemble_evidence_bundle_def filter_events_eq keep_event_selects Let_def compile_pattern_def sample_assemble_args_def)
  have "as_private_key sample_assemble_args = [7]" by (simp add: sample_assemble_args_def)
  with evidence_selection[OF sample_crates_ok(1) r] r show ?thesis by metis
qed

end
