(* ===== verification/Spec2Isabelle.thy ===== *)
theory Spec2Isabelle
  imports Glob Identifiers Envelope Validity Capability Guard Clock Canonical Policy_Engine Quorum
    Trust_Overlay Approval Base64 Cbor Crypto Signed Packet Replay Relay
    Orl Receipts Embedded Session Chain Framing
    Permission Migration Offline_Approval Federation Evidence
begin

text \<open>
  TrustForge is a trust layer for agents, devices and services: identities are URIs, authority is a
  capability with constraints that can be delegated, decisions are taken by a guard and by a policy engine,
  humans approve what the rules leave open, and everything that happens is signed, chained and checkable later,
  also on devices without a connection. This development models the Rust core of it, the crate
  \<open>src/crates/tf-types\<close> and the embedded crate \<open>src/crates/tf-core-no-std\<close>.

  \<^bold>\<open>How the parts interact.\<close> A document (packet, receipt, revocation list, grant, event, and so on) is a struct
  whose derived serialiser gives a JSON object; its canonical text without the signature is hashed and signed.
  Packets carry payloads over store-and-forward links, are fragmented, relayed under an authority, filtered
  against replay and acknowledged by receipts. Sessions carry frames over live connections after a handshake.
  Before an action the guard or the policy engine decides, using globs, capability constraints, validity windows
  and revocations; an approval queue and a quorum collector ask humans; offline approvals, permission grants and
  federation attestations bring decisions from elsewhere. Proof events record the outcome; they are chained,
  summarised, written to logs and assembled to evidence.

  \<^bold>\<open>How the code is modelled.\<close> A struct is a record, an enum a datatype, a function a definition of the same
  name (with a prefix where two modules share one). A \<open>str\<close> is the list of its UTF-8 bytes, a \<open>Vec<u8>\<close> a list of
  8-bit words, \<open>usize\<close> a natural number; counters that can wrap (hop counts, rate buckets, quorum counts, the
  generations and sequence numbers of sessions, the ratchet) are words of their width. \<open>Result\<close> is a sum with the
  error on the left, a panic is \<open>None\<close>, and a method that changes its object returns it. The clock and the random
  generator are arguments. What a mutex protects is one step. Hash maps are sets, partial functions or
  association lists; where their iteration order can be observed it is an argument (\<open>Federation\<close>).

  \<^bold>\<open>What is a parameter.\<close> The third-party crates (Ed25519, SHA-256, X25519, HKDF, ChaCha20-Poly1305, deflate,
  Unicode normalisation, float printing, the JSON parser) are the record \<open>crates\<close>; sessions add the
  post-quantum crate and the derived frame reader (\<open>session_crates\<close>), the file formats the derived readers
  (\<open>readers\<close>); regular expressions and the other policy engines are function arguments. What the code relies on is
  named: \<open>ed25519_ok\<close> (a signature verifies), \<open>deflate_ok\<close>, \<open>nfc_ok\<close> (ASCII is in normal form), \<open>digest_ok\<close>
  (digests have 32 bytes), \<open>aead_ok\<close>, \<open>dh_ok\<close>, \<open>frame_ok\<close>, \<open>json_raw_ok\<close> (what is written is read back).
  Each has an instance in the examples. No collision freedom is assumed: the statements about hashes say
  that two inputs agree or are a collision.

  \<^bold>\<open>Theories, sources and what is shown.\<close>

  \<^item> \<open>Prelude\<close>, \<open>Decimal\<close>, \<open>Json\<close>: strings, bytes, results, decimal numbers, \<open>serde_json::Value\<close>.
  \<^item> \<open>Glob\<close> (\<open>glob.rs\<close>): the dynamic program decides the language of the pattern.
  \<^item> \<open>Identifiers\<close> (\<open>actor_id.rs\<close>, \<open>instance_id.rs\<close>, \<open>trust_domain.rs\<close>): parsing inverts formatting, and accepts
    nothing else.
  \<^item> \<open>Envelope\<close>, \<open>Validity\<close>, \<open>Clock\<close> (\<open>envelope.rs\<close>, \<open>expiration.rs\<close>, \<open>revocation.rs\<close>, the date routines): shape of
    envelopes, windows, the revocation index; the order of timestamps as texts is that of the instants.
  \<^item> \<open>Capability\<close> (\<open>capability.rs\<close>, \<open>delegation.rs\<close>): when a chain is accepted, that its effective constraints
    attenuate when they can be combined (counters of quantities, rates and quorums included), and where they widen.
  \<^item> \<open>Guard\<close>, \<open>Policy_Engine\<close>, \<open>Trust_Overlay\<close> (\<open>guard.rs\<close>, \<open>policy_engine.rs\<close>, \<open>trust_overlay.rs\<close>): the exact
    conditions of every decision.
  \<^item> \<open>Quorum\<close>, \<open>Approval\<close> (\<open>quorum.rs\<close>, \<open>approval.rs\<close>): over all sequences of votes, an approval has its quorum and
    a full vote has the right outcome; over all interleavings of the queue, no waiter is lost.
  \<^item> \<open>Base64\<close>, \<open>Cbor\<close>, \<open>Canonical\<close> (\<open>encoding.rs\<close>, \<open>cbor.rs\<close>, \<open>canonical.rs\<close>): round trips, exactness, bounds of what
    is decoded, injectivity of the canonical text. \<open>Cbor\<close> has the locale \<open>consuming_parser\<close>.
  \<^item> \<open>Crypto\<close>, \<open>Signed\<close>, \<open>Documents\<close> (\<open>crypto.rs\<close> and the scheme the signing modules share): the locales
    \<open>signed_document\<close> and \<open>hashed_document\<close>, with the facts every signed struct gets by interpretation: a sealed
    document verifies, a signature binds every field.
  \<^item> \<open>Packet\<close>, \<open>Replay\<close>, \<open>Relay\<close>, \<open>Receipts\<close>, \<open>Orl\<close>, \<open>Embedded\<close> (\<open>packet.rs\<close>, \<open>constrained.rs\<close>, \<open>relay.rs\<close>, and
    \<open>packet.rs\<close>, \<open>relay.rs\<close>, \<open>nonce_cache.rs\<close>, \<open>orl.rs\<close> of the embedded crate): sign and verify, fragment and
    reassemble; three receivers refine one replay window (locale \<open>replay_window\<close>); forwarding is sound and rate
    limited; the embedded revocation checkers agree with the runtime (locale \<open>orl_index\<close>); embedded signatures bind.
  \<^item> \<open>Channel\<close>, \<open>Session\<close> (\<open>session.rs\<close>, \<open>crypto_pq.rs\<close>): delivery in order and once (locale
    \<open>sequenced_channel\<close>), rekeying, completion of the handshake, and that transcripts bind.
  \<^item> \<open>Chain\<close>, \<open>Framing\<close> (\<open>chain.rs\<close>, \<open>format.rs\<close>, \<open>binary_format.rs\<close>): chains and summaries bind their events (locale
    \<open>commitment\<close>), the Merkle loop ends, logs survive torn writes.
  \<^item> \<open>Permission\<close>, \<open>Migration\<close>, \<open>Offline_Approval\<close>, \<open>Federation\<close>, \<open>Evidence\<close> (the modules of these names):
    when each document is accepted, replay protection of migrations, the ratchet, soundness of foreign identities,
    the selection of evidence.
  \<^item> This theory: no signature of one kind of document is a signature of another.

  \<^bold>\<open>Bounds and termination.\<close> No definition runs on fuel. The decoder of \<open>Cbor\<close> recurses on the nesting levels
  that the source's \<open>MAX_DEPTH\<close> of 128 still allows; the Merkle loop is a partial function that is shown to return
  for every list; all other loops are structural or have a measure. The limits that statements carry (32-bit
  length prefixes, fewer than 2^64 frames, chains of at most \<open>i64::MAX\<close> links, four-digit years) are those of the
  fields in the code. Two places stay outside: sums of offsets that wrap on a 32-bit \<open>usize\<close>, and the arrival of a
  callback or a send after its mutex is released.

  \<^bold>\<open>Where the code departs from its documentation\<close> the theorem states what the code does and its text says so:
  target lists without a common pattern are united along a delegation chain, the negative capabilities of a
  query replace those of the manifest, the initiator of a session accepts a suite it did not offer, an offline
  approval without a readable time is not checked for age, an embedded list expires one instant early. Lemmas
  without a number show further cases (\<open>delegation_rate_widening\<close>, \<open>quorum_duplicate_stalls\<close>,
  \<open>negative_capability_divergence\<close>, \<open>evidence_events_unchecked\<close> and others).

  \<^bold>\<open>Not modelled.\<close> Code that only composes crates or performs input and output: encrypted bundles, the vault, the
  stores and their databases, plugins and manifests, the RPC layer on its asynchronous runtime, transports,
  proxy and telemetry, hardware drivers, framework adapters and WebAssembly bindings. Readers of foreign formats:
  YAML, JWS, WebAuthn attestations, the protocol bridges. The adapters of the Cedar and Rego engines. Profiles and
  the simulation harness, the LoRa channel simulator and the BLAKE3 reference. The derived deserialisers of
  generated types, which are parameters. The TypeScript tools, a second implementation, are only consulted where
  the Rust code says that it mirrors them.
\<close>

subsection \<open>One signature, one document\<close>

text \<open>The documents whose signature covers the SHA-256 digest of their canonical text.\<close>

datatype signed_doc =
    PacketDoc packet
  | AuthorityDoc relay_authority
  | EventDoc proof_event
  | GrantDoc permission_grant
  | MigrationDoc session_migration
  | AttestationDoc federation_attestation
  | EvidenceDoc evidence_bundle

fun sd_digest :: "crates \<Rightarrow> signed_doc \<Rightarrow> bytes" where
  "sd_digest C (PacketDoc p) = packet_signing_bytes C p"
| "sd_digest C (AuthorityDoc a) = relay_authority_signing_bytes C a"
| "sd_digest C (EventDoc e) = cr_sha256 C (as_bytes (unwrap_or_default (event_signed_payload C e)))"
| "sd_digest C (GrantDoc g) = permission_grant_signing_bytes C g"
| "sd_digest C (MigrationDoc m) = migration_signing_bytes C m"
| "sd_digest C (AttestationDoc a) = attestation_signing_bytes C a"
| "sd_digest C (EvidenceDoc b) = evidence_signing_bytes C b"

fun sd_fields :: "signed_doc \<Rightarrow> (string \<times> json option) list" where
  "sd_fields (PacketDoc p) = unsigned_fields p"
| "sd_fields (AuthorityDoc a) = authority_fields a"
| "sd_fields (EventDoc e) = event_fields e"
| "sd_fields (GrantDoc g) = grant_fields g"
| "sd_fields (MigrationDoc m) = migration_fields m"
| "sd_fields (AttestationDoc a) = attestation_fields a"
| "sd_fields (EvidenceDoc b) = evidence_fields b"

text \<open>Documents without fractional numbers in their free-form parts.\<close>

fun sd_plain :: "signed_doc \<Rightarrow> bool" where
  "sd_plain (PacketDoc p) = True"
| "sd_plain (AuthorityDoc a) = plain_authority a"
| "sd_plain (EventDoc e) = event_plain e"
| "sd_plain (GrantDoc g) = grant_plain g"
| "sd_plain (MigrationDoc m) = migration_plain m"
| "sd_plain (AttestationDoc a) = attestation_plain a"
| "sd_plain (EvidenceDoc b) = evidence_plain b"

text \<open>Each kind has a mandatory field that no other kind has.\<close>

fun sd_kind :: "signed_doc \<Rightarrow> string" where
  "sd_kind (PacketDoc p) = ''packet_version''"
| "sd_kind (AuthorityDoc a) = ''relay_authority_version''"
| "sd_kind (EventDoc e) = ''event_version''"
| "sd_kind (GrantDoc g) = ''grant_version''"
| "sd_kind (MigrationDoc m) = ''migration_version''"
| "sd_kind (AttestationDoc a) = ''attestation_version''"
| "sd_kind (EvidenceDoc b) = ''evidence_version''"

lemmas sd_tables = unsigned_fields_def authority_fields_def event_fields_def grant_fields_def migration_fields_def
  attestation_fields_def evidence_fields_def

lemma sd_digest_text: "sd_plain d \<Longrightarrow> sd_digest C d = cr_sha256 C (as_bytes (struct_text C (sd_fields d)))"
  by (cases d) (simp_all add: packet_document.signing_bytes_def authority_document.signing_bytes_def event_payload event_text_def
      permission_grant_signing_bytes_def grant_document.digest_eq migration_signing_bytes_def migration_document.digest_eq
      attestation_signing_bytes_def attestation_document.digest_eq evidence_signing_bytes_def evidence_document.digest_eq)

lemma sd_frac_free: "sd_plain d \<Longrightarrow> frac_free_table (sd_fields d)"
  by (cases d) (simp_all add: packet_document.no_fractions authority_document.no_fractions event_document.no_fractions
      grant_document.no_fractions migration_document.no_fractions attestation_document.no_fractions evidence_document.no_fractions)

lemma sd_keys: "distinct (map fst (sd_fields d)) \<and> list_all is_ascii (map fst (sd_fields d))"
  by (cases d) (use packet_document.keys_ok authority_document.keys_ok event_document.keys_ok grant_document.doc.keys_ok
      migration_document.doc.keys_ok attestation_document.doc.keys_ok evidence_document.doc.keys_ok in simp_all)

lemma sd_kind_field: "\<exists>v. (sd_kind d, Some v) \<in> set (sd_fields d)"
  by (cases d) (simp_all add: sd_tables)

lemma sd_kind_foreign: "sd_kind d \<noteq> sd_kind e \<Longrightarrow> sd_kind d \<notin> set (map fst (sd_fields e))"
  by (cases d; cases e) (simp_all add: sd_tables)

lemma sd_same_keys: "sd_kind d = sd_kind e \<Longrightarrow> map fst (sd_fields d) = map fst (sd_fields e)"
  by (cases d; cases e) (simp_all add: sd_tables)

text \<open>
  C5. A signature belongs to one document: among packets, relay authorities, proof events, permission grants, session migrations,
  federation attestations and evidence bundles, two documents with the same signed digest are of the same kind and
  agree in every signed field (strings up to Unicode normalisation, objects up to order), or their canonical texts are a
  collision of SHA-256. A signature obtained for one document can therefore not be passed off as the signature of
  another, of whatever kind, even when one key signs them all.
\<close>

theorem signed_documents_separated:
  assumes "nfc_ok C" "sd_plain d" "sd_plain e" "sd_digest C d = sd_digest C e"
  shows "sd_kind d = sd_kind e \<and>
      map (map_option (json_norm (cr_nfc C)) \<circ> snd) (sd_fields d) = map (map_option (json_norm (cr_nfc C)) \<circ> snd) (sd_fields e) \<or>
    collision (cr_sha256 C) (as_bytes (struct_text C (sd_fields d))) (as_bytes (struct_text C (sd_fields e)))"
proof (cases "struct_text C (sd_fields d) = struct_text C (sd_fields e)")
  case False
  with assms show ?thesis by (simp add: collision_def sd_digest_text)
next
  case True
  have nfc: "cr_nfc C k = k" if "k \<in> set (map fst (sd_fields x))" for k x
    using that sd_keys[of x] assms(1) by (auto simp: nfc_ok_def list_all_iff)
  have kind: "sd_kind d = sd_kind e"
  proof (rule ccontr)
    assume "sd_kind d \<noteq> sd_kind e"
    moreover obtain v where "(sd_kind d, Some v) \<in> set (sd_fields d)" using sd_kind_field by blast
    moreover have "list_all (\<lambda>k. cr_nfc C k = k) (map fst (sd_fields d) @ map fst (sd_fields e))"
      using nfc[of _ d] nfc[of _ e] by (auto simp: list_all_iff)
    ultimately show False
      using struct_text_key[OF sd_frac_free[OF assms(2)] sd_frac_free[OF assms(3)]] sd_kind_foreign True by blast
  qed
  have n: "json_norm (cr_nfc C) (JObject (sort_entries (present (sd_fields d)))) =
      json_norm (cr_nfc C) (JObject (sort_entries (present (sd_fields e))))"
    by (rule struct_text_norm[OF sd_frac_free[OF assms(2)] sd_frac_free[OF assms(3)] True])
  have "map (map_option (json_norm (cr_nfc C)) \<circ> snd) (sd_fields d) = map (map_option (json_norm (cr_nfc C)) \<circ> snd) (sd_fields e)"
    by (rule struct_norm_eq[OF sd_same_keys[OF kind] conjunct1[OF sd_keys] _ n]) (rule nfc)
  with kind show ?thesis by blast
qed

theorem signed_documents_separated_witness:
  "sd_kind (EventDoc (sample_event ''e1'' None)) = sd_kind (PacketDoc sample_packet) \<and>
     map (map_option (json_norm (cr_nfc flat_crates)) \<circ> snd) (sd_fields (EventDoc (sample_event ''e1'' None))) =
     map (map_option (json_norm (cr_nfc flat_crates)) \<circ> snd) (sd_fields (PacketDoc sample_packet)) \<or>
   collision (cr_sha256 flat_crates) (as_bytes (struct_text flat_crates (sd_fields (EventDoc (sample_event ''e1'' None)))))
     (as_bytes (struct_text flat_crates (sd_fields (PacketDoc sample_packet))))"
proof -
  have "sd_plain (EventDoc (sample_event ''e1'' None))" "sd_plain (PacketDoc sample_packet)" by simp_all
  moreover from this have "sd_digest flat_crates (EventDoc (sample_event ''e1'' None)) = sd_digest flat_crates (PacketDoc sample_packet)"
    by (simp add: sd_digest_text flat_crates_def del: sd_digest.simps sd_fields.simps)
  ultimately show ?thesis by (rule signed_documents_separated[OF flat_crates_ok(1)])
qed

end
